(* ===== verification/Prelude.thy ===== *)
theory Prelude
  imports Main "HOL-Library.Word"
begin

text \<open>
  Vocabulary shared by the component theories: the C integer types of the drivers (the target is
  a 32-bit ARM, so \<^verbatim>\<open>int\<close>, \<^verbatim>\<open>unsigned int\<close> and \<^verbatim>\<open>unsigned long\<close> have 32 bits), the error numbers
  the drivers return, the collections of facts the proofs use, and generic lemmas on bits, lists
  and modular counters.
\<close>

unbundle bit_operations_syntax

type_synonym u8 = "8 word"
type_synonym u16 = "16 word"
type_synonym u32 = "32 word"

text \<open>
  Error numbers as the Linux headers define them. A system call entry of a driver returns the
  negated number.
\<close>

abbreviation (input) EPERM :: int where "EPERM \<equiv> 1"
abbreviation (input) ENOENT :: int where "ENOENT \<equiv> 2"
abbreviation (input) EINTR :: int where "EINTR \<equiv> 4"
abbreviation (input) EIO :: int where "EIO \<equiv> 5"
abbreviation (input) EAGAIN :: int where "EAGAIN \<equiv> 11"
abbreviation (input) ENOMEM :: int where "ENOMEM \<equiv> 12"
abbreviation (input) EFAULT :: int where "EFAULT \<equiv> 14"
abbreviation (input) EBUSY :: int where "EBUSY \<equiv> 16"
abbreviation (input) ENODEV :: int where "ENODEV \<equiv> 19"
abbreviation (input) EINVAL :: int where "EINVAL \<equiv> 22"
abbreviation (input) ESPIPE :: int where "ESPIPE \<equiv> 29"
abbreviation (input) ENOSYS :: int where "ENOSYS \<equiv> 38"
abbreviation (input) EOPNOTSUPP :: int where "EOPNOTSUPP \<equiv> 95"
abbreviation (input) ERESTARTSYS :: int where "ERESTARTSYS \<equiv> 512"

named_theorems dev_defs "definitions of driver operations, unfolded when a handler is executed"
named_theorems bit_facts "reading single bits of register expressions"

subsection \<open>Register bits\<close>

definition set_mask :: "u32 \<Rightarrow> u32 \<Rightarrow> u32" where
  "set_mask m r = r OR m"

definition clear_mask :: "u32 \<Rightarrow> u32 \<Rightarrow> u32" where
  "clear_mask m r = r AND NOT m"

lemma bit_set_mask [bit_facts]: "bit (set_mask m r) n \<longleftrightarrow> bit r n \<or> bit m n"
  by (simp add: set_mask_def bit_or_iff)

lemma bit_clear_mask [bit_facts]: "bit (clear_mask m r) n \<longleftrightarrow> bit r n \<and> \<not> bit m n"
  by (auto simp: clear_mask_def bit_and_iff bit_not_iff dest: bit_imp_le_length)

lemma set_mask_idem [simp]: "set_mask m (set_mask m r) = set_mask m r"
  by (simp add: set_mask_def or.assoc)

lemma clear_mask_idem [simp]: "clear_mask m (clear_mask m r) = clear_mask m r"
  by (simp add: clear_mask_def and.assoc)

lemma bit_push_bit_1 [bit_facts]:
  "bit (push_bit k (1 :: u32)) n \<longleftrightarrow> n = k \<and> n < 32"
  by (auto simp: bit_simps)

lemma and_one_bit: "(w AND push_bit k (1 :: 'a::len word) \<noteq> 0) \<longleftrightarrow> k < LENGTH('a) \<and> bit w k"
proof
  assume "w AND push_bit k 1 \<noteq> 0"
  then obtain n where "bit (w AND push_bit k 1) n"
    by (metis bit_eqI bit_0_eq bot_apply bot_bool_def)
  then show "k < LENGTH('a) \<and> bit w k"
    by (auto simp: bit_simps)
next
  assume a: "k < LENGTH('a) \<and> bit w k"
  then have "bit (w AND push_bit k 1) k"
    by (auto simp: bit_simps)
  then show "w AND push_bit k 1 \<noteq> 0"
    by (metis bit_0_eq bot_apply bot_bool_def)
qed

subsection \<open>Lists and modular counters\<close>

lemma mod_add_one_neq: "1 < n \<Longrightarrow> w < n \<Longrightarrow> (w + 1) mod n \<noteq> (w :: nat)"
  by (cases "w + 1 = n") auto

lemma mod_succ_less [simp]: "0 < n \<Longrightarrow> Suc a mod n < (n :: nat)"
  by simp

text \<open>The last \<^verbatim>\<open>k\<close> elements of a list: what a bounded log keeps.\<close>

definition keep :: "nat \<Rightarrow> 'a list \<Rightarrow> 'a list" where
  "keep k xs = drop (length xs - k) xs"

lemma length_keep [simp]: "length (keep k xs) = min k (length xs)"
  by (auto simp: keep_def)

lemma keep_short [simp]: "length xs \<le> k \<Longrightarrow> keep k xs = xs"
  by (simp add: keep_def)

lemma keep_Nil [simp]: "keep k [] = []"
  by (simp add: keep_def)

lemma keep_Nil_iff: "keep k xs = [] \<longleftrightarrow> k = 0 \<or> xs = []"
  by (metis length_0_conv length_keep min_0L min_0R min_def)

lemma keep_append_keep: "keep k (keep k xs @ ys) = keep k (xs @ ys)"
  by (cases "length xs \<le> k") (auto simp: keep_def add.commute)

lemma keep_full: "length xs = k \<Longrightarrow> 0 < k \<Longrightarrow> keep k (xs @ [x]) = tl xs @ [x]"
  by (cases xs) (auto simp: keep_def)

text \<open>Consecutive slots of a ring, starting at \<^verbatim>\<open>from\<close>.\<close>

definition ring :: "nat \<Rightarrow> 'a list \<Rightarrow> nat \<Rightarrow> nat \<Rightarrow> 'a list" where
  "ring N b from n = map (\<lambda>k. b ! ((from + k) mod N)) [0..<n]"

definition span :: "nat \<Rightarrow> nat \<Rightarrow> nat \<Rightarrow> nat" where
  "span N from to = (to + N - from) mod N"

lemma length_ring [simp]: "length (ring N b f n) = n"
  by (simp add: ring_def)

lemma ring_0 [simp]: "ring N b f 0 = []"
  by (simp add: ring_def)

lemma ring_snoc: "ring N b f (Suc n) = ring N b f n @ [b ! ((f + n) mod N)]"
  by (simp add: ring_def)

lemma ring_Cons: "f < N \<Longrightarrow> ring N b f (Suc n) = b ! f # ring N b (Suc f mod N) n"
  by (simp add: ring_def upt_conv_Cons map_Suc_upt [symmetric] mod_simps del: upt_Suc)

lemma span_less: "0 < N \<Longrightarrow> span N f t < N"
  by (simp add: span_def)

lemma span_cases:
  assumes "f < N" "t < N"
  shows "span N f t = (if f \<le> t then t - f else t + N - f)"
proof (cases "f \<le> t")
  case True
  then have "t + N - f = (t - f) + N" by simp
  then have "span N f t = (t - f) mod N" by (simp add: span_def)
  with True assms show ?thesis by simp
next
  case False
  with assms show ?thesis by (simp add: span_def)
qed

lemma succ_mod_cases: "t < N \<Longrightarrow> Suc t mod N = (if Suc t = N then 0 else Suc t)"
  by (simp add: mod_Suc)

lemma span_zero_iff: "f < N \<Longrightarrow> t < N \<Longrightarrow> span N f t = 0 \<longleftrightarrow> f = t"
  by (auto simp: span_cases)

lemma span_full_iff:
  "f < N \<Longrightarrow> t < N \<Longrightarrow> Suc t mod N = f \<longleftrightarrow> span N f t = N - 1"
  by (auto simp: span_cases succ_mod_cases)

lemma span_succ_to:
  "f < N \<Longrightarrow> t < N \<Longrightarrow> span N f t < N - 1 \<Longrightarrow> span N f (Suc t mod N) = Suc (span N f t)"
  by (auto simp: span_cases succ_mod_cases split: if_splits)

lemma span_succ_both:
  "f < N \<Longrightarrow> t < N \<Longrightarrow> span N (Suc f mod N) (Suc t mod N) = span N f t"
  by (auto simp: span_cases succ_mod_cases)

lemma span_succ_from:
  "f < N \<Longrightarrow> t < N \<Longrightarrow> f \<noteq> t \<Longrightarrow> Suc (span N (Suc f mod N) t) = span N f t"
  by (auto simp: span_cases succ_mod_cases)

lemma span_target: "f < N \<Longrightarrow> t < N \<Longrightarrow> (f + span N f t) mod N = t"
  by (auto simp: span_cases)

lemma span_target_neq:
  assumes "f < N" "t < N" "k < span N f t"
  shows "(f + k) mod N \<noteq> t"
proof (cases "f + k < N")
  case True
  with assms show ?thesis by (auto simp: span_cases split: if_splits)
next
  case False
  with assms have "f + k - N < N" by (auto simp: span_cases split: if_splits)
  with False have "(f + k) mod N = f + k - N"
    by (metis le_add_diff_inverse mod_add_self1 mod_less not_less)
  with assms False show ?thesis by (auto simp: span_cases split: if_splits)
qed

lemma ring_update_outside:
  assumes "f < N" "t < N" "n \<le> span N f t"
  shows "ring N (b[t := c]) f n = ring N b f n"
proof -
  have "b[t := c] ! ((f + k) mod N) = b ! ((f + k) mod N)" if "k < n" for k
    using span_target_neq [of f N t k] that assms by (metis nth_list_update_neq order_less_le_trans)
  then show ?thesis by (simp add: ring_def)
qed

lemma ring_push:
  assumes "f < N" "t < N" "length b = N"
  shows "ring N (b[t := c]) f (Suc (span N f t)) = ring N b f (span N f t) @ [c]"
  using assms by (simp add: ring_snoc ring_update_outside span_target)

subsection \<open>Bounded logs\<close>

text \<open>
  A log with room for \<^verbatim>\<open>cap\<close> entries promises one thing: after an entry is put, what can be read
  is the last \<^verbatim>\<open>cap\<close> entries of what could be read before followed by the new one.
\<close>

locale bounded_log =
  fixes put :: "'a \<Rightarrow> 's \<Rightarrow> 's"
    and view :: "'s \<Rightarrow> 'a list"
    and inv :: "'s \<Rightarrow> bool"
    and cap :: nat
  assumes inv_put: "inv s \<Longrightarrow> inv (put c s)"
    and view_put: "inv s \<Longrightarrow> view (put c s) = keep cap (view s @ [c])"
    and view_bounded: "inv s \<Longrightarrow> length (view s) \<le> cap"
begin

lemma inv_puts: "inv s \<Longrightarrow> inv (fold put cs s)"
  by (induction cs arbitrary: s) (simp_all add: inv_put)

lemma view_puts: "inv s \<Longrightarrow> view (fold put cs s) = keep cap (view s @ cs)"
proof (induction cs arbitrary: s)
  case Nil
  then show ?case by (simp add: view_bounded)
next
  case (Cons c cs)
  then show ?case
    by (simp add: inv_put view_put keep_append_keep)
qed

end

end
