(* ===== verification/Kernel.thy ===== *)
theory Kernel
  imports Prelude
begin

text \<open>
  The drivers act on the rest of Linux only by calling it. The code behind those calls is not part
  of this repository, so the model never defines what it does: a call that has an effect outside
  the driver is a value of \<^verbatim>\<open>kcall\<close>, appended to the trace \<^verbatim>\<open>kt\<close> in the order in
  which the C code issues it, and a result the driver looks at is an argument of the operation.
  The second half says which calls pair up (\<^verbatim>\<open>request_irq\<close> with \<^verbatim>\<open>free_irq\<close>, and so on), so
  that a trace can be asked what it still holds, and states the contract of a module's load and
  unload functions as the locale \<^verbatim>\<open>lifecycle\<close>.
\<close>

subsection \<open>Calls into the kernel\<close>

text \<open>
  Most calls acquire something that another call gives back. A resource is what passes between the
  two: an interrupt line, named as in the headers, with its \<^verbatim>\<open>dev_id\<close>, a mapped physical range, a registered number, and so
  on. A device number is a major and a minor number; a variable of the driver that holds a kernel
  object is named by a string.
\<close>

datatype resource =
    Irq_line string nat | Timer string | Chrdev nat | Chrdev_region nat nat nat | Cdev string
  | Dev_class string | Dev_node nat nat | Io_map u32 | Io_region int | Memory string
  | Dma_mem string nat | Input_dev string | Input_reg string | Disk string | Disk_ref string
  | Blkdev nat | Blk_queue string | Proc_entry string | Netdev string | Netdev_reg string
  | Framebuffer | Framebuffer_reg | Mtd_parts | Bus_driver string | Dma_chan nat | Sound_dev string | Clock string | File_ref nat

datatype kcall =
    Acquire resource nat           \<comment> \<open>with the size or count that the call passes\<close>
  | Release resource
  | Mod_timer string u32           \<comment> \<open>the delay counted from \<^verbatim>\<open>jiffies\<close>\<close>
  | Mod_timer_HZ string nat        \<comment> \<open>the delay is \<^verbatim>\<open>HZ\<close> divided by the number\<close>
  | Wake_up string
  | Kill_fasync string
  | Fasync_helper nat bool
  | Poll_wait string
  | Input_event string nat nat int \<comment> \<open>device, type, code, value\<close>
  | Input_sync string
  | Delay_us nat
  | Other string nat               \<comment> \<open>a call with no counterpart that gives something back\<close>

abbreviation "Request_irq i d \<equiv> Acquire (Irq_line i d) 0"
abbreviation "Free_irq i d \<equiv> Release (Irq_line i d)"
abbreviation "Add_timer t \<equiv> Acquire (Timer t) 0"
abbreviation "Del_timer t \<equiv> Release (Timer t)"
abbreviation "Register_chrdev m \<equiv> Acquire (Chrdev m) 0"
abbreviation "Unregister_chrdev m \<equiv> Release (Chrdev m)"
abbreviation "Register_chrdev_region m a n \<equiv> Acquire (Chrdev_region m a n) n"
abbreviation "Unregister_chrdev_region m a n \<equiv> Release (Chrdev_region m a n)"
abbreviation "Cdev_add c n \<equiv> Acquire (Cdev c) n"
abbreviation "Cdev_del c \<equiv> Release (Cdev c)"
abbreviation "Class_create c \<equiv> Acquire (Dev_class c) 0"
abbreviation "Class_destroy c \<equiv> Release (Dev_class c)"
abbreviation "Device_create m i \<equiv> Acquire (Dev_node m i) 0"
abbreviation "Device_destroy m i \<equiv> Release (Dev_node m i)"
abbreviation "Ioremap p n \<equiv> Acquire (Io_map p) n"
abbreviation "Iounmap p \<equiv> Release (Io_map p)"
abbreviation "Request_region p n \<equiv> Acquire (Io_region p) n"
abbreviation "Release_region p \<equiv> Release (Io_region p)"
abbreviation "Kmalloc v n \<equiv> Acquire (Memory v) n"
abbreviation "Fget i \<equiv> Acquire (File_ref i) 0"
abbreviation "Fput i \<equiv> Release (File_ref i)"
abbreviation "Kfree v \<equiv> Release (Memory v)"
abbreviation "Dma_alloc v n \<equiv> Acquire (Dma_mem v n) n"
abbreviation "Dma_free v n \<equiv> Release (Dma_mem v n)"
abbreviation "Input_allocate_device d \<equiv> Acquire (Input_dev d) 0"
abbreviation "Input_free_device d \<equiv> Release (Input_dev d)"
abbreviation "Input_register_device d \<equiv> Acquire (Input_reg d) 0"
abbreviation "Input_unregister_device d \<equiv> Release (Input_reg d)"
abbreviation "Alloc_disk d n \<equiv> Acquire (Disk_ref d) n"
abbreviation "Put_disk d \<equiv> Release (Disk_ref d)"
abbreviation "Add_disk d \<equiv> Acquire (Disk d) 0"
abbreviation "Del_gendisk d \<equiv> Release (Disk d)"
abbreviation "Register_blkdev m \<equiv> Acquire (Blkdev m) 0"
abbreviation "Unregister_blkdev m \<equiv> Release (Blkdev m)"
abbreviation "Blk_init_queue q \<equiv> Acquire (Blk_queue q) 0"
abbreviation "Blk_cleanup_queue q \<equiv> Release (Blk_queue q)"
abbreviation "Create_proc_entry p \<equiv> Acquire (Proc_entry p) 0"
abbreviation "Remove_proc_entry p \<equiv> Release (Proc_entry p)"
abbreviation "Alloc_netdev n \<equiv> Acquire (Netdev n) 0"
abbreviation "Free_netdev n \<equiv> Release (Netdev n)"
abbreviation "Register_netdev n \<equiv> Acquire (Netdev_reg n) 0"
abbreviation "Unregister_netdev n \<equiv> Release (Netdev_reg n)"
abbreviation "Framebuffer_alloc \<equiv> Acquire Framebuffer 0"
abbreviation "Framebuffer_release \<equiv> Release Framebuffer"
abbreviation "Register_framebuffer \<equiv> Acquire Framebuffer_reg 0"
abbreviation "Unregister_framebuffer \<equiv> Release Framebuffer_reg"
abbreviation "Add_mtd_partitions n \<equiv> Acquire Mtd_parts n"
abbreviation "Del_mtd_partitions \<equiv> Release Mtd_parts"
abbreviation "Register_driver n \<equiv> Acquire (Bus_driver n) 0"
abbreviation "Unregister_driver n \<equiv> Release (Bus_driver n)"

record kstate =
  kt :: "kcall list"

definition emit :: "kcall list \<Rightarrow> 'a kstate_scheme \<Rightarrow> 'a kstate_scheme" where
  "emit cs s = s\<lparr>kt := kt s @ cs\<rparr>"

lemma kt_emit [simp]: "kt (emit cs s) = kt s @ cs"
  by (simp add: emit_def)

lemma emit_Nil [simp]: "emit [] s = s"
  by (simp add: emit_def)

lemma emit_emit [simp]: "emit ds (emit cs s) = emit (cs @ ds) s"
  by (simp add: emit_def)

lemma more_emit [simp]: "kstate.more (emit cs s) = kstate.more s"
  by (simp add: emit_def)

subsection \<open>What a trace of calls still holds\<close>

fun track :: "resource list \<Rightarrow> kcall \<Rightarrow> resource list" where
  "track h (Acquire r n) = h @ [r]"
| "track h (Release r) = remove1 r h"
| "track h _ = h"

definition held_from :: "resource list \<Rightarrow> kcall list \<Rightarrow> resource list" where
  "held_from h cs = foldl track h cs"

abbreviation held :: "kcall list \<Rightarrow> resource list" where
  "held cs \<equiv> held_from [] cs"

lemma held_from_Nil [simp]: "held_from h [] = h"
  by (simp add: held_from_def)

lemma held_from_Cons [simp]: "held_from h (c # cs) = held_from (track h c) cs"
  by (simp add: held_from_def)

lemma held_from_append [simp]: "held_from h (cs @ ds) = held_from (held_from h cs) ds"
  by (simp add: held_from_def)

text \<open>A trace is clean when every call that gives something back gives back what is held.\<close>

fun clean_from :: "resource list \<Rightarrow> kcall list \<Rightarrow> bool" where
  "clean_from h [] = True"
| "clean_from h (Release r # cs) = (r \<in> set h \<and> clean_from (remove1 r h) cs)"
| "clean_from h (c # cs) = clean_from (track h c) cs"

subsection \<open>The contract of loading and unloading a module\<close>

text \<open>
  \<^verbatim>\<open>load e\<close> is what the init function returns and calls when the kernel answers as \<^verbatim>\<open>e\<close> says,
  \<^verbatim>\<open>unload e\<close> the calls of the exit function after such a load. A load that fails leaves nothing
  behind, and a load that succeeds is undone by the unload.
\<close>

locale lifecycle =
  fixes load :: "'e \<Rightarrow> int \<times> kcall list"
    and unload :: "'e \<Rightarrow> kcall list"
  assumes load_fails: "fst (load e) \<noteq> 0 \<Longrightarrow> held (snd (load e)) = []"
    and load_unload: "fst (load e) = 0 \<Longrightarrow> held (snd (load e) @ unload e) = []"
begin

definition session :: "'e \<Rightarrow> kcall list" where
  "session e = (if fst (load e) = 0 then snd (load e) @ unload e else snd (load e))"

lemma held_session: "held (session e) = []"
  using load_fails [of e] load_unload [of e] by (auto simp: session_def)

lemma held_sessions: "held (concat (map session es)) = []"
  by (induction es) (simp_all add: held_session)

end

subsection \<open>System calls that may sleep\<close>

text \<open>
  A handler that waits on a queue whose condition is false does not return: it sleeps, with the
  driver's state as it was, and is run again when it is woken.
\<close>

datatype 'a syscall = Sleep | Ret 'a

subsection \<open>Memory of the user\<close>

text \<open>
  \<^verbatim>\<open>copy_from_user\<close> copies the bytes the process can supply, pads the rest of the destination with
  zero bytes, and returns how many it could not copy. \<^verbatim>\<open>user\<close> holds the readable bytes.
\<close>

definition copy_from_user :: "u8 list \<Rightarrow> nat \<Rightarrow> u8 list \<times> nat" where
  "copy_from_user user n =
     (let got = take n user in (got @ replicate (n - length got) 0, n - length got))"

lemma length_copy_from_user [simp]: "length (fst (copy_from_user user n)) = n"
  by (simp add: copy_from_user_def Let_def)

lemma copy_from_user_all: "n \<le> length user \<Longrightarrow> copy_from_user user n = (take n user, 0)"
  by (simp add: copy_from_user_def Let_def)

end
