(* ===== verification/MyMsg.thy ===== *)
theory MyMsg
  imports Kernel
begin

text \<open>
  The kernel log behind \<^verbatim>\<open>/proc/mymsg\<close> (proc_mymsg/mymsg.c, and with a buffer of one megabyte
  debug_input_emulate/mymsg.c): a ring of bytes with one write index and two read indices. The
  buffer size \<^verbatim>\<open>MYLOG_BUF_LEN\<close> is the argument \<^verbatim>\<open>N\<close> of the operations, since the two files
  differ in it.
\<close>

subsection \<open>State\<close>

record mylog = kstate +
  mylog_buf :: "u8 list"
  mylog_r :: nat
  mylog_r_for_read :: nat
  mylog_w :: nat

definition MYLOG_BUF_LEN :: nat where "MYLOG_BUF_LEN = 1024"
definition TMP_BUF_LEN :: nat where "TMP_BUF_LEN = 1024"

subsection \<open>The ring\<close>

definition is_mylog_empty :: "mylog \<Rightarrow> bool" where
  "is_mylog_empty s = (mylog_r s = mylog_w s)"

definition is_mylog_empty_for_read :: "mylog \<Rightarrow> bool" where
  "is_mylog_empty_for_read s = (mylog_r_for_read s = mylog_w s)"

definition is_mylog_full :: "nat \<Rightarrow> mylog \<Rightarrow> bool" where
  "is_mylog_full N s = ((mylog_w s + 1) mod N = mylog_r s)"

definition mylog_putc :: "nat \<Rightarrow> u8 \<Rightarrow> mylog \<Rightarrow> mylog" where
  "mylog_putc N c s =
     (let s1 = (if is_mylog_full N s
                then (let s' = s\<lparr>mylog_r := (mylog_r s + 1) mod N\<rparr>
                      in if (mylog_r_for_read s' + 1) mod N = mylog_r s'
                         then s'\<lparr>mylog_r_for_read := mylog_r s'\<rparr> else s')
                else s);
          s2 = s1\<lparr>mylog_buf := (mylog_buf s1)[mylog_w s1 := c]\<rparr>;
          s3 = s2\<lparr>mylog_w := (mylog_w s2 + 1) mod N\<rparr>
      in emit [Wake_up ''mymsg_waitq''] s3)"

definition mylog_getc :: "nat \<Rightarrow> mylog \<Rightarrow> (u8 \<times> mylog) option" where
  "mylog_getc N s =
     (if is_mylog_empty s then None
      else Some (mylog_buf s ! mylog_r s, s\<lparr>mylog_r := (mylog_r s + 1) mod N\<rparr>))"

definition mylog_getc_for_read :: "nat \<Rightarrow> mylog \<Rightarrow> (u8 \<times> mylog) option" where
  "mylog_getc_for_read N s =
     (if is_mylog_empty_for_read s then None
      else Some (mylog_buf s ! mylog_r_for_read s,
                 s\<lparr>mylog_r_for_read := (mylog_r_for_read s + 1) mod N\<rparr>))"

subsection \<open>Printing, opening and reading\<close>

text \<open>
  \<^verbatim>\<open>text\<close> is what \<^verbatim>\<open>vsnprintf\<close> produces for the format and its arguments. The C code passes
  \<^verbatim>\<open>INT_MAX\<close> as the size of \<^verbatim>\<open>tmp_buf\<close>: a text that does not fit with its final NUL runs over
  the end of the array, and the operation is then undefined (\<^verbatim>\<open>None\<close>).
\<close>

definition myprintk :: "nat \<Rightarrow> nat \<Rightarrow> u8 list \<Rightarrow> mylog \<Rightarrow> (int \<times> mylog) option" where
  "myprintk N tmp msg s =
     (if length msg < tmp then Some (int (length msg), fold (mylog_putc N) msg s) else None)"

definition mymsg_open :: "mylog \<Rightarrow> int \<times> mylog" where
  "mymsg_open s = (0, s\<lparr>mylog_r_for_read := mylog_r s\<rparr>)"

text \<open>
  The copy loop. \<^verbatim>\<open>fault i\<close> says whether \<^verbatim>\<open>__put_user\<close> of the \<^verbatim>\<open>i\<close>-th byte fails. The loop
  condition takes a byte out of the ring before it compares \<^verbatim>\<open>i\<close> with \<^verbatim>\<open>count\<close>.
\<close>

function mymsg_read_loop ::
  "nat \<Rightarrow> (nat \<Rightarrow> bool) \<Rightarrow> nat \<Rightarrow> nat \<Rightarrow> u8 list \<Rightarrow> mylog \<Rightarrow> int \<times> nat \<times> u8 list \<times> mylog" where
  "mymsg_read_loop N fault count i out s =
     (case mylog_getc_for_read N s of
        None \<Rightarrow> (0, i, out, s)
      | Some (c, s') \<Rightarrow>
          if i < count
          then (if fault i then (- EFAULT, i + 1, out, s')
                else mymsg_read_loop N fault count (i + 1) (out @ [c]) s')
          else (0, i, out, s'))"
  by pat_completeness auto
termination
  by (relation "measure (\<lambda>(N, fault, count, i, out, s). count - i)") auto

declare mymsg_read_loop.simps [simp del]

abbreviation (input) ERESTARTSYS :: int where "ERESTARTSYS \<equiv> 512"

definition mymsg_read ::
  "nat \<Rightarrow> bool \<Rightarrow> bool \<Rightarrow> (nat \<Rightarrow> bool) \<Rightarrow> nat \<Rightarrow> mylog \<Rightarrow> (int \<times> u8 list \<times> mylog) syscall" where
  "mymsg_read N nonblock sig fault count s =
     (if nonblock \<and> is_mylog_empty_for_read s then Ret (- EAGAIN, [], s)
      else if is_mylog_empty_for_read s
           then (if sig then Ret (- ERESTARTSYS, [], s) else Sleep)
           else (case mymsg_read_loop N fault count 0 [] s of
                   (err, i, out, s') \<Rightarrow> Ret (if err = 0 then int i else err, out, s')))"

subsection \<open>Loading and unloading\<close>

definition mymsg_init :: "bool \<Rightarrow> int \<times> kcall list" where
  "mymsg_init entry = (0, if entry then [Create_proc_entry ''mymsg''] else [])"

definition mymsg_exit :: "kcall list" where
  "mymsg_exit = [Remove_proc_entry ''mymsg'']"

text \<open>The copy in debug_input_emulate allocates the ring first, and frees it after the entry is gone.\<close>

definition mymsg_init_alloc :: "bool \<times> bool \<Rightarrow> int \<times> kcall list" where
  "mymsg_init_alloc e =
     (if \<not> fst e then (- EIO, [])
      else (0, Kmalloc ''mylog_buf'' (1024 * 1024)
               # (if snd e then [Create_proc_entry ''mymsg''] else [])))"

definition mymsg_exit_alloc :: "kcall list" where
  "mymsg_exit_alloc = [Remove_proc_entry ''mymsg'', Kfree ''mylog_buf'']"

interpretation mymsg_life: lifecycle mymsg_init "\<lambda>_. mymsg_exit"
  by unfold_locales (auto simp: mymsg_init_def mymsg_exit_def)

interpretation mymsg_alloc_life: lifecycle mymsg_init_alloc "\<lambda>_. mymsg_exit_alloc"
  by unfold_locales (auto simp: mymsg_init_alloc_def mymsg_exit_alloc_def)


subsection \<open>The ring as a bounded log\<close>

definition log_view :: "nat \<Rightarrow> mylog \<Rightarrow> u8 list" where
  "log_view N s = ring N (mylog_buf s) (mylog_r s) (span N (mylog_r s) (mylog_w s))"

definition unread :: "nat \<Rightarrow> mylog \<Rightarrow> u8 list" where
  "unread N s =
     ring N (mylog_buf s) (mylog_r_for_read s) (span N (mylog_r_for_read s) (mylog_w s))"

definition mylog_inv :: "nat \<Rightarrow> mylog \<Rightarrow> bool" where
  "mylog_inv N s \<longleftrightarrow>
     1 < N \<and> length (mylog_buf s) = N \<and> mylog_r s < N \<and> mylog_r_for_read s < N \<and> mylog_w s < N
     \<and> span N (mylog_r_for_read s) (mylog_w s) \<le> span N (mylog_r s) (mylog_w s)"

lemma mylog_invD:
  assumes "mylog_inv N s"
  shows "1 < N" "0 < N" "length (mylog_buf s) = N" "mylog_r s < N" "mylog_r_for_read s < N"
    "mylog_w s < N"
    "span N (mylog_r_for_read s) (mylog_w s) \<le> span N (mylog_r s) (mylog_w s)"
  using assms by (auto simp: mylog_inv_def)

lemma putc_cases:
  assumes "mylog_inv N s"
  obtains
    (room) "span N (mylog_r s) (mylog_w s) < N - 1"
      "mylog_r (mylog_putc N c s) = mylog_r s"
      "mylog_r_for_read (mylog_putc N c s) = mylog_r_for_read s"
  | (full_behind) "span N (mylog_r s) (mylog_w s) = N - 1"
      "mylog_r (mylog_putc N c s) = (mylog_r s + 1) mod N"
      "mylog_r_for_read s = mylog_r s"
      "mylog_r_for_read (mylog_putc N c s) = (mylog_r_for_read s + 1) mod N"
  | (full_ahead) "span N (mylog_r s) (mylog_w s) = N - 1"
      "mylog_r (mylog_putc N c s) = (mylog_r s + 1) mod N"
      "span N (mylog_r_for_read s) (mylog_w s) < N - 1"
      "mylog_r_for_read (mylog_putc N c s) = mylog_r_for_read s"
proof -
  note inv = mylog_invD [OF assms]
  have full: "is_mylog_full N s \<longleftrightarrow> span N (mylog_r s) (mylog_w s) = N - 1"
    using inv by (simp add: is_mylog_full_def span_full_iff)
  have succ_eq: "(mylog_r_for_read s + 1) mod N = (mylog_r s + 1) mod N
      \<longleftrightarrow> mylog_r_for_read s = mylog_r s"
    using inv by (auto simp: succ_mod_cases split: if_splits)
  have span_eq: "mylog_r_for_read s = mylog_r s" 
    if "span N (mylog_r_for_read s) (mylog_w s) = N - 1" "span N (mylog_r s) (mylog_w s) = N - 1"
    using that inv by (auto simp: span_cases split: if_splits)
  show thesis
  proof (cases "is_mylog_full N s")
    case False
    then show ?thesis
      using full span_less [OF inv(2), of "mylog_r s" "mylog_w s"]
      by (intro room) (auto simp: mylog_putc_def Let_def emit_def)
  next
    case True
    show ?thesis
    proof (cases "mylog_r_for_read s = mylog_r s")
      case behind: True
      then show ?thesis using True full succ_eq
        by (intro full_behind) (auto simp: mylog_putc_def Let_def emit_def)
    next
      case False
      have "span N (mylog_r_for_read s) (mylog_w s) < N - 1"
        using False True full span_eq span_less [OF inv(2), of "mylog_r_for_read s" "mylog_w s"]
        by fastforce
      with False show ?thesis using True full succ_eq
        by (intro full_ahead) (auto simp: mylog_putc_def Let_def emit_def)
    qed
  qed
qed

lemma putc_fields [simp]:
  "mylog_buf (mylog_putc N c s) = (mylog_buf s)[mylog_w s := c]"
  "mylog_w (mylog_putc N c s) = (mylog_w s + 1) mod N"
  by (auto simp: mylog_putc_def Let_def emit_def)

lemma putc_span:
  assumes "mylog_inv N s"
  shows "span N (mylog_r (mylog_putc N c s)) (mylog_w (mylog_putc N c s))
           = min (N - 1) (Suc (span N (mylog_r s) (mylog_w s)))"
    and "span N (mylog_r_for_read (mylog_putc N c s)) (mylog_w (mylog_putc N c s))
           = min (N - 1) (Suc (span N (mylog_r_for_read s) (mylog_w s)))"
  using mylog_invD [OF assms]
  by (cases rule: putc_cases [OF assms, of c]; auto simp: span_succ_to span_succ_both)+

lemma putc_inv:
  assumes "mylog_inv N s"
  shows "mylog_inv N (mylog_putc N c s)"
  unfolding mylog_inv_def [of N "mylog_putc N c s"]
  using mylog_invD [OF assms] putc_span [OF assms, of c]
  by (cases rule: putc_cases [OF assms, of c]; auto)

text \<open>Both indices see the ring grow by one at the far end, or slide by one when it is full.\<close>

lemma ring_slide:
  assumes "f < N" "t < N" "length b = N" "span N f t = N - Suc 0" "Suc 0 < N"
  shows "ring N (b[t := c]) (Suc f mod N) (N - Suc 0) = tl (ring N b f (N - Suc 0)) @ [c]"
proof -
  obtain m where m: "N - Suc 0 = Suc m" using assms(5) by (cases "N - Suc 0") auto
  have "ring N (b[t := c]) f (Suc (Suc m)) = ring N b f (Suc m) @ [c]"
    using ring_push [of f N t b c] assms unfolding m by simp
  then have "tl (ring N (b[t := c]) f (Suc (Suc m))) = tl (ring N b f (Suc m)) @ [c]"
    using assms(1) by (simp only: ring_Cons) simp
  then show ?thesis
    unfolding m using ring_Cons [OF assms(1), of "b[t := c]" "Suc m"] by simp
qed

lemma putc_log_view:
  assumes "mylog_inv N s"
  shows "log_view N (mylog_putc N c s) = keep (N - 1) (log_view N s @ [c])"
  using mylog_invD [OF assms]
  by (cases rule: putc_cases [OF assms, of c])
     (simp_all add: log_view_def span_succ_to span_succ_both ring_push ring_slide keep_full)

lemma putc_unread:
  assumes "mylog_inv N s"
  shows "unread N (mylog_putc N c s) = keep (N - 1) (unread N s @ [c])"
  using mylog_invD [OF assms]
  by (cases rule: putc_cases [OF assms, of c])
     (simp_all add: unread_def span_succ_to span_succ_both ring_push ring_slide keep_full)

lemma view_lengths:
  assumes "mylog_inv N s"
  shows "length (log_view N s) \<le> N - 1" and "length (unread N s) \<le> N - 1"
  using mylog_invD [OF assms] span_less [of N "mylog_r s" "mylog_w s"]
    span_less [of N "mylog_r_for_read s" "mylog_w s"]
  by (simp_all add: log_view_def unread_def)

interpretation mylog: bounded_log "mylog_putc N" "log_view N" "mylog_inv N" "N - 1" for N
  by unfold_locales (fact putc_inv putc_log_view view_lengths)+

interpretation reader: bounded_log "mylog_putc N" "unread N" "mylog_inv N" "N - 1" for N
  by unfold_locales (fact putc_inv putc_unread view_lengths)+

subsection \<open>Reading\<close>

lemma unread_empty_iff:
  "mylog_inv N s \<Longrightarrow> is_mylog_empty_for_read s \<longleftrightarrow> unread N s = []"
  using span_zero_iff [of "mylog_r_for_read s" N "mylog_w s"]
  by (auto simp: is_mylog_empty_for_read_def unread_def mylog_invD ring_def)

lemma getc_for_read_view:
  assumes "mylog_inv N s"
  shows "case mylog_getc_for_read N s of
           None \<Rightarrow> unread N s = []
         | Some (c, s') \<Rightarrow> unread N s = c # unread N s' \<and> mylog_inv N s'
             \<and> log_view N s' = log_view N s \<and> kt s' = kt s"
proof (cases "is_mylog_empty_for_read s")
  case True
  then show ?thesis
    using unread_empty_iff [OF assms] by (simp add: mylog_getc_for_read_def)
next
  case False
  note inv = mylog_invD [OF assms]
  let ?f = "mylog_r_for_read s" and ?t = "mylog_w s"
  from False have "?f \<noteq> ?t" by (simp add: is_mylog_empty_for_read_def)
  with inv have s: "span N ?f ?t = Suc (span N (Suc ?f mod N) ?t)"
    using span_succ_from [of ?f N ?t] by simp
  with inv False show ?thesis
    by (auto simp: mylog_getc_for_read_def unread_def log_view_def mylog_inv_def ring_Cons)
qed

lemma read_loop_result:
  assumes "mylog_inv N s" "\<And>k. \<not> fault k"
  shows "\<exists>s'. mymsg_read_loop N fault count i out s
            = (0, i + min (count - i) (length (unread N s)),
               out @ take (count - i) (unread N s), s')
          \<and> mylog_inv N s' \<and> unread N s' = drop (Suc (count - i)) (unread N s)
          \<and> log_view N s' = log_view N s"
  using assms
proof (induction N fault count i out s rule: mymsg_read_loop.induct)
  case (1 N fault count i out s)
  note view = getc_for_read_view [OF "1.prems"(1)]
  show ?case
  proof (cases "mylog_getc_for_read N s")
    case None
    with view have "unread N s = []" by simp
    with None "1.prems"(1) show ?thesis by (subst mymsg_read_loop.simps) simp
  next
    case (Some p)
    obtain c s1 where p: "p = (c, s1)" by (cases p)
    with view Some have v: "unread N s = c # unread N s1" "mylog_inv N s1"
      "log_view N s1 = log_view N s" by simp_all
    show ?thesis
    proof (cases "i < count")
      case False
      with v Some p show ?thesis by (subst mymsg_read_loop.simps) simp
    next
      case True
      then obtain d where d: "count - i = Suc d" "count - Suc i = d"
        by (metis Suc_diff_Suc)
      have "mymsg_read_loop N fault count i out s
              = mymsg_read_loop N fault count (i + 1) (out @ [c]) s1"
        using True Some p "1.prems"(2) by (subst mymsg_read_loop.simps) simp
      then show ?thesis
        using "1.IH" [OF Some p [symmetric] True "1.prems"(2) v(2) "1.prems"(2)] v d by (simp add: drop_Suc)
    qed
  qed
qed

text \<open>\<^verbatim>\<open>mylog_getc\<close> takes the oldest byte of the log itself; nothing in the driver calls it.\<close>

lemma mylog_getc_view:
  assumes "mylog_inv N s" "mylog_getc N s = Some (c, s')"
  shows "log_view N s = c # log_view N s'"
proof -
  note inv = mylog_invD [OF assms(1)]
  from assms(2) have neq: "mylog_r s \<noteq> mylog_w s" and c: "c = mylog_buf s ! mylog_r s"
    and s': "s' = s\<lparr>mylog_r := Suc (mylog_r s) mod N\<rparr>"
    by (auto simp: mylog_getc_def is_mylog_empty_def split: if_splits)
  with inv have "span N (mylog_r s) (mylog_w s) = Suc (span N (Suc (mylog_r s) mod N) (mylog_w s))"
    using span_succ_from [of "mylog_r s" N "mylog_w s"] by simp
  with inv s' c show ?thesis by (simp add: log_view_def ring_Cons)
qed

lemma read_loop_inv:
  assumes "mylog_inv N s" "mymsg_read_loop N fault count i out s = (err, j, out', s')"
  shows "mylog_inv N s' \<and> log_view N s' = log_view N s"
  using assms
proof (induction N fault count i out s rule: mymsg_read_loop.induct)
  case (1 N fault count i out s)
  note view = getc_for_read_view [OF "1.prems"(1)]
  show ?case
  proof (cases "mylog_getc_for_read N s")
    case None
    then show ?thesis using "1.prems" by (subst (asm) mymsg_read_loop.simps) simp
  next
    case (Some p)
    obtain c s1 where p: "p = (c, s1)" by (cases p)
    with view Some have v: "mylog_inv N s1" "log_view N s1 = log_view N s" by simp_all
    then show ?thesis
      using "1.prems"(2) Some p "1.IH" [OF Some p [symmetric]]
      by (subst (asm) mymsg_read_loop.simps) (auto split: if_splits)
  qed
qed

subsection \<open>Runs of the module\<close>

datatype mymsg_event =
    Printk "u8 list"
  | Open
  | Read bool bool "nat \<Rightarrow> bool" nat

definition mylog_start :: "nat \<Rightarrow> mylog" where
  "mylog_start N = \<lparr>kt = [], mylog_buf = replicate N 0, mylog_r = 0, mylog_r_for_read = 0, mylog_w = 0\<rparr>"

fun mymsg_step :: "nat \<Rightarrow> nat \<Rightarrow> mymsg_event \<Rightarrow> mylog \<Rightarrow> mylog option" where
  "mymsg_step N tmp (Printk msg) s = map_option snd (myprintk N tmp msg s)"
| "mymsg_step N tmp Open s = Some (snd (mymsg_open s))"
| "mymsg_step N tmp (Read nonblock sig fault count) s =
     (case mymsg_read N nonblock sig fault count s of
        Sleep \<Rightarrow> Some s | Ret (_, _, s') \<Rightarrow> Some s')"

fun mymsg_run :: "nat \<Rightarrow> nat \<Rightarrow> mymsg_event list \<Rightarrow> mylog \<Rightarrow> mylog option" where
  "mymsg_run N tmp [] s = Some s"
| "mymsg_run N tmp (e # es) s = Option.bind (mymsg_step N tmp e s) (mymsg_run N tmp es)"

fun printed :: "mymsg_event list \<Rightarrow> u8 list" where
  "printed [] = []"
| "printed (Printk msg # es) = msg @ printed es"
| "printed (_ # es) = printed es"

lemma mylog_start_inv: "1 < N \<Longrightarrow> mylog_inv N (mylog_start N) \<and> log_view N (mylog_start N) = []"
  by (simp add: mylog_inv_def mylog_start_def log_view_def span_def)

lemma open_view:
  assumes "mylog_inv N s"
  shows "mylog_inv N (snd (mymsg_open s))"
    and "log_view N (snd (mymsg_open s)) = log_view N s"
    and "unread N (snd (mymsg_open s)) = log_view N s"
  using assms by (auto simp: mymsg_open_def mylog_inv_def log_view_def unread_def)

lemma mymsg_read_inv:
  assumes "mylog_inv N s" "mymsg_read N nonblock sig fault count s = Ret (r, out, s')"
  shows "mylog_inv N s' \<and> log_view N s' = log_view N s"
  using assms read_loop_inv [OF assms(1), of fault count 0 "[]"]
  by (auto simp: mymsg_read_def split: if_splits prod.splits)

lemma mymsg_step_view:
  assumes "mylog_inv N s" "mymsg_step N tmp e s = Some s'"
  shows "mylog_inv N s' \<and> log_view N s' = keep (N - 1) (log_view N s @ printed [e])"
proof (cases e)
  case (Printk msg)
  with assms(2) have "s' = fold (mylog_putc N) msg s"
    by (auto simp: myprintk_def split: if_splits)
  then show ?thesis
    using Printk mylog.inv_puts [OF assms(1)] mylog.view_puts [OF assms(1)] by simp
next
  case Open
  then show ?thesis
    using assms open_view [OF assms(1)] view_lengths [OF assms(1)] by auto
next
  case (Read nonblock sig fault count)
  then show ?thesis
    using assms mymsg_read_inv [OF assms(1), of nonblock sig fault count] view_lengths [OF assms(1)]
    by (auto split: syscall.splits)
qed

lemma printed_Cons: "printed (e # es) = printed [e] @ printed es"
  by (cases e) simp_all

lemma mymsg_run_view:
  assumes "mylog_inv N s" "mymsg_run N tmp es s = Some s'"
  shows "mylog_inv N s' \<and> log_view N s' = keep (N - 1) (log_view N s @ printed es)"
  using assms
proof (induction es arbitrary: s)
  case Nil
  then show ?case using view_lengths by auto
next
  case (Cons e es)
  from Cons.prems(2) obtain s1 where s1: "mymsg_step N tmp e s = Some s1"
    and rest: "mymsg_run N tmp es s1 = Some s'"
    by (cases "mymsg_step N tmp e s") auto
  note step = mymsg_step_view [OF Cons.prems(1) s1]
  with Cons.IH [OF _ rest] show ?case
    by (simp add: keep_append_keep printed_Cons [of e es])
qed

lemma unread_suffix:
  assumes "mylog_inv N s"
  shows "\<exists>old. log_view N s = old @ unread N s"
proof -
  note inv = mylog_invD [OF assms]
  let ?r = "mylog_r s" and ?f = "mylog_r_for_read s" and ?w = "mylog_w s"
  define d where "d = span N ?r ?w - span N ?f ?w"
  have f: "(?r + d) mod N = ?f"
    using inv unfolding d_def by (auto simp: span_cases mod_if split: if_splits)
  have "map (\<lambda>k. mylog_buf s ! ((?r + k) mod N)) [d..<d + span N ?f ?w]
          = map (\<lambda>k. mylog_buf s ! ((?f + k) mod N)) [0..<span N ?f ?w]"
    by (rule nth_equalityI) (simp_all add: f [symmetric] mod_simps add.assoc)
  then have "log_view N s = ring N (mylog_buf s) ?r d @ unread N s"
    using inv(7) upt_add_eq_append [of 0 d "span N ?f ?w"]
    by (simp add: log_view_def unread_def ring_def d_def)
  then show ?thesis ..
qed

lemma read_not_empty:
  assumes "mylog_inv N s" "unread N s \<noteq> []" "\<And>k. \<not> fault k"
  shows "\<exists>s'. mymsg_read N nonblock sig fault count s
            = Ret (int (min count (length (unread N s))), take count (unread N s), s')
          \<and> mylog_inv N s' \<and> unread N s' = drop (Suc count) (unread N s)"
  using read_loop_result [where fault = fault and count = count and i = 0 and out = "[]", OF assms(1,3)]
    unread_empty_iff [OF assms(1)] assms(2)
  by (auto simp: mymsg_read_def)

subsection \<open>Properties\<close>

text \<open>
  C28. Putting one byte keeps the ring well formed, and both what is in the log and what the reader
  has not seen yet become the last \<^verbatim>\<open>N - 1\<close> bytes of the old contents followed by the new byte:
  nothing is lost before the ring is full, and then only the oldest byte, whether or not the reader
  is on it.
\<close>

theorem mylog_putc_refines:
  assumes "mylog_inv N s"
  shows "mylog_inv N (mylog_putc N c s)
       \<and> log_view N (mylog_putc N c s) = keep (N - 1) (log_view N s @ [c])
       \<and> unread N (mylog_putc N c s) = keep (N - 1) (unread N s @ [c])"
  using mylog.inv_put [OF assms] mylog.view_put [OF assms] reader.view_put [OF assms] by simp

theorem mylog_putc_refines_witness:
  "log_view 3 (mylog_putc 3 7 (mylog_start 3)) = [7]"
  using mylog_putc_refines [OF conjunct1 [OF mylog_start_inv], of 3 7]
  by (simp add: mylog_start_inv)

text \<open>
  C29. Whatever sequence of prints, opens and reads the module has served since it was loaded, the
  log holds exactly the last \<^verbatim>\<open>N - 1\<close> bytes of everything that was printed, in order, and what the
  reader has not seen yet is the end of that.
\<close>

theorem mymsg_history:
  assumes "1 < N" and "mymsg_run N tmp es (mylog_start N) = Some s"
  shows "log_view N s = keep (N - 1) (printed es)
       \<and> (\<exists>old. log_view N s = old @ unread N s)"
  using mymsg_run_view [OF _ assms(2)] mylog_start_inv [OF assms(1)] unread_suffix [of N s] by auto

theorem mymsg_history_witness:
  "\<exists>s. mymsg_run 3 10 [Printk [1, 2], Open, Printk [3]] (mylog_start 3) = Some s
     \<and> log_view 3 s = [2, 3]"
proof -
  obtain s where s: "mymsg_run 3 10 [Printk [1, 2], Open, Printk [3]] (mylog_start 3) = Some s"
    by (simp add: myprintk_def)
  have "(1 :: nat) < 3" by simp
  from mymsg_history [OF this s] have "log_view 3 s = [2, 3]"
    by (simp add: keep_def)
  with s show ?thesis by blast
qed

text \<open>
  Opening the log and reading it with room for \<^verbatim>\<open>count\<close> bytes returns the first \<^verbatim>\<open>count\<close> of the
  retained bytes, and the number of them. The byte that follows them is lost to the reader: the
  loop takes it out of the ring before it finds that there is no room for it, so the next read
  starts one byte too far.
\<close>

theorem mymsg_open_read:
  assumes "1 < N" and "mymsg_run N tmp es (mylog_start N) = Some s" and "printed es \<noteq> []"
  shows "\<exists>s'. mymsg_read N nonblock sig (\<lambda>_. False) count (snd (mymsg_open s))
            = Ret (int (min count (length (keep (N - 1) (printed es)))),
                   take count (keep (N - 1) (printed es)), s')
          \<and> unread N s' = drop (count + 1) (keep (N - 1) (printed es))"
proof -
  have view: "mylog_inv N s" "log_view N s = keep (N - 1) (printed es)"
    using mymsg_run_view [OF _ assms(2)] mylog_start_inv [OF assms(1)] by auto
  note opened = open_view [OF view(1)]
  have "keep (N - 1) (printed es) \<noteq> []"
    using assms(1,3) by (simp add: keep_Nil_iff)
  with read_not_empty [OF opened(1), of "\<lambda>_. False" nonblock sig count] opened(3) view(2) show ?thesis
    by auto
qed

theorem mymsg_open_read_witness:
  "\<exists>s s'. mymsg_run 4 10 [Printk [1, 2, 3]] (mylog_start 4) = Some s
     \<and> mymsg_read 4 False False (\<lambda>_. False) 1 (snd (mymsg_open s)) = Ret (1, [1], s')
     \<and> unread 4 s' = [3]"
proof -
  obtain s where s: "mymsg_run 4 10 [Printk [1, 2, 3]] (mylog_start 4) = Some s"
    by (simp add: myprintk_def)
  have "(1 :: nat) < 4" "printed [Printk [1, 2, 3]] \<noteq> []" by simp_all
  from mymsg_open_read [OF this(1) s this(2), of False False 1] s show ?thesis
    by (auto simp: keep_def)
qed

end
