(* ===== verification/Replay.thy ===== *)
theory Replay
  imports MyMsg
begin

text \<open>
  The input recorder and player of debug_input_emulate/s3c_ts.c: \<^verbatim>\<open>write_input_event_to_file\<close>
  logs one event per line through \<^verbatim>\<open>myprintk\<close>; \<^verbatim>\<open>replay_write\<close> fills \<^verbatim>\<open>replay_buf\<close> from user
  space, and \<^verbatim>\<open>input_replay_timer_func\<close> reads lines out of it and reports them as input events,
  one group of equal time per timer expiry. \<^verbatim>\<open>L\<close> is the buffer's size \<^verbatim>\<open>MYLOG_BUF_LEN\<close> of that
  file. Accesses outside an array are undefined and make the operation \<^verbatim>\<open>None\<close>.
\<close>

subsection \<open>State\<close>

record replay = kstate +
  replay_buf :: "u8 list"
  replay_r :: nat
  replay_w :: nat
  pre_time :: u32
  pre_type :: u32
  pre_code :: u32
  pre_val :: int

definition REPLAY_BUF_LEN :: nat where "REPLAY_BUF_LEN = 1024 * 1024"

subsection \<open>Filling the buffer\<close>

definition store_at :: "nat \<Rightarrow> u8 list \<Rightarrow> u8 list \<Rightarrow> u8 list option" where
  "store_at off bs dst =
     (if off + length bs \<le> length dst
      then Some (take off dst @ bs @ drop (off + length bs) dst) else None)"

text \<open>The sum of the guard is an unsigned 32-bit sum, as \<^verbatim>\<open>size\<close> is a \<^verbatim>\<open>size_t\<close>.\<close>

definition replay_write :: "nat \<Rightarrow> u8 list \<Rightarrow> u32 \<Rightarrow> replay \<Rightarrow> (int \<times> replay) option" where
  "replay_write L user sz s =
     (if L \<le> unat (of_nat (replay_w s) + sz) then Some (- EIO, s)
      else (case copy_from_user user (unat sz) of (bs, err) \<Rightarrow>
        (case store_at (replay_w s) bs (replay_buf s) of
           None \<Rightarrow> None
         | Some b \<Rightarrow>
             if err \<noteq> 0 then Some (- EIO, s\<lparr>replay_buf := b\<rparr>)
             else Some (int (unat sz), s\<lparr>replay_buf := b, replay_w := replay_w s + unat sz\<rparr>))))"

subsection \<open>Reading a line\<close>

definition is_blank :: "u8 \<Rightarrow> bool" where
  "is_blank c \<longleftrightarrow> c = 32 \<or> c = 10 \<or> c = 13 \<or> c = 9"

definition is_eol :: "u8 \<Rightarrow> bool" where
  "is_eol c \<longleftrightarrow> c = 10 \<or> c = 13"

function skip_blanks :: "u8 list \<Rightarrow> nat \<Rightarrow> nat \<Rightarrow> nat" where
  "skip_blanks b w r = (if r \<le> w then (if is_blank (b ! r) then skip_blanks b w (r + 1) else r) else r)"
  by pat_completeness auto
termination by (relation "measure (\<lambda>(b, w, r). Suc w - r)") auto

function take_line :: "u8 list \<Rightarrow> nat \<Rightarrow> nat \<Rightarrow> u8 list \<Rightarrow> nat \<times> u8 list" where
  "take_line b w r line =
     (if r \<le> w then (if is_eol (b ! r) then (r, line) else take_line b w (r + 1) (line @ [b ! r]))
      else (r, line))"
  by pat_completeness auto
termination by (relation "measure (\<lambda>(b, w, r, line). Suc w - r)") auto

declare skip_blanks.simps [simp del] take_line.simps [simp del]

text \<open>\<^verbatim>\<open>line\<close> is an array of 100 bytes in the caller, and the terminating NUL is stored in it too.\<close>

definition LINE_LEN :: nat where "LINE_LEN = 100"

definition replay_get_line :: "replay \<Rightarrow> (nat \<times> u8 list \<times> replay) option" where
  "replay_get_line s =
     (case take_line (replay_buf s) (replay_w s) (skip_blanks (replay_buf s) (replay_w s) (replay_r s)) []
        of (r, line) \<Rightarrow>
          if length line < LINE_LEN then Some (length line, line, s\<lparr>replay_r := r\<rparr>) else None)"

subsection \<open>Printing and scanning an event\<close>

text \<open>The two formats the driver uses, as the C library defines their conversions.\<close>

definition hex_digit :: "nat \<Rightarrow> u8" where
  "hex_digit n = (if n < 10 then of_nat (48 + n) else of_nat (87 + n))"

definition fmt_08x :: "u32 \<Rightarrow> u8 list" where
  "fmt_08x x = map (\<lambda>i. hex_digit (unat x div 16 ^ i mod 16)) [7, 6, 5, 4, 3, 2, 1, 0]"

fun fmt_nat :: "nat \<Rightarrow> u8 list" where
  "fmt_nat n = (if n < 10 then [of_nat (48 + n)] else fmt_nat (n div 10) @ [of_nat (48 + n mod 10)])"

declare fmt_nat.simps [simp del]

definition fmt_d :: "int \<Rightarrow> u8 list" where
  "fmt_d v = (if v < 0 then 45 # fmt_nat (nat (- v)) else fmt_nat (nat v))"

text \<open>\<^verbatim>\<open>"0x%08x 0x%08x 0x%08x %d\n"\<close>\<close>

definition event_line :: "u32 \<Rightarrow> u32 \<Rightarrow> u32 \<Rightarrow> int \<Rightarrow> u8 list" where
  "event_line time type code val =
     [48, 120] @ fmt_08x time @ [32, 48, 120] @ fmt_08x type @ [32, 48, 120] @ fmt_08x code
     @ [32] @ fmt_d val @ [10]"

definition write_input_event_to_file ::
  "nat \<Rightarrow> nat \<Rightarrow> u32 \<Rightarrow> u32 \<Rightarrow> u32 \<Rightarrow> int \<Rightarrow> mylog \<Rightarrow> mylog option" where
  "write_input_event_to_file N tmp time type code val m =
     map_option snd (myprintk N tmp (event_line time type code val) m)"

definition hex_value :: "u8 \<Rightarrow> nat option" where
  "hex_value c =
     (if 48 \<le> c \<and> c \<le> 57 then Some (unat c - 48)
      else if 97 \<le> c \<and> c \<le> 102 then Some (unat c - 87)
      else if 65 \<le> c \<and> c \<le> 70 then Some (unat c - 55) else None)"

definition dec_value :: "u8 \<Rightarrow> nat option" where
  "dec_value c = (if 48 \<le> c \<and> c \<le> 57 then Some (unat c - 48) else None)"

text \<open>Digits of a base are read as long as there are any.\<close>

fun scan_digits :: "(u8 \<Rightarrow> nat option) \<Rightarrow> nat \<Rightarrow> nat \<Rightarrow> u8 list \<Rightarrow> nat \<times> u8 list" where
  "scan_digits dv base acc [] = (acc, [])"
| "scan_digits dv base acc (c # cs) =
     (case dv c of None \<Rightarrow> (acc, c # cs) | Some d \<Rightarrow> scan_digits dv base (acc * base + d) cs)"

text \<open>\<^verbatim>\<open>%x\<close>: blanks, an optional \<^verbatim>\<open>0x\<close>, digits; no conversion when there is no digit.\<close>

definition scan_x :: "u8 list \<Rightarrow> (u32 \<times> u8 list) option" where
  "scan_x cs =
     (case dropWhile is_blank cs of
        [] \<Rightarrow> None
      | c # rest \<Rightarrow>
          if hex_value c = None then None
          else (let body = (if c = 48 \<and> take 1 rest = [120] then tl rest else c # rest)
                in case scan_digits hex_value 16 0 body of (n, r) \<Rightarrow> Some (of_nat n, r)))"

definition scan_d :: "u8 list \<Rightarrow> (int \<times> u8 list) option" where
  "scan_d cs =
     (case dropWhile is_blank cs of
        [] \<Rightarrow> None
      | c # rest \<Rightarrow>
          (let (neg, body) = (if c = 45 then (True, rest) else (False, c # rest))
           in if body = [] \<or> dec_value (hd body) = None then None
              else (case scan_digits dec_value 10 0 body of
                      (n, r) \<Rightarrow> Some (sint (if neg then - of_nat n else of_nat n :: u32), r))))"

text \<open>\<^verbatim>\<open>sscanf (line, "%x %x %x %d", ...)\<close> into four variables that are zero before.\<close>

definition scan_event :: "u8 list \<Rightarrow> u32 \<times> u32 \<times> u32 \<times> int" where
  "scan_event line =
     (case scan_x line of None \<Rightarrow> (0, 0, 0, 0) | Some (time, l1) \<Rightarrow>
      (case scan_x l1 of None \<Rightarrow> (time, 0, 0, 0) | Some (type, l2) \<Rightarrow>
       (case scan_x l2 of None \<Rightarrow> (time, type, 0, 0) | Some (code, l3) \<Rightarrow>
        (case scan_d l3 of None \<Rightarrow> (time, type, code, 0) | Some (val, l4) \<Rightarrow>
           (time, type, code, val)))))"

subsection \<open>Replaying\<close>

definition report :: "u32 \<Rightarrow> u32 \<Rightarrow> int \<Rightarrow> kcall" where
  "report type code val = Input_event ''s3c_ts_dev'' (unat type) (unat code) val"

lemma skip_blanks_bounds: "r \<le> skip_blanks b w r"
  by (induction b w r rule: skip_blanks.induct) (subst skip_blanks.simps, auto)

lemma take_line_bounds:
  assumes "take_line b w r line = (r', line')"
  shows "r \<le> r' \<and> length line' = length line + (r' - r) \<and> (r' \<noteq> r \<longrightarrow> r \<le> w \<and> r' \<le> Suc w)"
  using assms
proof (induction b w r line rule: take_line.induct)
  case (1 b w r line)
  show ?case
  proof (cases "r \<le> w \<and> \<not> is_eol (b ! r)")
    case True
    then have "take_line b w (r + 1) (line @ [b ! r]) = (r', line')"
      using "1.prems" by (subst (asm) take_line.simps) simp
    with "1.IH" True show ?thesis by fastforce
  next
    case False
    then have "r' = r \<and> line' = line"
      using "1.prems" by (subst (asm) take_line.simps) (auto split: if_splits)
    then show ?thesis by simp
  qed
qed

lemma get_line_progress:
  assumes "replay_get_line s = Some (n, line, s')" "n \<noteq> 0"
  shows "replay_r s < replay_r s' \<and> replay_r s \<le> replay_w s \<and> replay_r s' \<le> Suc (replay_w s)
       \<and> replay_w s' = replay_w s"
proof -
  let ?k = "skip_blanks (replay_buf s) (replay_w s) (replay_r s)"
  obtain r where t: "take_line (replay_buf s) (replay_w s) ?k [] = (r, line)"
    and s': "s' = s\<lparr>replay_r := r\<rparr>" and n: "n = length line"
    using assms(1) by (auto simp: replay_get_line_def split: prod.splits if_splits)
  from take_line_bounds [OF t] n assms(2) have "?k < r \<and> ?k \<le> replay_w s \<and> r \<le> Suc (replay_w s)"
    by auto
  with skip_blanks_bounds [of "replay_r s" "replay_buf s" "replay_w s"] s' show ?thesis
    by auto
qed

function replay_loop :: "replay \<Rightarrow> replay option" where
  "replay_loop s =
     (case replay_get_line s of
        None \<Rightarrow> None
      | Some (n, line, s1) \<Rightarrow>
          if n = 0
          then Some (emit [Del_timer ''replay_timer'']
                 (s1\<lparr>pre_time := 0, pre_type := 0, pre_code := 0, pre_val := 0,
                     replay_r := 0, replay_w := 0\<rparr>))
          else (case scan_event line of (time, type, code, val) \<Rightarrow>
            if time = 0 \<and> type = 0 \<and> code = 0 \<and> val = 0 then replay_loop s1
            else if pre_time s1 = 0 \<or> time = pre_time s1
            then replay_loop
                   ((emit [report type code val] s1)
                      \<lparr>pre_time := (if pre_time s1 = 0 then time else pre_time s1)\<rparr>)
            else Some ((emit [Mod_timer ''replay_timer'' (time - pre_time s1)] s1)
                         \<lparr>pre_time := time, pre_type := type, pre_code := code, pre_val := val\<rparr>)))"
  by pat_completeness auto
termination
  by (relation "measure (\<lambda>s. Suc (replay_w s) - replay_r s)")
     (auto dest!: get_line_progress simp: emit_def)

declare replay_loop.simps [simp del]

definition input_replay_timer_func :: "replay \<Rightarrow> replay option" where
  "input_replay_timer_func s =
     replay_loop (if pre_time s \<noteq> 0 then emit [report (pre_type s) (pre_code s) (pre_val s)] s else s)"

text \<open>
  \<^verbatim>\<open>replay_ioctl\<close>: command 0 starts the player, command 1 puts a tag of at most 99 bytes into the
  log. The player and the log are two modules, so both states are passed.
\<close>

definition INPUT_REPLAY :: u32 where "INPUT_REPLAY = 0"
definition INPUT_TAG :: u32 where "INPUT_TAG = 1"

definition c_string :: "u8 list \<Rightarrow> u8 list" where
  "c_string bs = takeWhile (\<lambda>c. c \<noteq> 0) bs"

definition replay_ioctl ::
  "nat \<Rightarrow> nat \<Rightarrow> u32 \<Rightarrow> u8 list \<Rightarrow> replay \<times> mylog \<Rightarrow> (int \<times> replay \<times> mylog) option" where
  "replay_ioctl N tmp cmd user sm =
     (case sm of (s, m) \<Rightarrow>
        if cmd = INPUT_REPLAY then Some (0, emit [Acquire (Timer ''replay_timer'') 1] s, m)
        else if cmd = INPUT_TAG
        then (case myprintk N tmp (c_string ((fst (copy_from_user user 100))[99 := 0]) @ [10]) m of
                None \<Rightarrow> None | Some (_, m') \<Rightarrow> Some (0, s, m'))
        else Some (0, s, m))"

subsection \<open>Writing stays inside the buffer\<close>

definition replay_inv :: "nat \<Rightarrow> replay \<Rightarrow> bool" where
  "replay_inv L s \<longleftrightarrow> 0 < L \<and> L < 2 ^ 31 \<and> length (replay_buf s) = L \<and> replay_w s < L"

lemma copy_from_user_fault: "length user < n \<Longrightarrow> snd (copy_from_user user n) \<noteq> 0"
  by (simp add: copy_from_user_def Let_def)

lemma take_store_at: "store_at off bs dst = Some b \<Longrightarrow> take (off + length bs) b = take off dst @ bs"
  by (auto simp: store_at_def split: if_splits)

lemma length_store_at: "store_at off bs dst = Some b \<Longrightarrow> length b = length dst"
  by (auto simp: store_at_def split: if_splits)

lemma guard_sum:
  assumes "replay_inv L s" "unat sz < 2 ^ 31"
  shows "unat (of_nat (replay_w s) + sz :: u32) = replay_w s + unat sz"
proof -
  have w: "unat (of_nat (replay_w s) :: u32) = replay_w s"
    using assms(1) by (simp add: replay_inv_def unat_of_nat)
  have "replay_w s + unat sz < 2 ^ 32"
    using assms by (simp add: replay_inv_def)
  then show ?thesis using w by (simp add: unat_word_ariths)
qed

subsection \<open>What the buffer says\<close>

type_synonym event = "u32 \<times> u32 \<times> u32 \<times> int"

definition no_event :: event where "no_event = (0, 0, 0, 0)"

function replay_events :: "replay \<Rightarrow> event list option" where
  "replay_events s =
     (case replay_get_line s of
        None \<Rightarrow> None
      | Some (n, line, s1) \<Rightarrow>
          if n = 0 then Some []
          else map_option (\<lambda>es. if scan_event line = no_event then es else scan_event line # es)
                 (replay_events s1))"
  by pat_completeness auto
termination
  by (relation "measure (\<lambda>s. Suc (replay_w s) - replay_r s)")
     (auto dest!: get_line_progress)

declare replay_events.simps [simp del]

text \<open>The events of one timer expiry: all that carry the time of the first.\<close>

fun batch :: "u32 \<Rightarrow> event list \<Rightarrow> event list \<times> event list" where
  "batch p [] = ([], [])"
| "batch p (e # es) =
     (if p = 0 \<or> fst e = p
      then (case batch (if p = 0 then fst e else p) es of (b, r) \<Rightarrow> (e # b, r))
      else ([], e # es))"

lemma batch_append: "batch p es = (b, r) \<Longrightarrow> es = b @ r"
  by (induction p es arbitrary: b r rule: batch.induct) (auto split: if_splits prod.splits)

definition report_event :: "event \<Rightarrow> kcall" where
  "report_event e = (case e of (time, type, code, val) \<Rightarrow> report type code val)"

lemma get_line_frame:
  assumes "replay_get_line s = Some (n, line, s')"
  shows "pre_time s' = pre_time s \<and> kt s' = kt s \<and> replay_buf s' = replay_buf s
    \<and> replay_w s' = replay_w s \<and> s' = s\<lparr>replay_r := replay_r s'\<rparr>"
  using assms by (auto simp: replay_get_line_def split: prod.splits if_splits)

lemma get_line_more:
  "replay_get_line (s\<lparr>kt := c, pre_time := p, pre_type := ty, pre_code := co, pre_val := v\<rparr>)
     = map_option (\<lambda>(n, l, s'). (n, l, s'\<lparr>kt := c, pre_time := p, pre_type := ty, pre_code := co, pre_val := v\<rparr>))
         (replay_get_line s)"
  by (auto simp: replay_get_line_def split: prod.splits)

lemma replay_events_more: "replay_events (s\<lparr>kt := c, pre_time := p, pre_type := ty, pre_code := co, pre_val := v\<rparr>) = replay_events s"
proof (induction s rule: replay_events.induct)
  case (1 s)
  show ?case
  proof (cases "replay_get_line s")
    case None
    then show ?thesis by (simp add: replay_events.simps [of "s\<lparr>kt := c, pre_time := p, pre_type := ty, pre_code := co, pre_val := v\<rparr>"]
        replay_events.simps [of s] get_line_more)
  next
    case (Some a)
    obtain n l s1 where a: "a = (n, l, s1)" by (cases a)
    show ?thesis
    proof (cases "n = 0")
      case True
      with Some a show ?thesis by (simp add: replay_events.simps [of "s\<lparr>kt := c, pre_time := p, pre_type := ty, pre_code := co, pre_val := v\<rparr>"]
        replay_events.simps [of s] get_line_more)
    next
      case False
      have "replay_events (s1\<lparr>kt := c, pre_time := p, pre_type := ty, pre_code := co, pre_val := v\<rparr>) = replay_events s1"
        using "1.IH" [OF Some a [symmetric] refl False] by simp
      with False Some a show ?thesis
        by (simp add: replay_events.simps [of "s\<lparr>kt := c, pre_time := p, pre_type := ty, pre_code := co, pre_val := v\<rparr>"]
          replay_events.simps [of s] get_line_more)
    qed
  qed
qed

lemma replay_events_frame: "replay_events (s\<lparr>kt := c, pre_time := p\<rparr>) = replay_events s"
  using replay_events_more [where s = s and c = c and p = p and ty = "pre_type s" and co = "pre_code s" and v = "pre_val s"]
  by simp

definition pending :: "replay \<Rightarrow> event" where
  "pending s = (pre_time s, pre_type s, pre_code s, pre_val s)"

definition loop_post :: "u32 \<Rightarrow> kcall list \<Rightarrow> event list \<Rightarrow> event list \<Rightarrow> replay \<Rightarrow> bool" where
  "loop_post p calls b r s' =
     (case r of
        [] \<Rightarrow> kt s' = calls @ map report_event b @ [Del_timer ''replay_timer'']
              \<and> pending s' = no_event \<and> replay_r s' = 0 \<and> replay_w s' = 0
      | e # r' \<Rightarrow> kt s' = calls @ map report_event b
                   @ [Mod_timer ''replay_timer'' (fst e - (if b = [] then p else fst (last b)))]
              \<and> pending s' = e \<and> replay_events s' = Some r')"

lemma loop_post_Cons:
  "loop_post (if p = 0 then fst e else p) (calls @ [report_event e]) b r s' \<Longrightarrow> p = 0 \<or> fst e = p \<Longrightarrow>
     loop_post p calls (e # b) r s'"
  by (auto simp: loop_post_def split: list.splits if_splits)

lemma replay_loop_batch:
  assumes "replay_events s = Some es" "batch (pre_time s) es = (b, r)"
  shows "\<exists>s'. replay_loop s = Some s' \<and> loop_post (pre_time s) (kt s) b r s'"
  using assms
proof (induction s arbitrary: es b r rule: replay_loop.induct)
  case (1 s)
  from "1.prems"(1) obtain n line s1 where g: "replay_get_line s = Some (n, line, s1)"
    by (subst (asm) replay_events.simps) (auto split: option.splits)
  note frame = get_line_frame [OF g]
  show ?case
  proof (cases "n = 0")
    case True
    then have "es = []" using "1.prems"(1) g by (subst (asm) replay_events.simps) simp
    then show ?thesis
      using "1.prems"(2) True g frame
      by (subst replay_loop.simps) (simp add: loop_post_def emit_def pending_def no_event_def)
  next
    case n: False
    obtain time type code val where e: "scan_event line = (time, type, code, val)"
      by (cases "scan_event line")
    let ?e = "(time, type, code, val)"
    obtain es1 where es1: "replay_events s1 = Some es1"
      and es: "es = (if ?e = no_event then es1 else ?e # es1)"
      using "1.prems"(1) g n e by (subst (asm) replay_events.simps) auto
    show ?thesis
    proof (cases "?e = no_event")
      case True
      then have "replay_loop s = replay_loop s1"
        using g n e by (subst replay_loop.simps) (simp add: no_event_def)
      then show ?thesis
        using "1.IH"(1) [OF g refl refl n e [symmetric] refl refl] True es es1 "1.prems"(2) frame
        by (auto simp: no_event_def)
    next
      case False
      then have z: "\<not> (time = 0 \<and> type = 0 \<and> code = 0 \<and> val = 0)" by (simp add: no_event_def)
      show ?thesis
      proof (cases "pre_time s1 = 0 \<or> time = pre_time s1")
        case True
        let ?s2 = "(emit [report type code val] s1)
                      \<lparr>pre_time := (if pre_time s1 = 0 then time else pre_time s1)\<rparr>"
        have loop: "replay_loop s = replay_loop ?s2"
          using g n e z True by (subst replay_loop.simps) auto
        have ev: "replay_events ?s2 = Some es1"
          using es1 replay_events_frame [where s = s1] by (simp add: emit_def)
        obtain b1 where b1: "batch (if pre_time s = 0 then time else pre_time s) es1 = (b1, r)"
          and b: "b = ?e # b1"
          using "1.prems"(2) True frame es False by (auto split: prod.splits if_splits)
        have p2: "pre_time ?s2 = (if pre_time s = 0 then time else pre_time s)"
          and k2: "kt ?s2 = kt s @ [report_event ?e]"
          using frame by (simp_all add: report_event_def)
        have "batch (pre_time ?s2) es1 = (b1, r)" unfolding p2 by (rule b1)
        from "1.IH"(2) [OF g refl refl n e [symmetric] refl refl z True ev this]
        obtain s' where s': "replay_loop ?s2 = Some s'"
          "loop_post (pre_time ?s2) (kt ?s2) b1 r s'" by blast
        have "loop_post (pre_time s) (kt s) b r s'"
          unfolding b using s'(2) True frame by (intro loop_post_Cons) (unfold p2 k2 fst_conv, auto)
        then show ?thesis using loop s'(1) by auto
      next
        case late: False
        let ?s2 = "(emit [Mod_timer ''replay_timer'' (time - pre_time s1)] s1)
                     \<lparr>pre_time := time, pre_type := type, pre_code := code, pre_val := val\<rparr>"
        have loop: "replay_loop s = Some ?s2"
          using g n e z late by (subst replay_loop.simps) auto
        have br: "b = []" "r = ?e # es1"
          using "1.prems"(2) late frame es False by auto
        have "replay_events ?s2 = Some es1"
          using es1 replay_events_more [where s = s1] by (simp add: emit_def)
        then show ?thesis
          using loop br frame by (simp add: loop_post_def pending_def)
      qed
    qed
  qed
qed

subsection \<open>A whole replay\<close>

text \<open>
  The kernel runs the timer function again each time it has re-armed the timer. \<^verbatim>\<open>fuel\<close> bounds the
  number of expiries; one more than the number of events is enough, since every expiry after the
  first begins with a pending event.
\<close>

definition rearmed :: "replay \<Rightarrow> bool" where
  "rearmed s = (case last (kt s) of Mod_timer t d \<Rightarrow> True | _ \<Rightarrow> False)"

fun replay_run :: "nat \<Rightarrow> replay \<Rightarrow> replay option" where
  "replay_run 0 s = None"
| "replay_run (Suc fuel) s =
     (case input_replay_timer_func s of
        None \<Rightarrow> None
      | Some s' \<Rightarrow> if rearmed s' then replay_run fuel s' else Some s')"

definition reported :: "kcall list \<Rightarrow> kcall list" where
  "reported cs = filter (\<lambda>c. case c of Input_event d t x v \<Rightarrow> True | _ \<Rightarrow> False) cs"

lemma reported_append [simp]: "reported (cs @ ds) = reported cs @ reported ds"
  by (simp add: reported_def)

lemma reported_events [simp]: "reported (map report_event es) = map report_event es"
  by (induction es) (auto simp: reported_def report_event_def report_def)

lemma reported_timer [simp]:
  "reported [Mod_timer t d] = []" "reported [Del_timer t] = []"
  by (simp_all add: reported_def)

lemma timer_func_batch:
  assumes "replay_events s = Some es" "batch (pre_time s) es = (b, r)"
  shows "\<exists>s'. input_replay_timer_func s = Some s'
    \<and> loop_post (pre_time s)
        (kt s @ (if pre_time s \<noteq> 0 then [report_event (pending s)] else [])) b r s'"
proof (cases "pre_time s = 0")
  case True
  with replay_loop_batch [OF assms] show ?thesis by (simp add: input_replay_timer_func_def)
next
  case False
  let ?s = "emit [report_event (pending s)] s"
  have "replay_events ?s = Some es"
    using assms(1) replay_events_frame [where s = s and p = "pre_time s"] by (simp add: emit_def)
  moreover have "pre_time ?s = pre_time s" by (simp add: emit_def)
  ultimately have "\<exists>s'. replay_loop ?s = Some s' \<and> loop_post (pre_time s) (kt ?s) b r s'"
    using replay_loop_batch [of ?s es b r] assms(2) by simp
  with False show ?thesis
    by (simp add: input_replay_timer_func_def pending_def report_event_def)
qed

lemma replay_run_events:
  assumes "replay_events s = Some es" "\<forall>e \<in> set es. fst e \<noteq> 0" "length es < fuel"
  shows "\<exists>s'. replay_run fuel s = Some s'
    \<and> reported (kt s') = reported (kt s)
        @ (if pre_time s \<noteq> 0 then [report_event (pending s)] else []) @ map report_event es
    \<and> pending s' = no_event \<and> replay_r s' = 0 \<and> replay_w s' = 0"
  using assms
proof (induction fuel arbitrary: s es)
  case 0
  then show ?case by simp
next
  case (Suc fuel)
  obtain b r where br: "batch (pre_time s) es = (b, r)" by (cases "batch (pre_time s) es")
  obtain s1 where s1: "input_replay_timer_func s = Some s1"
    and post: "loop_post (pre_time s)
        (kt s @ (if pre_time s \<noteq> 0 then [report_event (pending s)] else [])) b r s1"
    using timer_func_batch [OF Suc.prems(1) br] by blast
  note es = batch_append [OF br]
  show ?case
  proof (cases r)
    case Nil
    then have "\<not> rearmed s1" using post by (simp add: loop_post_def rearmed_def)
    then show ?thesis
      using s1 post Nil es by (auto simp: loop_post_def reported_def report_event_def report_def split: prod.splits)
  next
    case (Cons e r')
    then have re: "rearmed s1" and p1: "pending s1 = e" and ev: "replay_events s1 = Some r'"
      using post by (simp_all add: loop_post_def rearmed_def)
    have "pre_time s1 \<noteq> 0"
      using p1 Suc.prems(2) es Cons by (auto simp: pending_def)
    moreover have "length r' < fuel" "\<forall>e \<in> set r'. fst e \<noteq> 0"
      using Suc.prems(2,3) es Cons by auto
    ultimately obtain s' where s': "replay_run fuel s1 = Some s'"
      "reported (kt s') = reported (kt s1) @ [report_event e] @ map report_event r'"
      "pending s' = no_event" "replay_r s' = 0" "replay_w s' = 0"
      using Suc.IH [OF ev] p1 by auto
    have "reported (kt s1) = reported (kt s)
        @ (if pre_time s \<noteq> 0 then [report_event (pending s)] else []) @ map report_event b"
      using post Cons reported_events [of "[pending s]"] reported_events [of "[]"] by (simp add: loop_post_def)
    then show ?thesis using s' s1 re es Cons by simp
  qed
qed

subsection \<open>A printed event scans back\<close>

definition no_digit :: "(u8 \<Rightarrow> nat option) \<Rightarrow> u8 list \<Rightarrow> bool" where
  "no_digit dv cs \<longleftrightarrow> (case cs of [] \<Rightarrow> True | c # _ \<Rightarrow> dv c = None)"

lemma scan_digits_stop: "no_digit dv cs \<Longrightarrow> scan_digits dv base acc cs = (acc, cs)"
  by (cases cs) (simp_all add: no_digit_def)

lemma scan_digits_append:
  assumes "\<forall>c \<in> set ds. dv c \<noteq> None"
  shows "scan_digits dv base acc (ds @ cs)
           = scan_digits dv base (foldl (\<lambda>a c. a * base + the (dv c)) acc ds) cs"
  using assms by (induction ds arbitrary: acc) auto

lemma hex_value_digit:
  assumes "d < 16"
  shows "hex_value (hex_digit d) = Some d"
proof -
  have "list_all (\<lambda>d. hex_value (hex_digit d) = Some d) [0..<16]" by code_simp
  with assms show ?thesis by (auto simp: list_all_iff)
qed

lemma dec_value_digit:
  assumes "d < 10"
  shows "dec_value (of_nat (48 + d)) = Some d"
proof -
  have "list_all (\<lambda>d. dec_value (of_nat (48 + d)) = Some d) [0..<10]" by code_simp
  with assms show ?thesis by (auto simp: list_all_iff)
qed

lemma foldl_base: "foldl (\<lambda>a d. a * k + f d) (c :: nat) ds = c * k ^ length ds + foldl (\<lambda>a d. a * k + f d) 0 ds"
proof (induction ds arbitrary: c)
  case Nil
  then show ?case by simp
next
  case (Cons d ds)
  show ?case
    using Cons.IH [of "c * k + f d"] Cons.IH [of "f d"] by (simp add: algebra_simps)
qed

lemma hex_digits_value:
  "foldl (\<lambda>a i. a * 16 + n div 16 ^ i mod 16) 0 (rev [0..<k]) = n mod (16 ^ k :: nat)"
proof (induction k)
  case 0
  then show ?case by simp
next
  case (Suc k)
  have "n mod 16 ^ Suc k = (n div 16 ^ k mod 16) * 16 ^ k + n mod 16 ^ k"
    using mod_mult2_eq [of n "16 ^ k" 16] by (simp add: mult.commute)
  then show ?case
    using Suc foldl_base [of 16 "\<lambda>i. n div 16 ^ i mod 16" "n div 16 ^ k mod 16" "rev [0..<k]"]
    by simp
qed

lemma fmt_08x_alt: "fmt_08x x = map (\<lambda>i. hex_digit (unat x div 16 ^ i mod 16)) (rev [0..<8])"
  by (simp add: fmt_08x_def upt_rec)

lemma scan_hex:
  assumes "no_digit hex_value cs"
  shows "scan_digits hex_value 16 0 (fmt_08x x @ cs) = (unat x, cs)"
proof -
  have "unat x < 2 ^ LENGTH(32)" by (rule unsigned_less)
  then have "unat x mod 16 ^ 8 = unat x" by simp
  moreover have "foldl (\<lambda>a c. a * 16 + the (hex_value c)) 0 (fmt_08x x) = unat x mod 16 ^ 8"
    using hex_digits_value [of "unat x" 8]
    by (simp add: fmt_08x_alt foldl_map hex_value_digit del: upt_Suc)
  moreover have "\<forall>c \<in> set (fmt_08x x). hex_value c \<noteq> None"
    by (auto simp: fmt_08x_alt hex_value_digit)
  ultimately show ?thesis
    by (simp add: scan_digits_append scan_digits_stop [OF assms])
qed

lemma fmt_nat_digits: "\<forall>c \<in> set (fmt_nat n). dec_value c \<noteq> None"
proof (induction n rule: fmt_nat.induct)
  case (1 n)
  then show ?case
    using dec_value_digit [of n] dec_value_digit [of "n mod 10"] by (subst fmt_nat.simps) auto
qed

lemma fmt_nat_value: "foldl (\<lambda>a c. a * 10 + the (dec_value c)) 0 (fmt_nat n) = n"
proof (induction n rule: fmt_nat.induct)
  case (1 n)
  then show ?case
    using dec_value_digit [of n] dec_value_digit [of "n mod 10"] by (subst fmt_nat.simps) auto
qed

lemma fmt_nat_hd: "fmt_nat n \<noteq> [] \<and> dec_value (hd (fmt_nat n)) \<noteq> None"
proof -
  have "fmt_nat n \<noteq> []" by (subst fmt_nat.simps) auto
  then show ?thesis using fmt_nat_digits [of n] by auto
qed

lemma scan_x_field:
  assumes "no_digit hex_value cs"
  shows "scan_x ([48, 120] @ fmt_08x x @ cs) = Some (x, cs)"
    and "scan_x ([32, 48, 120] @ fmt_08x x @ cs) = Some (x, cs)"
  by (simp_all add: scan_x_def is_blank_def hex_value_def scan_hex [OF assms])

lemma scan_d_field:
  assumes "no_digit dec_value cs" "- (2 ^ 31) \<le> v" "v < 2 ^ 31"
  shows "scan_d ([32] @ fmt_d v @ cs) = Some (v, cs)"
proof -
  have n: "scan_digits dec_value 10 0 (fmt_nat n @ cs) = (n, cs)" for n
    by (simp add: scan_digits_append [OF fmt_nat_digits] fmt_nat_value scan_digits_stop [OF assms(1)])
  have v: "sint (of_int v :: u32) = v"
    using assms(2,3) by (simp add: signed_of_int signed_take_bit_int_eq_self)
  show ?thesis
  proof (cases "v < 0")
    case True
    then have "- of_nat (nat (- v)) = (of_int v :: u32)" by simp
    with True n [of "nat (- v)"] v fmt_nat_hd [of "nat (- v)"] show ?thesis
      by (simp add: scan_d_def fmt_d_def is_blank_def)
  next
    case False
    obtain c ds where cd: "fmt_nat (nat v) = c # ds" and dc: "dec_value c \<noteq> None"
      using fmt_nat_hd [of "nat v"] by (cases "fmt_nat (nat v)") auto
    then have "\<not> is_blank c" "c \<noteq> 45"
      by (auto simp: dec_value_def is_blank_def split: if_splits)
    moreover from False have "of_nat (nat v) = (of_int v :: u32)" by simp
    ultimately show ?thesis
      using False n [of "nat v"] v cd dc by (simp add: scan_d_def fmt_d_def is_blank_def)
  qed
qed

lemma scan_event_line:
  assumes "- (2 ^ 31) \<le> v" "v < 2 ^ 31"
  shows "scan_event (butlast (event_line t ty c v)) = (t, ty, c, v)"
proof -
  have stop: "no_digit hex_value ([32, 48, 120] @ xs)" "no_digit hex_value ([32] @ xs)"
    "no_digit dec_value []" for xs
    by (simp_all add: no_digit_def hex_value_def)
  have line: "butlast (event_line t ty c v) = [48, 120] @ fmt_08x t @ [32, 48, 120] @ fmt_08x ty
      @ [32, 48, 120] @ fmt_08x c @ [32] @ fmt_d v @ []"
    by (simp add: event_line_def butlast_append)
  show ?thesis
    unfolding line scan_event_def
    using scan_x_field(1) [OF stop(1), of t "fmt_08x ty @ [32, 48, 120] @ fmt_08x c @ [32] @ fmt_d v @ []"]
      scan_x_field(2) [OF stop(1), of ty "fmt_08x c @ [32] @ fmt_d v @ []"]
      scan_x_field(2) [OF stop(2), of c "fmt_d v @ []"]
      scan_d_field [OF stop(3) assms]
    by simp
qed

subsection \<open>Reading back what was recorded\<close>

lemma skip_blanks_to:
  assumes "r \<le> k" "k \<le> Suc w" "\<forall>i \<in> {r..<k}. is_blank (b ! i)" "w < k \<or> \<not> is_blank (b ! k)"
  shows "skip_blanks b w r = k"
  using assms
proof (induction b w r rule: skip_blanks.induct)
  case (1 b w r)
  show ?case
  proof (cases "r = k")
    case True
    with "1.prems" show ?thesis by (subst skip_blanks.simps) auto
  next
    case False
    with "1.prems" have "r \<le> w" "is_blank (b ! r)" by auto
    with False "1.IH" "1.prems" show ?thesis by (subst skip_blanks.simps) auto
  qed
qed

lemma take_line_to:
  assumes "r \<le> k" "k \<le> Suc w" "\<forall>i \<in> {r..<k}. \<not> is_eol (b ! i)" "w < k \<or> is_eol (b ! k)"
  shows "take_line b w r line = (k, line @ map (nth b) [r..<k])"
  using assms
proof (induction b w r line rule: take_line.induct)
  case (1 b w r line)
  show ?case
  proof (cases "r = k")
    case True
    with "1.prems" show ?thesis by (subst take_line.simps) auto
  next
    case False
    with "1.prems" have "r \<le> w" "\<not> is_eol (b ! r)" by auto
    with False "1.IH" "1.prems" show ?thesis
      by (subst take_line.simps) (auto simp: upt_conv_Cons)
  qed
qed

lemma get_line_at:
  assumes "replay_r s \<le> k" "k \<le> m" "m \<le> Suc (replay_w s)"
    and "\<forall>i \<in> {replay_r s..<k}. is_blank (replay_buf s ! i)"
    and "replay_w s < k \<or> \<not> is_blank (replay_buf s ! k)"
    and "\<forall>i \<in> {k..<m}. \<not> is_eol (replay_buf s ! i)"
    and "replay_w s < m \<or> is_eol (replay_buf s ! m)" and "m - k < LINE_LEN"
  shows "replay_get_line s = Some (m - k, map (nth (replay_buf s)) [k..<m], s\<lparr>replay_r := m\<rparr>)"
  using assms by (simp add: replay_get_line_def skip_blanks_to [of _ k] take_line_to [of _ m])

lemma block_nth:
  assumes "length pre \<le> i" "i < length pre + length ys"
  shows "(pre @ ys @ zs) ! i \<in> set ys"
proof -
  from assms have "i - length pre < length ys" by linarith
  with assms(1) show ?thesis by (simp add: nth_append)
qed

lemma map_nth_block: "map (nth (pre @ ys @ zs)) [length pre..<length pre + length ys] = ys"
  by (rule nth_equalityI) (simp_all add: nth_append)

definition eol_free :: "u8 list \<Rightarrow> bool" where
  "eol_free cs \<longleftrightarrow> (\<forall>c \<in> set cs. \<not> is_eol c)"

lemma eol_free_simps [simp]:
  "eol_free []" "eol_free (c # cs) \<longleftrightarrow> \<not> is_eol c \<and> eol_free cs"
  "eol_free (cs @ ds) \<longleftrightarrow> eol_free cs \<and> eol_free ds"
  by (auto simp: eol_free_def)

lemma digit_not_eol: "hex_value c \<noteq> None \<Longrightarrow> \<not> is_eol c" "dec_value c \<noteq> None \<Longrightarrow> \<not> is_eol c"
  by (auto simp: hex_value_def dec_value_def is_eol_def split: if_splits)

lemma eol_free_fmt: "eol_free (fmt_08x x)" "eol_free (fmt_nat n)" "eol_free (fmt_d v)"
proof -
  show "eol_free (fmt_08x x)"
    by (auto simp: eol_free_def fmt_08x_alt hex_value_digit intro!: digit_not_eol(1))
  show "eol_free (fmt_nat n)" for n
    using fmt_nat_digits [of n] by (auto simp: eol_free_def intro!: digit_not_eol(2))
  then show "eol_free (fmt_d v)" by (simp add: fmt_d_def is_eol_def)
qed

lemma length_fmt_nat: "n < 10 ^ Suc k \<Longrightarrow> length (fmt_nat n) \<le> Suc k"
proof (induction k arbitrary: n)
  case 0
  then show ?case by (subst fmt_nat.simps) simp
next
  case (Suc k)
  then have "n div 10 < 10 ^ Suc k" by (simp add: less_mult_imp_div_less mult.commute)
  with Suc.IH [of "n div 10"] show ?case by (subst fmt_nat.simps) simp
qed

lemma length_fmt_08x [simp]: "length (fmt_08x x) = 8"
  by (simp add: fmt_08x_def)

definition val_ok :: "int \<Rightarrow> bool" where
  "val_ok v \<longleftrightarrow> - (2 ^ 31) \<le> v \<and> v < 2 ^ 31"

lemma length_fmt_d: "val_ok v \<Longrightarrow> length (fmt_d v) \<le> 11"
  using length_fmt_nat [of "nat v" 9] length_fmt_nat [of "nat (- v)" 9]
  by (auto simp: val_ok_def fmt_d_def nat_less_iff)

definition event_text :: "event \<Rightarrow> u8 list" where
  "event_text e = (case e of (t, ty, c, v) \<Rightarrow> event_line t ty c v)"

lemma event_text_split:
  assumes "val_ok (snd (snd (snd e)))"
  obtains l where "event_text e = l @ [10]" "eol_free l" "l \<noteq> []" "\<not> is_blank (hd l)"
    "length l < LINE_LEN" "scan_event l = e"
proof (cases e)
  case (fields t ty c v)
  let ?l = "[48, 120] @ fmt_08x t @ [32, 48, 120] @ fmt_08x ty @ [32, 48, 120] @ fmt_08x c
      @ [32] @ fmt_d v"
  have l: "event_text e = ?l @ [10]"
    by (simp add: fields event_text_def event_line_def)
  then have "butlast (event_text e) = ?l" by (metis butlast_snoc)
  then have "scan_event ?l = e"
    using scan_event_line [of v t ty c] assms fields by (simp add: event_text_def val_ok_def)
  moreover have "eol_free ?l" "?l \<noteq> []" "\<not> is_blank (hd ?l)" "length ?l < LINE_LEN"
    using length_fmt_d [of v] assms
    by (simp_all add: fields eol_free_fmt is_eol_def is_blank_def LINE_LEN_def)
  ultimately show thesis using that l by blast
qed

definition stale :: "u8 \<Rightarrow> event list" where
  "stale c = (if is_blank c \<or> scan_event [c] = no_event then [] else [scan_event [c]])"

definition real_events :: "event list \<Rightarrow> event list" where
  "real_events es = filter (\<lambda>e. e \<noteq> no_event) es"

lemma replay_events_end:
  assumes "replay_r s = Suc (replay_w s)"
  shows "replay_events s = Some []"
proof -
  have "replay_get_line s = Some (0, [], s\<lparr>replay_r := replay_r s\<rparr>)"
    using get_line_at [of s "replay_r s" "replay_r s"] assms by (simp add: LINE_LEN_def)
  then show ?thesis by (subst replay_events.simps) simp
qed

lemma replay_events_text:
  assumes "replay_buf s = pre @ sep @ concat (map event_text es) @ c # rest"
    and "replay_r s = length pre" and "\<forall>x \<in> set sep. is_blank x"
    and "replay_w s = length pre + length sep + length (concat (map event_text es))"
    and "\<forall>e \<in> set es. val_ok (snd (snd (snd e)))"
  shows "replay_events s = Some (real_events es @ stale c)"
  using assms
proof (induction es arbitrary: s pre sep)
  case Nil
  have w: "replay_buf s ! replay_w s = c"
    using Nil.prems(1,4) by (simp add: nth_append)
  have sep: "\<forall>i \<in> {replay_r s..<replay_w s}. is_blank (replay_buf s ! i)"
    using Nil.prems block_nth [of pre _ sep "c # rest"] by auto
  have rw: "replay_r s \<le> replay_w s" using Nil.prems by simp
  show ?case
  proof (cases "is_blank c")
    case True
    have "\<forall>i \<in> {replay_r s..<Suc (replay_w s)}. is_blank (replay_buf s ! i)"
      using sep w True rw by (auto simp: atLeastLessThanSuc)
    then have "replay_get_line s = Some (0, [], s\<lparr>replay_r := Suc (replay_w s)\<rparr>)"
      using get_line_at [of s "Suc (replay_w s)" "Suc (replay_w s)"] rw by (simp add: LINE_LEN_def)
    with True show ?thesis by (subst replay_events.simps) (simp add: stale_def real_events_def)
  next
    case False
    then have "\<not> is_eol c" by (auto simp: is_blank_def is_eol_def)
    then have g: "replay_get_line s = Some (1, [c], s\<lparr>replay_r := Suc (replay_w s)\<rparr>)"
      using get_line_at [of s "replay_w s" "Suc (replay_w s)"] rw sep w False
      by (auto simp: LINE_LEN_def)
    have "replay_events (s\<lparr>replay_r := Suc (replay_w s)\<rparr>) = Some []"
      by (rule replay_events_end) simp
    with g False show ?thesis by (subst replay_events.simps) (simp add: stale_def real_events_def)
  qed
next
  case (Cons e es)
  obtain l where l: "event_text e = l @ [10]" "eol_free l" "l \<noteq> []" "\<not> is_blank (hd l)"
    "length l < LINE_LEN" "scan_event l = e"
    using event_text_split [of e] Cons.prems(5) by auto
  let ?k = "length pre + length sep" and ?m = "length pre + length sep + length l"
  let ?tail = "[10] @ concat (map event_text es) @ c # rest"
  have b1: "replay_buf s = pre @ sep @ (l @ ?tail)" and b2: "replay_buf s = (pre @ sep) @ l @ ?tail"
    using Cons.prems(1) l(1) by simp_all
  have k: "\<not> is_blank (replay_buf s ! ?k)"
    using l(3,4) unfolding b2 by (cases l) (simp_all add: nth_append)
  have m: "replay_buf s ! ?m = 10" unfolding b1 by (simp add: nth_append)
  have sep: "\<forall>i \<in> {replay_r s..<?k}. is_blank (replay_buf s ! i)"
    using Cons.prems(2,3) block_nth [of pre _ sep "l @ ?tail"] unfolding b1 by auto
  have line: "\<forall>i \<in> {?k..<?m}. \<not> is_eol (replay_buf s ! i)"
    using l(2) block_nth [of "pre @ sep" _ l ?tail] unfolding b2 eol_free_def by auto
  have lines: "map (nth (replay_buf s)) [?k..<?m] = l"
    using map_nth_block [of "pre @ sep" l ?tail] unfolding b2 by simp
  have g: "replay_get_line s = Some (length l, l, s\<lparr>replay_r := ?m\<rparr>)"
    using get_line_at [of s ?k ?m] Cons.prems(2,4) sep k line m lines l
    by (simp add: is_eol_def)
  have "replay_events (s\<lparr>replay_r := ?m\<rparr>) = Some (real_events es @ stale c)"
    using Cons.prems l(1) b1
    by (intro Cons.IH [where pre = "pre @ sep @ l" and sep = "[10]"]) (auto simp: is_blank_def)
  with g l(3,6) show ?case
    by (subst replay_events.simps) (simp add: real_events_def)
qed

lemma stale_hex:
  assumes "hex_value c = Some d" "d \<noteq> 0"
  shows "stale c = [(of_nat d, 0, 0, 0)]"
proof -
  have d: "d < 16" using assms(1) by (auto simp: hex_value_def word_le_nat_alt split: if_splits)
  have c: "\<not> is_blank c" "c \<noteq> 48" using assms by (auto simp: hex_value_def is_blank_def split: if_splits)
  have "unat (of_nat d :: u32) = d" using d by (simp add: unat_of_nat)
  then have "(of_nat d :: u32) \<noteq> 0" using assms(2) by auto
  moreover have "scan_event [c] = (of_nat d, 0, 0, 0)"
    using assms(1) c by (simp add: scan_event_def scan_x_def)
  ultimately show ?thesis using c by (simp add: stale_def no_event_def)
qed

subsection \<open>Properties\<close>

text \<open>
  A write that the file layer lets through (less than 2 GB, so that the unsigned sum of the guard
  does not wrap) never leaves \<^verbatim>\<open>replay_buf\<close>. It is refused when it would not leave room for one more
  byte, and when the process cannot supply the bytes; otherwise the bytes are appended to the data
  and nothing before them changes.
\<close>

theorem replay_write_safe:
  assumes "replay_inv L s" and "unat sz < 2 ^ 31"
  shows "\<exists>ret s'. replay_write L user sz s = Some (ret, s') \<and> replay_inv L s'
    \<and> (if replay_w s + unat sz < L \<and> unat sz \<le> length user
       then ret = int (unat sz) \<and> replay_w s' = replay_w s + unat sz
            \<and> take (replay_w s') (replay_buf s') = take (replay_w s) (replay_buf s) @ take (unat sz) user
       else ret = - EIO \<and> replay_w s' = replay_w s
            \<and> take (replay_w s) (replay_buf s') = take (replay_w s) (replay_buf s))"
proof (cases "replay_w s + unat sz < L")
  case False
  then show ?thesis using assms(1) guard_sum [OF assms] by (simp add: replay_write_def)
next
  case True
  obtain bs err where bs: "copy_from_user user (unat sz) = (bs, err)" and len: "length bs = unat sz"
    using length_copy_from_user [of user "unat sz"] by (cases "copy_from_user user (unat sz)") auto
  have "replay_w s + length bs \<le> length (replay_buf s)"
    using True len assms(1) by (simp add: replay_inv_def)
  then obtain b where b: "store_at (replay_w s) bs (replay_buf s) = Some b"
    by (simp add: store_at_def)
  note stored = take_store_at [OF b] length_store_at [OF b]
  have old: "take (replay_w s) b = take (replay_w s) (replay_buf s)"
    using arg_cong [OF stored(1), of "take (replay_w s)"] assms(1)
    by (simp add: replay_inv_def min_def)
  show ?thesis
    using True guard_sum [OF assms] bs b len stored old assms(1) copy_from_user_all [of "unat sz" user]
      copy_from_user_fault [of user "unat sz"]
    by (cases "unat sz \<le> length user") (auto simp: replay_write_def replay_inv_def)
qed

theorem replay_write_safe_witness:
  "\<exists>s'. replay_write 8 [5, 6] 2 \<lparr>kt = [], replay_buf = replicate 8 0, replay_r = 0, replay_w = 1,
           pre_time = 0, pre_type = 0, pre_code = 0, pre_val = 0\<rparr> = Some (2, s')
     \<and> replay_w s' = 3"
proof -
  let ?s = "\<lparr>kt = [], replay_buf = replicate 8 0, replay_r = 0, replay_w = 1,
              pre_time = 0, pre_type = 0, pre_code = 0, pre_val = 0\<rparr> :: replay"
  have "replay_inv 8 ?s" "unat (2 :: u32) < 2 ^ 31" by (simp_all add: replay_inv_def)
  from replay_write_safe [OF this, of "[5, 6]"] show ?thesis by auto
qed

text \<open>
  Replaying a recording: when the buffer holds the lines that the recorder wrote for the events
  \<^verbatim>\<open>es\<close> (each line is the event's four fields as \<^verbatim>\<open>write_input_event_to_file\<close> prints them), the
  player terminates, and the input events it reports are exactly the recorded ones, each once and in
  the recorded order, whatever their times are grouped like; then it is back in its initial state.
  This needs the byte after the data to be blank, since the reader looks at it too.
\<close>

theorem replay_plays_recording:
  assumes "replay_buf s = concat (map event_text es) @ c # rest" and "replay_r s = 0"
    and "replay_w s = length (concat (map event_text es))" and "pending s = no_event"
    and "\<forall>e \<in> set es. val_ok (snd (snd (snd e))) \<and> (e = no_event \<or> fst e \<noteq> 0)"
    and "is_blank c" and "length es < fuel"
  shows "\<exists>s'. replay_run fuel s = Some s'
    \<and> reported (kt s') = reported (kt s) @ map report_event (real_events es)
    \<and> pending s' = no_event \<and> replay_r s' = 0 \<and> replay_w s' = 0"
proof -
  have ev: "replay_events s = Some (real_events es)"
    using assms replay_events_text [of s "[]" "[]" es c rest] by (auto simp: stale_def)
  have "\<forall>e \<in> set (real_events es). fst e \<noteq> 0" using assms(5) by (auto simp: real_events_def)
  moreover have "length (real_events es) \<le> length es" by (simp add: real_events_def)
  then have "length (real_events es) < fuel" using assms(7) by simp
  moreover have "pre_time s = 0" using assms(4) by (simp add: pending_def no_event_def)
  ultimately show ?thesis using replay_run_events [OF ev] by simp
qed

definition demo :: "u8 \<Rightarrow> replay" where
  "demo c = \<lparr>kt = [], replay_buf = concat (map event_text [(5, 1, 330, 1)]) @ [c], replay_r = 0,
     replay_w = length (concat (map event_text [(5, 1, 330, 1)])),
     pre_time = 0, pre_type = 0, pre_code = 0, pre_val = 0\<rparr>"

lemma demo_simps:
  "replay_buf (demo c) = concat (map event_text [(5, 1, 330, 1)]) @ [c]" "replay_r (demo c) = 0"
  "replay_w (demo c) = length (concat (map event_text [(5, 1, 330, 1)]))" "kt (demo c) = []"
  "pre_time (demo c) = 0" "pre_type (demo c) = 0" "pre_code (demo c) = 0" "pre_val (demo c) = 0"
  by (simp_all add: demo_def)

theorem replay_plays_recording_witness:
  "\<exists>s'. replay_run 2 (demo 0x20) = Some s' \<and> reported (kt s') = [Input_event ''s3c_ts_dev'' 1 330 1]"
proof -
  have "\<exists>s'. replay_run 2 (demo 0x20) = Some s'
    \<and> reported (kt s') = reported (kt (demo 0x20)) @ map report_event (real_events [(5, 1, 330, 1)])
    \<and> pending s' = no_event \<and> replay_r s' = 0 \<and> replay_w s' = 0"
    by (rule replay_plays_recording [of "demo 0x20" "[(5, 1, 330, 1)]" "0x20" "[]"])
       (simp_all add: demo_simps pending_def no_event_def val_ok_def is_blank_def)
  then show ?thesis
    by (auto simp: demo_simps reported_def report_event_def report_def real_events_def no_event_def)
qed

text \<open>
  The reader's bounds \<^verbatim>\<open>replay_r <= replay_w\<close> let it read the byte at \<^verbatim>\<open>replay_w\<close>, which no write
  of this recording has set. When a hexadecimal digit other than 0 is left there from an earlier,
  longer recording, the player reports an event that was never recorded: time the digit, type, code
  and value 0.
\<close>

theorem replay_reports_stale_byte:
  assumes "replay_buf s = concat (map event_text es) @ c # rest" and "replay_r s = 0"
    and "replay_w s = length (concat (map event_text es))" and "pending s = no_event"
    and "\<forall>e \<in> set es. val_ok (snd (snd (snd e))) \<and> (e = no_event \<or> fst e \<noteq> 0)"
    and "hex_value c = Some d" and "d \<noteq> 0" and "Suc (length es) < fuel"
  shows "\<exists>s'. replay_run fuel s = Some s'
    \<and> reported (kt s') = reported (kt s) @ map report_event (real_events es) @ [report 0 0 0]"
proof -
  have ev: "replay_events s = Some (real_events es @ [(of_nat d, 0, 0, 0)])"
    using assms stale_hex [OF assms(6,7)] replay_events_text [of s "[]" "[]" es c rest] by auto
  have "d < 16" using assms(6) by (auto simp: hex_value_def word_le_nat_alt split: if_splits)
  then have "unat (of_nat d :: u32) = d" by (simp add: unat_of_nat)
  then have "(of_nat d :: u32) \<noteq> 0" using assms(7) by auto
  then have "\<forall>e \<in> set (real_events es @ [(of_nat d, 0, 0, 0)]). fst e \<noteq> 0"
    using assms(5) by (auto simp: real_events_def)
  moreover have "length (real_events es) \<le> length es" by (simp add: real_events_def)
  then have "length (real_events es @ [(of_nat d :: u32, 0, 0, 0)]) < fuel"
    using assms(8) by simp
  moreover have "pre_time s = 0" using assms(4) by (simp add: pending_def no_event_def)
  ultimately show ?thesis using replay_run_events [OF ev] by (auto simp: report_event_def)
qed

theorem replay_reports_stale_byte_witness:
  "\<exists>s'. replay_run 3 (demo 0x31) = Some s'
     \<and> reported (kt s') = [Input_event ''s3c_ts_dev'' 1 330 1, Input_event ''s3c_ts_dev'' 0 0 0]"
proof -
  have "\<exists>s'. replay_run 3 (demo 0x31) = Some s'
    \<and> reported (kt s') = reported (kt (demo 0x31)) @ map report_event (real_events [(5, 1, 330, 1)])
        @ [report 0 0 0]"
    by (rule replay_reports_stale_byte [of "demo 0x31" "[(5, 1, 330, 1)]" "0x31" "[]" 1])
       (simp_all add: demo_simps pending_def no_event_def val_ok_def hex_value_def)
  then show ?thesis
    by (auto simp: demo_simps reported_def report_event_def report_def real_events_def no_event_def)
qed

end
