(* ===== verification/TouchScreen.thy ===== *)
theory TouchScreen
  imports Replay "HOL-Library.Signed_Division"
begin

text \<open>
  The touch screen driver: ts/ts_driver.c (the 3.4.2 tree has the same code) and its recording
  variant in debug_input_emulate/s3c_ts.c, which also logs every event it reports. A pen is followed
  by three handlers: the pen up/down interrupt, the conversion interrupt and a timer. Reads of the
  data registers, which the hardware changes by itself, are arguments of the handlers; the control
  registers, which only the driver writes, are state. Bit 0 of \<^verbatim>\<open>adccon\<close> starts a conversion.
\<close>

subsection \<open>State\<close>

record ts = kstate +
  adccon :: u32
  adctsc :: u32
  adcdly :: u32
  ts_cnt :: nat
  ts_x :: "int list"
  ts_y :: "int list"

subsection \<open>Modes of the controller\<close>

definition enter_wait_pen_down_mode :: "ts \<Rightarrow> ts" where
  "enter_wait_pen_down_mode s = s\<lparr>adctsc := 0xd3\<rparr>"

definition enter_wait_pen_up_mode :: "ts \<Rightarrow> ts" where
  "enter_wait_pen_up_mode s = s\<lparr>adctsc := 0x1d3\<rparr>"

definition enter_measure_xy_mode :: "ts \<Rightarrow> ts" where
  "enter_measure_xy_mode s = s\<lparr>adctsc := push_bit 3 1 OR push_bit 2 1\<rparr>"

definition start_adc :: "ts \<Rightarrow> ts" where
  "start_adc s = s\<lparr>adccon := set_mask (push_bit 0 1) (adccon s)\<rparr>"

subsection \<open>The software filter\<close>

definition ERR_LIMIT :: int where "ERR_LIMIT = 10"

text \<open>C divides towards zero.\<close>

definition s3c_filter_ts :: "int list \<Rightarrow> int list \<Rightarrow> bool" where
  "s3c_filter_ts x y =
     (let avr_x = (x ! 0 + x ! 1) sdiv 2;
          avr_y = (y ! 0 + y ! 1) sdiv 2;
          det_x = (if x ! 2 > avr_x then x ! 2 - avr_x else avr_x - x ! 2);
          det_y = (if y ! 2 > avr_y then y ! 2 - avr_y else avr_y - y ! 2)
      in if det_x > ERR_LIMIT \<or> det_y > ERR_LIMIT then False
         else (let avr_x = (x ! 1 + x ! 2) sdiv 2;
                   avr_y = (y ! 1 + y ! 2) sdiv 2;
                   det_x = (if x ! 3 > avr_x then x ! 3 - avr_x else avr_x - x ! 3);
                   det_y = (if y ! 3 > avr_y then y ! 3 - avr_y else avr_y - y ! 3)
               in \<not> (det_x > ERR_LIMIT \<or> det_y > ERR_LIMIT)))"

subsection \<open>Events\<close>

text \<open>
  An event is its type, code and value. \<^verbatim>\<open>input_report_abs\<close>, \<^verbatim>\<open>input_report_key\<close> and \<^verbatim>\<open>input_sync\<close>
  are \<^verbatim>\<open>input_event\<close> with the types 3, 1 and 0.
\<close>

type_synonym ts_event = "u32 \<times> u32 \<times> int"

definition ABS_X_ev :: "int \<Rightarrow> ts_event" where "ABS_X_ev v = (3, 0, v)"
definition ABS_Y_ev :: "int \<Rightarrow> ts_event" where "ABS_Y_ev v = (3, 1, v)"
definition ABS_PRESSURE_ev :: "int \<Rightarrow> ts_event" where "ABS_PRESSURE_ev v = (3, 24, v)"
definition BTN_TOUCH_ev :: "int \<Rightarrow> ts_event" where "BTN_TOUCH_ev v = (1, 330, v)"
definition SYN_REPORT_ev :: ts_event where "SYN_REPORT_ev = (0, 0, 0)"

definition release_events :: "ts_event list" where
  "release_events = [ABS_PRESSURE_ev 0, BTN_TOUCH_ev 0, SYN_REPORT_ev]"

definition position_events :: "int list \<Rightarrow> int list \<Rightarrow> ts_event list" where
  "position_events x y =
     [ABS_X_ev ((x ! 0 + x ! 1 + x ! 2 + x ! 3) sdiv 4),
      ABS_Y_ev ((y ! 0 + y ! 1 + y ! 2 + y ! 3) sdiv 4),
      ABS_PRESSURE_ev 1, BTN_TOUCH_ev 1, SYN_REPORT_ev]"

definition input_calls :: "ts_event list \<Rightarrow> kcall list" where
  "input_calls evs = map (\<lambda>(ty, co, v). report ty co v) evs"

subsection \<open>Handlers\<close>

text \<open>
  Each handler is written once, as the new state and the events it reports; the driver reports them
  (\<^verbatim>\<open>pen_down_up_irq\<close> and so on), the recording driver reports and logs them. \<^verbatim>\<open>dat0\<close> is the value of
  \<^verbatim>\<open>adcdat0\<close> whose bit 15 says that the pen is up.
\<close>

definition pen_is_up :: "u32 \<Rightarrow> bool" where
  "pen_is_up dat0 = (dat0 AND push_bit 15 1 \<noteq> 0)"

definition ts_check_pen :: "u32 \<Rightarrow> ts \<Rightarrow> ts \<times> ts_event list" where
  "ts_check_pen dat0 s =
     (if pen_is_up dat0 then (enter_wait_pen_down_mode s, release_events)
      else (start_adc (enter_measure_xy_mode s), []))"

text \<open>
  \<^verbatim>\<open>adc_irq\<close> reads \<^verbatim>\<open>adcdat0\<close> and \<^verbatim>\<open>adcdat1\<close> into locals, and \<^verbatim>\<open>adcdat0\<close> once more for the pen.
  An index outside \<^verbatim>\<open>x\<close> and \<^verbatim>\<open>y\<close> would be undefined. After every fourth sample the timer is armed
  to look at the pen again 10 ms later.
\<close>

definition adc_sample :: "u32 \<Rightarrow> u32 \<Rightarrow> u32 \<Rightarrow> ts \<Rightarrow> (ts \<times> ts_event list \<times> kcall list) option" where
  "adc_sample adcdat0 adcdat1 dat0 s =
     (if pen_is_up dat0
      then Some (enter_wait_pen_down_mode (s\<lparr>ts_cnt := 0\<rparr>), release_events, [])
      else if length (ts_x s) \<le> ts_cnt s \<or> length (ts_y s) \<le> ts_cnt s then None
      else let s1 = s\<lparr>ts_x := (ts_x s)[ts_cnt s := uint (adcdat0 AND 0x3ff)],
                      ts_y := (ts_y s)[ts_cnt s := uint (adcdat1 AND 0x3ff)],
                      ts_cnt := ts_cnt s + 1\<rparr>
           in if ts_cnt s1 = 4
              then Some (enter_wait_pen_up_mode (s1\<lparr>ts_cnt := 0\<rparr>),
                         if s3c_filter_ts (ts_x s1) (ts_y s1)
                         then position_events (ts_x s1) (ts_y s1) else [],
                         [Mod_timer_HZ ''ts_timer'' 100])
              else Some (start_adc (enter_measure_xy_mode s1), [], []))"

definition s3c_ts_timer_function :: "u32 \<Rightarrow> ts \<Rightarrow> ts" where
  "s3c_ts_timer_function dat0 s =
     (case ts_check_pen dat0 s of (s', evs) \<Rightarrow> emit (input_calls evs) s')"

definition pen_down_up_irq :: "u32 \<Rightarrow> ts \<Rightarrow> ts" where
  "pen_down_up_irq dat0 s =
     (case ts_check_pen dat0 s of (s', evs) \<Rightarrow> emit (input_calls evs) s')"

definition adc_irq :: "u32 \<Rightarrow> u32 \<Rightarrow> u32 \<Rightarrow> ts \<Rightarrow> ts option" where
  "adc_irq adcdat0 adcdat1 dat0 s =
     (case adc_sample adcdat0 adcdat1 dat0 s of
        None \<Rightarrow> None
      | Some (s', evs, calls) \<Rightarrow> Some (emit (input_calls evs @ calls) s'))"

subsection \<open>The recording driver\<close>

text \<open>
  debug_input_emulate/s3c_ts.c calls \<^verbatim>\<open>write_input_event_to_file\<close> after each report, with the value
  of \<^verbatim>\<open>jiffies\<close> at that moment: \<^verbatim>\<open>jif i\<close> is the value at the \<^verbatim>\<open>i\<close>-th event of the handler.
\<close>

fun log_events :: "nat \<Rightarrow> nat \<Rightarrow> (nat \<Rightarrow> u32) \<Rightarrow> ts_event list \<Rightarrow> mylog \<Rightarrow> mylog option" where
  "log_events N tmp jif [] m = Some m"
| "log_events N tmp jif ((ty, co, v) # evs) m =
     Option.bind (write_input_event_to_file N tmp (jif 0) ty co v m)
       (log_events N tmp (\<lambda>i. jif (Suc i)) evs)"

definition s3c_ts_timer_function_rec ::
  "nat \<Rightarrow> nat \<Rightarrow> (nat \<Rightarrow> u32) \<Rightarrow> u32 \<Rightarrow> ts \<times> mylog \<Rightarrow> (ts \<times> mylog) option" where
  "s3c_ts_timer_function_rec N tmp jif dat0 sm =
     (case sm of (s, m) \<Rightarrow> (case ts_check_pen dat0 s of (s', evs) \<Rightarrow>
        map_option (Pair (emit (input_calls evs) s')) (log_events N tmp jif evs m)))"

definition pen_down_up_irq_rec ::
  "nat \<Rightarrow> nat \<Rightarrow> (nat \<Rightarrow> u32) \<Rightarrow> u32 \<Rightarrow> ts \<times> mylog \<Rightarrow> (ts \<times> mylog) option" where
  "pen_down_up_irq_rec N tmp jif dat0 sm =
     (case sm of (s, m) \<Rightarrow> (case ts_check_pen dat0 s of (s', evs) \<Rightarrow>
        map_option (Pair (emit (input_calls evs) s')) (log_events N tmp jif evs m)))"

definition adc_irq_rec ::
  "nat \<Rightarrow> nat \<Rightarrow> (nat \<Rightarrow> u32) \<Rightarrow> u32 \<Rightarrow> u32 \<Rightarrow> u32 \<Rightarrow> ts \<times> mylog \<Rightarrow> (ts \<times> mylog) option" where
  "adc_irq_rec N tmp jif adcdat0 adcdat1 dat0 sm =
     (case sm of (s, m) \<Rightarrow> (case adc_sample adcdat0 adcdat1 dat0 s of
        None \<Rightarrow> None
      | Some (s', evs, calls) \<Rightarrow>
          map_option (Pair (emit (input_calls evs @ calls) s')) (log_events N tmp jif evs m)))"

subsection \<open>Loading and unloading\<close>

definition s3c_ts_init :: "int \<times> ts" where
  "s3c_ts_init =
     (0, enter_wait_pen_down_mode
        \<lparr>kt = [Input_allocate_device ''s3c_ts_dev'',
               Other ''set_bit evbit'' 1, Other ''set_bit evbit'' 3, Other ''set_bit keybit'' 330,
               Other ''input_set_abs_params ABS_X'' 0x3ff, Other ''input_set_abs_params ABS_Y'' 0x3ff,
               Other ''input_set_abs_params ABS_PRESSURE'' 1, Input_register_device ''s3c_ts_dev'',
               Other ''clk_enable adc'' 0, Ioremap 0x58000000 24,
               Request_irq ''IRQ_TC'' 0, Request_irq ''IRQ_ADC'' 0,
               Other ''init_timer ts_timer'' 0, Add_timer ''ts_timer''],
         adccon = push_bit 14 1 OR push_bit 6 49, adctsc = 0, adcdly = 0xffff,
         ts_cnt = 0, ts_x = [0, 0, 0, 0], ts_y = [0, 0, 0, 0]\<rparr>)"

definition s3c_ts_exit :: "kcall list" where
  "s3c_ts_exit =
     [Free_irq ''IRQ_TC'' 0, Free_irq ''IRQ_ADC'' 0, Iounmap 0x58000000,
      Input_unregister_device ''s3c_ts_dev'', Input_free_device ''s3c_ts_dev'', Del_timer ''ts_timer'']"

text \<open>
  The recording driver first allocates the replay buffer, and after the touch screen registers the
  character device \<^verbatim>\<open>input_emu\<close>. \<^verbatim>\<open>alloc\<close> says whether the allocation succeeds and \<^verbatim>\<open>major\<close> is the
  number that \<^verbatim>\<open>register_chrdev\<close> hands out.
\<close>

definition s3c_ts_init_rec :: "bool \<times> nat \<Rightarrow> int \<times> kcall list" where
  "s3c_ts_init_rec e = (case e of (alloc, major) \<Rightarrow>
     if \<not> alloc then (- EIO, [])
     else (0, Kmalloc ''replay_buf'' (1024 * 1024) # kt (snd s3c_ts_init)
              @ [Register_chrdev major, Class_create ''input_replay'', Device_create major 0,
                 Other ''init_timer replay_timer'' 0]))"

definition s3c_ts_exit_rec :: "bool \<times> nat \<Rightarrow> kcall list" where
  "s3c_ts_exit_rec e = (case e of (alloc, major) \<Rightarrow>
     [Kfree ''replay_buf'', Device_destroy major 0, Class_destroy ''input_replay'',
      Unregister_chrdev major] @ s3c_ts_exit)"

interpretation ts_life: lifecycle "\<lambda>_. (fst s3c_ts_init, kt (snd s3c_ts_init))" "\<lambda>_. s3c_ts_exit"
  by unfold_locales (simp_all add: s3c_ts_init_def s3c_ts_exit_def enter_wait_pen_down_mode_def)

interpretation ts_rec_life: lifecycle s3c_ts_init_rec s3c_ts_exit_rec
  by unfold_locales
     (auto simp: s3c_ts_init_rec_def s3c_ts_exit_rec_def s3c_ts_init_def s3c_ts_exit_def
        enter_wait_pen_down_mode_def split: if_splits)

subsection \<open>The filter bounds the jumps\<close>

lemma sdiv_pos: "0 \<le> a \<Longrightarrow> 0 < b \<Longrightarrow> (a :: int) sdiv b = a div b"
  by (simp add: signed_divide_int_def sgn_if)

lemma filter_iff:
  "s3c_filter_ts x y \<longleftrightarrow>
     \<bar>x ! 2 - (x ! 0 + x ! 1) sdiv 2\<bar> \<le> 10 \<and> \<bar>y ! 2 - (y ! 0 + y ! 1) sdiv 2\<bar> \<le> 10
   \<and> \<bar>x ! 3 - (x ! 1 + x ! 2) sdiv 2\<bar> \<le> 10 \<and> \<bar>y ! 3 - (y ! 1 + y ! 2) sdiv 2\<bar> \<le> 10"
  by (auto simp: s3c_filter_ts_def ERR_LIMIT_def Let_def)

subsection \<open>The controller as a state machine\<close>

text \<open>
  What the hardware may do next depends on what the driver left in the registers: the pen
  interrupt is raised in the two waiting modes, the conversion interrupt ends a conversion that was
  started (the hardware then clears the start bit), and the timer expires once when it is pending.
\<close>

record ts_sys =
  dev :: ts
  timer_pending :: bool

inductive ts_step :: "ts_sys \<Rightarrow> ts_sys \<Rightarrow> bool" where
  pen: "adctsc (dev s) = 0xd3 \<or> adctsc (dev s) = 0x1d3 \<Longrightarrow>
     ts_step s (s\<lparr>dev := pen_down_up_irq dat0 (dev s)\<rparr>)"
| adc: "bit (adccon (dev s)) 0 \<Longrightarrow>
     adc_irq adcdat0 adcdat1 dat0 ((dev s)\<lparr>adccon := clear_mask 1 (adccon (dev s))\<rparr>) = Some d \<Longrightarrow>
     ts_step s (s\<lparr>dev := d,
        timer_pending := timer_pending s \<or> Mod_timer_HZ ''ts_timer'' 100 \<in> set (drop (length (kt (dev s))) (kt d))\<rparr>)"
| timer: "timer_pending s \<Longrightarrow>
     ts_step s (s\<lparr>dev := s3c_ts_timer_function dat0 (dev s), timer_pending := False\<rparr>)"

inductive ts_reachable :: "ts_sys \<Rightarrow> bool" where
  start: "ts_reachable \<lparr>dev = snd s3c_ts_init, timer_pending = True\<rparr>"
| step: "ts_reachable s \<Longrightarrow> ts_step s t \<Longrightarrow> ts_reachable t"

inductive_cases ts_stepE: "ts_step s t"

definition coords_ok :: "int list \<Rightarrow> bool" where
  "coords_ok xs \<longleftrightarrow> length xs = 4 \<and> (\<forall>v \<in> set xs. 0 \<le> v \<and> v < 1024)"

text \<open>Every waiting mode that is left only by the timer or by a conversion has it on the way.\<close>

definition ts_inv :: "ts_sys \<Rightarrow> bool" where
  "ts_inv s \<longleftrightarrow> ts_cnt (dev s) < 4 \<and> coords_ok (ts_x (dev s)) \<and> coords_ok (ts_y (dev s))
     \<and> (adctsc (dev s) = 0xd3
        \<or> adctsc (dev s) = 0x1d3 \<and> timer_pending s
        \<or> adctsc (dev s) = 0xc \<and> bit (adccon (dev s)) 0)"

lemma measure_mode: "push_bit 3 1 OR push_bit 2 1 = (0xc :: u32)"
  by simp

lemmas ts_defs = enter_wait_pen_down_mode_def enter_wait_pen_up_mode_def enter_measure_xy_mode_def
  start_adc_def measure_mode set_mask_def

lemma check_pen_fields:
  assumes "ts_check_pen dat0 s = (s', evs)"
  shows "ts_cnt s' = ts_cnt s \<and> ts_x s' = ts_x s \<and> ts_y s' = ts_y s \<and> kt s' = kt s
    \<and> (adctsc s' = 0xd3 \<or> adctsc s' = 0xc \<and> bit (adccon s') 0)"
  using assms by (auto simp: ts_check_pen_def ts_defs bit_or_iff split: if_splits)

lemma sample_range: "0 \<le> uint (w AND 0x3ff :: u32) \<and> uint (w AND 0x3ff :: u32) < 1024"
proof -
  have "(0x3ff :: u32) = mask 10" by (simp add: mask_eq_exp_minus_1)
  then have "w AND 0x3ff = take_bit 10 w" by (simp add: take_bit_eq_mask)
  then show ?thesis using take_bit_int_less_exp [of 10 "uint w"]
    by (simp add: unsigned_take_bit_eq)
qed

lemma coords_ok_update: "coords_ok xs \<Longrightarrow> 0 \<le> v \<Longrightarrow> v < 1024 \<Longrightarrow> coords_ok (xs[i := v])"
  by (auto simp: coords_ok_def dest: set_update_subset_insert [THEN subsetD])

lemma adc_sample_fields:
  assumes "adc_sample a0 a1 dat0 s = Some (s', evs, calls)"
    and "ts_cnt s < 4" "coords_ok (ts_x s)" "coords_ok (ts_y s)"
  shows "ts_cnt s' < 4 \<and> coords_ok (ts_x s') \<and> coords_ok (ts_y s') \<and> kt s' = kt s
    \<and> (adctsc s' = 0xd3 \<or> adctsc s' = 0x1d3 \<and> calls = [Mod_timer_HZ ''ts_timer'' 100]
       \<or> adctsc s' = 0xc \<and> bit (adccon s') 0)"
  using assms sample_range
  by (auto simp: adc_sample_def Let_def ts_defs bit_or_iff coords_ok_update split: if_splits)

lemma adc_sample_defined:
  assumes "ts_cnt s < 4" "coords_ok (ts_x s)" "coords_ok (ts_y s)"
  shows "adc_sample a0 a1 dat0 s \<noteq> None"
  using assms by (auto simp: adc_sample_def Let_def coords_ok_def)

lemma ts_inv_init: "ts_inv \<lparr>dev = snd s3c_ts_init, timer_pending = True\<rparr>"
  by (simp add: ts_inv_def s3c_ts_init_def ts_defs coords_ok_def)

lemma emit_fields [simp]:
  "adccon (emit cs s) = adccon s" "adctsc (emit cs s) = adctsc s" "ts_cnt (emit cs s) = ts_cnt s"
  "ts_x (emit cs s) = ts_x s" "ts_y (emit cs s) = ts_y s"
  by (simp_all add: emit_def)

text \<open>The part of the invariant that the driver keeps by itself, and its three ways of waiting.\<close>

definition samples_ok :: "ts \<Rightarrow> bool" where
  "samples_ok s \<longleftrightarrow> ts_cnt s < 4 \<and> coords_ok (ts_x s) \<and> coords_ok (ts_y s)"

definition waits :: "bool \<Rightarrow> ts \<Rightarrow> bool" where
  "waits p s \<longleftrightarrow> adctsc s = 0xd3 \<or> adctsc s = 0x1d3 \<and> p \<or> adctsc s = 0xc \<and> bit (adccon s) 0"

lemma ts_inv_alt: "ts_inv s \<longleftrightarrow> samples_ok (dev s) \<and> waits (timer_pending s) (dev s)"
  by (auto simp: ts_inv_def samples_ok_def waits_def)

lemma samples_emit [simp]: "samples_ok (emit cs s) = samples_ok s" "waits p (emit cs s) = waits p s"
  by (simp_all add: samples_ok_def waits_def)

lemma check_pen_inv:
  assumes "samples_ok s"
  shows "samples_ok (fst (ts_check_pen dat0 s)) \<and> waits p (fst (ts_check_pen dat0 s))"
proof -
  obtain s' evs where e: "ts_check_pen dat0 s = (s', evs)" by (cases "ts_check_pen dat0 s")
  from check_pen_fields [OF e] assms show ?thesis
    by (auto simp: e samples_ok_def waits_def)
qed

lemma handler_inv:
  assumes "samples_ok s"
  shows "samples_ok (pen_down_up_irq dat0 s)" "waits p (pen_down_up_irq dat0 s)"
    "samples_ok (s3c_ts_timer_function dat0 s)" "waits p (s3c_ts_timer_function dat0 s)"
  using check_pen_inv [OF assms, of dat0 p]
  by (auto simp: pen_down_up_irq_def s3c_ts_timer_function_def split: prod.splits)

lemma adc_irq_inv:
  assumes "adc_irq a0 a1 dat0 s = Some d" "samples_ok s"
  shows "samples_ok d \<and>
    waits (p \<or> Mod_timer_HZ ''ts_timer'' 100 \<in> set (drop (length (kt s)) (kt d))) d"
proof -
  obtain s' evs calls where a: "adc_sample a0 a1 dat0 s = Some (s', evs, calls)"
    and d: "d = emit (input_calls evs @ calls) s'"
    using assms(1) by (auto simp: adc_irq_def split: option.splits prod.splits)
  have s: "ts_cnt s < 4" "coords_ok (ts_x s)" "coords_ok (ts_y s)"
    using assms(2) by (simp_all add: samples_ok_def)
  note f = adc_sample_fields [OF a s]
  have "drop (length (kt s)) (kt d) = input_calls evs @ calls"
    using f d by simp
  moreover have "calls = [Mod_timer_HZ ''ts_timer'' 100] \<or> adctsc s' \<noteq> 0x1d3"
    using f by auto
  ultimately show ?thesis
    using f d by (auto simp: samples_ok_def waits_def)
qed

lemma ts_inv_step:
  assumes "ts_step s t" "ts_inv s"
  shows "ts_inv t"
  using assms(1)
proof (cases rule: ts_step.cases)
  case (pen dat0)
  with assms(2) show ?thesis by (simp add: ts_inv_alt handler_inv)
next
  case (timer dat0)
  with assms(2) show ?thesis by (simp add: ts_inv_alt handler_inv)
next
  case (adc a0 a1 dat0 d)
  let ?s = "(dev s)\<lparr>adccon := clear_mask 1 (adccon (dev s))\<rparr>"
  have "samples_ok ?s" using assms(2) by (simp add: ts_inv_alt samples_ok_def)
  from adc_irq_inv [OF adc(3) this, of "timer_pending s"] adc(1) show ?thesis
    by (simp add: ts_inv_alt)
qed

lemma ts_reachable_inv: "ts_reachable s \<Longrightarrow> ts_inv s"
  by (induction rule: ts_reachable.induct) (simp_all add: ts_inv_init ts_inv_step)

subsection \<open>What is reported and what is logged\<close>

definition stamped :: "(nat \<Rightarrow> u32) \<Rightarrow> ts_event list \<Rightarrow> event list" where
  "stamped jif evs = map (\<lambda>(i, ty, co, v). (jif i, ty, co, v)) (zip [0..<length evs] evs)"

lemma stamped_Cons: "stamped jif ((ty, co, v) # evs) = (jif 0, ty, co, v) # stamped (\<lambda>i. jif (Suc i)) evs"
proof -
  have "zip [Suc 0..<Suc (length evs)] evs = map (\<lambda>(i, e). (Suc i, e)) (zip [0..<length evs] evs)"
    by (simp add: map_Suc_upt [symmetric] zip_map1 del: upt_Suc)
  then show ?thesis
    by (simp add: stamped_def upt_conv_Cons case_prod_beta comp_def del: upt_Suc)
qed

lemma length_event_line: "val_ok v \<Longrightarrow> length (event_line t ty c v) < 60"
  using length_fmt_d [of v] by (simp add: event_line_def)

lemma log_events_view:
  assumes "mylog_inv N m" "\<forall>(ty, co, v) \<in> set evs. val_ok v" "60 \<le> tmp"
  shows "\<exists>m'. log_events N tmp jif evs m = Some m' \<and> mylog_inv N m'
    \<and> log_view N m' = keep (N - 1) (log_view N m @ concat (map event_text (stamped jif evs)))"
  using assms(1,2)
proof (induction evs arbitrary: jif m)
  case Nil
  then show ?case using view_lengths by (auto simp: stamped_def)
next
  case (Cons e evs)
  obtain ty co v where e: "e = (ty, co, v)" by (cases e)
  let ?m = "fold (mylog_putc N) (event_line (jif 0) ty co v) m"
  have "val_ok v" using Cons.prems(2) e by simp
  then have "length (event_line (jif 0) ty co v) < tmp"
    using assms(3) by (blast intro: length_event_line less_le_trans)
  then have w: "write_input_event_to_file N tmp (jif 0) ty co v m = Some ?m"
    by (simp add: write_input_event_to_file_def myprintk_def)
  note put = mylog.inv_puts [OF Cons.prems(1)] mylog.view_puts [OF Cons.prems(1)]
  have rest: "\<forall>(ty, co, v) \<in> set evs. val_ok v" using Cons.prems(2) by simp
  have "\<exists>m'. log_events N tmp (\<lambda>i. jif (Suc i)) evs ?m = Some m' \<and> mylog_inv N m' \<and> log_view N m' =
      keep (N - 1) (log_view N ?m @ concat (map event_text (stamped (\<lambda>i. jif (Suc i)) evs)))"
    by (rule Cons.IH [OF put(1) rest])
  then obtain m' where m': "log_events N tmp (\<lambda>i. jif (Suc i)) evs ?m = Some m'" "mylog_inv N m'"
    "log_view N m' = keep (N - 1) (log_view N ?m @ concat (map event_text (stamped (\<lambda>i. jif (Suc i)) evs)))"
    by blast
  have "log_view N m' = keep (N - 1) (log_view N m @ concat (map event_text (stamped jif (e # evs))))"
    by (simp add: m'(3) put(2) e stamped_Cons event_text_def keep_append_keep)
  then show ?case using w m'(1,2) by (simp add: e)
qed

subsection \<open>Properties\<close>

text \<open>
  C30. Whatever the pen, the converter and the timer do, in whatever order, the touch screen driver
  never stalls: the controller always waits for the pen to go down, for the pen to go up with the
  timer armed, or for a conversion that was started. At most three samples are pending, they are
  10-bit numbers, and a conversion interrupt never stores outside the sample arrays.
\<close>

theorem ts_never_stuck:
  assumes "ts_reachable s"
  shows "ts_cnt (dev s) < 4 \<and> coords_ok (ts_x (dev s)) \<and> coords_ok (ts_y (dev s))
    \<and> (adctsc (dev s) = 0xd3
       \<or> adctsc (dev s) = 0x1d3 \<and> timer_pending s
       \<or> adctsc (dev s) = 0xc \<and> bit (adccon (dev s)) 0)
    \<and> adc_irq adcdat0 adcdat1 dat0 (dev s) \<noteq> None"
proof -
  have "ts_inv s" using assms by (rule ts_reachable_inv)
  moreover from this have "adc_sample adcdat0 adcdat1 dat0 (dev s) \<noteq> None"
    by (intro adc_sample_defined) (simp_all add: ts_inv_def)
  ultimately show ?thesis
    by (auto simp: ts_inv_def adc_irq_def)
qed

theorem ts_never_stuck_witness:
  "adc_irq 0 0 0 (pen_down_up_irq 0 (snd s3c_ts_init)) \<noteq> None"
proof -
  have "ts_step \<lparr>dev = snd s3c_ts_init, timer_pending = True\<rparr>
      \<lparr>dev = pen_down_up_irq 0 (snd s3c_ts_init), timer_pending = True\<rparr>"
    using ts_step.pen [of "\<lparr>dev = snd s3c_ts_init, timer_pending = True\<rparr>" 0]
    by (simp add: s3c_ts_init_def enter_wait_pen_down_mode_def)
  then have "ts_reachable \<lparr>dev = pen_down_up_irq 0 (snd s3c_ts_init), timer_pending = True\<rparr>"
    by (rule ts_reachable.step [OF ts_reachable.start])
  from ts_never_stuck [OF this, of 0 0 0] show ?thesis by simp
qed

text \<open>A measurement is four conversions; the coordinates are the low ten bits of the registers.\<close>

fun adc_irqs :: "(u32 \<times> u32 \<times> u32) list \<Rightarrow> ts \<Rightarrow> ts option" where
  "adc_irqs [] s = Some s"
| "adc_irqs ((a, b, d) # rs) s = Option.bind (adc_irq a b d s) (adc_irqs rs)"

definition xs_of :: "(u32 \<times> u32 \<times> u32) list \<Rightarrow> int list" where
  "xs_of rs = map (\<lambda>(a, b, d). uint (a AND 0x3ff)) rs"

definition ys_of :: "(u32 \<times> u32 \<times> u32) list \<Rightarrow> int list" where
  "ys_of rs = map (\<lambda>(a, b, d). uint (b AND 0x3ff)) rs"

text \<open>Each of the last two samples is near the mean of the two before it.\<close>

definition steady :: "int list \<Rightarrow> bool" where
  "steady xs \<longleftrightarrow> \<bar>xs ! 2 - (xs ! 0 + xs ! 1) div 2\<bar> \<le> 10 \<and> \<bar>xs ! 3 - (xs ! 1 + xs ! 2) div 2\<bar> \<le> 10"

lemma filter_steady:
  assumes "coords_ok xs" "coords_ok ys"
  shows "s3c_filter_ts xs ys \<longleftrightarrow> steady xs \<and> steady ys"
proof -
  have pos: "0 \<le> xs ! i" "0 \<le> ys ! i" if "i < 4" for i
    using assms that by (auto simp: coords_ok_def)
  show ?thesis
    using pos [of 0] pos [of 1] pos [of 2] by (auto simp: filter_iff steady_def sdiv_pos)
qed

lemma adc_irq_store:
  assumes "\<not> pen_is_up d" "ts_cnt s < 3" "length (ts_x s) = 4" "length (ts_y s) = 4"
  shows "adc_irq a b d s = Some (start_adc (enter_measure_xy_mode
    (s\<lparr>ts_x := (ts_x s)[ts_cnt s := uint (a AND 0x3ff)],
       ts_y := (ts_y s)[ts_cnt s := uint (b AND 0x3ff)], ts_cnt := Suc (ts_cnt s)\<rparr>)))"
  using assms by (simp add: adc_irq_def adc_sample_def Let_def input_calls_def)

lemma adc_irq_last:
  assumes "\<not> pen_is_up d" "ts_cnt s = 3" "length (ts_x s) = 4" "length (ts_y s) = 4"
    and x: "x = (ts_x s)[3 := uint (a AND 0x3ff)]" and y: "y = (ts_y s)[3 := uint (b AND 0x3ff)]"
  shows "adc_irq a b d s = Some (emit
     (input_calls (if s3c_filter_ts x y then position_events x y else []) @ [Mod_timer_HZ ''ts_timer'' 100])
     (enter_wait_pen_up_mode (s\<lparr>ts_x := x, ts_y := y, ts_cnt := 0\<rparr>)))"
  using assms(1-4) by (simp add: adc_irq_def adc_sample_def Let_def x y)

lemma four_samples:
  assumes "ts_cnt s = 0" "length (ts_x s) = 4" "length (ts_y s) = 4"
    and rs: "rs = [(a0, b0, d0), (a1, b1, d1), (a2, b2, d2), (a3, b3, d3)]"
    and "\<not> pen_is_up d0" "\<not> pen_is_up d1" "\<not> pen_is_up d2" "\<not> pen_is_up d3"
  shows "\<exists>s'. adc_irqs rs s = Some s' \<and> ts_cnt s' = 0 \<and> adctsc s' = 0x1d3
    \<and> ts_x s' = xs_of rs \<and> ts_y s' = ys_of rs
    \<and> kt s' = kt s @ input_calls (if s3c_filter_ts (xs_of rs) (ys_of rs)
           then position_events (xs_of rs) (ys_of rs) else []) @ [Mod_timer_HZ ''ts_timer'' 100]"
proof -
  obtain x0 x1 x2 x3 where x: "ts_x s = [x0, x1, x2, x3]"
    using assms(2) by (auto simp: numeral_eq_Suc length_Suc_conv)
  obtain y0 y1 y2 y3 where y: "ts_y s = [y0, y1, y2, y3]"
    using assms(3) by (auto simp: numeral_eq_Suc length_Suc_conv)
  show ?thesis
    using assms(1,5-8)
    by (simp add: rs x y adc_irq_store adc_irq_last start_adc_def enter_measure_xy_mode_def
        enter_wait_pen_up_mode_def xs_of_def ys_of_def)
qed

lemma coords_xs_of: "length rs = 4 \<Longrightarrow> coords_ok (xs_of rs)" "length rs = 4 \<Longrightarrow> coords_ok (ys_of rs)"
  using sample_range by (auto simp: coords_ok_def xs_of_def ys_of_def)

lemma coords_list:
  assumes "coords_ok xs"
  obtains x0 x1 x2 x3 where "xs = [x0, x1, x2, x3]" "0 \<le> x0" "0 \<le> x1" "0 \<le> x2" "0 \<le> x3"
    "x0 < 1024" "x1 < 1024" "x2 < 1024" "x3 < 1024"
  using assms by (auto simp: coords_ok_def numeral_eq_Suc length_Suc_conv)

lemma quarter_bounds: "0 \<le> n \<Longrightarrow> n < 4096 \<Longrightarrow> 0 \<le> n div 4 \<and> n div 4 < (1024 :: int)"
  by linarith

lemma position_average:
  assumes "coords_ok xs" "coords_ok ys"
  shows "position_events xs ys =
    [ABS_X_ev (sum_list xs div 4), ABS_Y_ev (sum_list ys div 4), ABS_PRESSURE_ev 1, BTN_TOUCH_ev 1, SYN_REPORT_ev]"
    and "0 \<le> sum_list xs div 4 \<and> sum_list xs div 4 < 1024"
proof -
  obtain x0 x1 x2 x3 where x: "xs = [x0, x1, x2, x3]" "0 \<le> x0" "0 \<le> x1" "0 \<le> x2" "0 \<le> x3"
    "x0 < 1024" "x1 < 1024" "x2 < 1024" "x3 < 1024" using assms(1) by (rule coords_list)
  obtain y0 y1 y2 y3 where y: "ys = [y0, y1, y2, y3]" "0 \<le> y0" "0 \<le> y1" "0 \<le> y2" "0 \<le> y3"
    using assms(2) by (rule coords_list)
  show "position_events xs ys =
    [ABS_X_ev (sum_list xs div 4), ABS_Y_ev (sum_list ys div 4), ABS_PRESSURE_ev 1, BTN_TOUCH_ev 1, SYN_REPORT_ev]"
    using x y by (simp add: position_events_def sdiv_pos add.assoc)
  show "0 \<le> sum_list xs div 4 \<and> sum_list xs div 4 < 1024"
    using quarter_bounds [of "sum_list xs"] x by simp
qed

text \<open>
  C31. A measurement taken with the pen down is four conversions. After the fourth the driver waits
  for the pen to go up, arms the 10 ms timer, and reports the average of the four positions
  exactly when the samples are steady on both axes; otherwise it reports nothing. What it reports
  is within the range 0 to 1023 that the device announced.
\<close>

theorem adc_reports_average:
  assumes "ts_cnt s = 0" "length (ts_x s) = 4" "length (ts_y s) = 4"
    and "length rs = 4" "\<forall>(a, b, d) \<in> set rs. \<not> bit d 15"
  shows "\<exists>s'. adc_irqs rs s = Some s' \<and> ts_cnt s' = 0 \<and> adctsc s' = 0x1d3
    \<and> kt s' = kt s @ (if steady (xs_of rs) \<and> steady (ys_of rs)
        then input_calls [ABS_X_ev (sum_list (xs_of rs) div 4), ABS_Y_ev (sum_list (ys_of rs) div 4),
               ABS_PRESSURE_ev 1, BTN_TOUCH_ev 1, SYN_REPORT_ev]
        else []) @ [Mod_timer_HZ ''ts_timer'' 100]
    \<and> 0 \<le> sum_list (xs_of rs) div 4 \<and> sum_list (xs_of rs) div 4 < 1024
    \<and> 0 \<le> sum_list (ys_of rs) div 4 \<and> sum_list (ys_of rs) div 4 < 1024"
proof -
  obtain a0 b0 d0 a1 b1 d1 a2 b2 d2 a3 b3 d3
    where rs: "rs = [(a0, b0, d0), (a1, b1, d1), (a2, b2, d2), (a3, b3, d3)]"
    using assms(4) by (auto simp: numeral_eq_Suc length_Suc_conv)
  have up: "pen_is_up d \<longleftrightarrow> bit d 15" for d
    by (simp add: pen_is_up_def and_one_bit del: push_bit_of_1)
  have down: "\<not> pen_is_up d0" "\<not> pen_is_up d1" "\<not> pen_is_up d2" "\<not> pen_is_up d3"
    using assms(5) by (simp_all add: rs up)
  note c = coords_xs_of [OF assms(4)]
  note p = position_average [OF c] position_average(2) [OF c(2) c(1)]
  from four_samples [OF assms(1-3) rs down] p(1) filter_steady [OF c] show ?thesis
    by (auto simp: p(2,3) input_calls_def)
qed

theorem adc_reports_average_witness:
  "\<exists>s'. adc_irqs [(0xf00a, 3, 0), (12, 5, 0), (11, 4, 0), (11, 4, 0)] (snd s3c_ts_init) = Some s'
    \<and> Input_event ''s3c_ts_dev'' 3 0 11 \<in> set (kt s')"
  using adc_reports_average [of "snd s3c_ts_init" "[(0xf00a, 3, 0), (12, 5, 0), (11, 4, 0), (11, 4, 0)]"]
  by (auto simp: s3c_ts_init_def enter_wait_pen_down_mode_def xs_of_def ys_of_def steady_def
      input_calls_def report_def ABS_X_ev_def simp del: adc_irqs.simps)

text \<open>Any sequence of interrupts and timer ticks, each with the clock of its events.\<close>

datatype ts_irq = Pen u32 | Adc u32 u32 u32 | Tick u32

fun plain_irq :: "ts_irq \<Rightarrow> ts \<Rightarrow> ts option" where
  "plain_irq (Pen d) s = Some (pen_down_up_irq d s)"
| "plain_irq (Adc a b d) s = adc_irq a b d s"
| "plain_irq (Tick d) s = Some (s3c_ts_timer_function d s)"

fun rec_irq :: "nat \<Rightarrow> nat \<Rightarrow> (nat \<Rightarrow> u32) \<Rightarrow> ts_irq \<Rightarrow> ts \<times> mylog \<Rightarrow> (ts \<times> mylog) option" where
  "rec_irq N tmp jif (Pen d) sm = pen_down_up_irq_rec N tmp jif d sm"
| "rec_irq N tmp jif (Adc a b d) sm = adc_irq_rec N tmp jif a b d sm"
| "rec_irq N tmp jif (Tick d) sm = s3c_ts_timer_function_rec N tmp jif d sm"

fun plain_run :: "(ts_irq \<times> (nat \<Rightarrow> u32)) list \<Rightarrow> ts \<Rightarrow> ts option" where
  "plain_run [] s = Some s"
| "plain_run ((i, jif) # is) s = Option.bind (plain_irq i s) (plain_run is)"

fun rec_run :: "nat \<Rightarrow> nat \<Rightarrow> (ts_irq \<times> (nat \<Rightarrow> u32)) list \<Rightarrow> ts \<times> mylog \<Rightarrow> (ts \<times> mylog) option" where
  "rec_run N tmp [] sm = Some sm"
| "rec_run N tmp ((i, jif) # is) sm = Option.bind (rec_irq N tmp jif i sm) (rec_run N tmp is)"

lemma val_ok_small: "0 \<le> v \<Longrightarrow> v < 1024 \<Longrightarrow> val_ok v"
  by (simp add: val_ok_def)

lemma release_vals: "\<forall>(ty, co, v) \<in> set release_events. val_ok v"
  by (simp add: release_events_def ABS_PRESSURE_ev_def BTN_TOUCH_ev_def SYN_REPORT_ev_def val_ok_def)

lemma position_vals:
  assumes "coords_ok x" "coords_ok y"
  shows "\<forall>(ty, co, v) \<in> set (position_events x y). val_ok v"
  using position_average(2) [OF assms] position_average(2) [OF assms(2,1)]
  by (auto simp: position_average(1) [OF assms] ABS_X_ev_def ABS_Y_ev_def
      ABS_PRESSURE_ev_def BTN_TOUCH_ev_def SYN_REPORT_ev_def val_ok_def)

lemma adc_sample_vals:
  assumes "adc_sample a b d s = Some (s', evs, calls)" "samples_ok s"
  shows "\<forall>(ty, co, v) \<in> set evs. val_ok v"
proof -
  have c: "coords_ok ((ts_x s)[i := uint (a AND 0x3ff)])" "coords_ok ((ts_y s)[i := uint (b AND 0x3ff)])" for i
    using assms(2) sample_range [of a] sample_range [of b] by (simp_all add: samples_ok_def coords_ok_update)
  show ?thesis
    using assms(1) position_vals [OF c, of 3 3] release_vals
    by (fastforce simp: adc_sample_def Let_def split: if_splits)
qed

lemma check_pen_vals: "\<forall>(ty, co, v) \<in> set (snd (ts_check_pen d s)). val_ok v"
  using release_vals by (auto simp: ts_check_pen_def)

text \<open>Both drivers are the same handler, followed by the same log of its events.\<close>

lemma rec_irq_plain:
  assumes "samples_ok s"
  obtains s' evs calls where "plain_irq i s = Some (emit (input_calls evs @ calls) s')"
    and "kt s' = kt s" "reported calls = []" "\<forall>(ty, co, v) \<in> set evs. val_ok v" "samples_ok s'"
    and "\<And>N tmp jif m. rec_irq N tmp jif i (s, m)
           = map_option (Pair (emit (input_calls evs @ calls) s')) (log_events N tmp jif evs m)"
proof (cases "\<exists>a b d. i = Adc a b d")
  case True
  then obtain a b d where i: "i = Adc a b d" by blast
  have s: "ts_cnt s < 4" "coords_ok (ts_x s)" "coords_ok (ts_y s)"
    using assms by (simp_all add: samples_ok_def)
  from adc_sample_defined [OF s] obtain s' evs calls where a: "adc_sample a b d s = Some (s', evs, calls)"
    by fastforce
  have "reported calls = []"
    using a by (auto simp: adc_sample_def Let_def reported_def split: if_splits)
  then show thesis
    using that [of evs calls s'] a adc_sample_fields [OF a s] adc_sample_vals [OF a assms]
    by (simp add: i adc_irq_def adc_irq_rec_def samples_ok_def)
next
  case False
  then obtain d where i: "i = Pen d \<or> i = Tick d" by (cases i) auto
  obtain s' evs where c: "ts_check_pen d s = (s', evs)" by (cases "ts_check_pen d s")
  have "samples_ok s'" "\<forall>(ty, co, v) \<in> set evs. val_ok v"
    using check_pen_inv [OF assms, of d] check_pen_vals [of d s] by (simp_all add: c)
  then show thesis
    using that [of evs "[]" s'] c i check_pen_fields [OF c]
    by (auto simp: pen_down_up_irq_def pen_down_up_irq_rec_def s3c_ts_timer_function_def
        s3c_ts_timer_function_rec_def reported_def)
qed

lemma reported_input_calls: "reported (input_calls evs) = map report_event (stamped jif evs)"
proof -
  have "input_calls evs = map report_event (stamped jif evs)"
    by (induction evs arbitrary: jif)
       (auto simp: input_calls_def stamped_Cons report_event_def, simp add: stamped_def)
  then show ?thesis by simp
qed

text \<open>The log of a run is made of the lines of the reported events, each stamped with a clock of the run.\<close>

definition clocks_ok :: "(ts_irq \<times> (nat \<Rightarrow> u32)) list \<Rightarrow> bool" where
  "clocks_ok is \<longleftrightarrow> (\<forall>(i, jif) \<in> set is. \<forall>n. jif n \<noteq> 0)"

lemma stamped_fields:
  assumes "e \<in> set (stamped jif evs)"
  shows "\<exists>n ty co v. e = (jif n, ty, co, v) \<and> (ty, co, v) \<in> set evs"
  using assms by (auto simp: stamped_def dest!: set_zip_rightD)

lemma rec_run_logs:
  assumes "samples_ok s" "mylog_inv N m" "60 \<le> tmp"
  shows "\<exists>s' m' es. plain_run is s = Some s' \<and> rec_run N tmp is (s, m) = Some (s', m') \<and> mylog_inv N m'
    \<and> reported (kt s') = reported (kt s) @ map report_event es
    \<and> log_view N m' = keep (N - 1) (log_view N m @ concat (map event_text es))
    \<and> (\<forall>e \<in> set es. val_ok (snd (snd (snd e))) \<and> (clocks_ok is \<longrightarrow> fst e \<noteq> 0))"
  using assms(1,2)
proof (induction "is" arbitrary: s m)
  case Nil
  have "length (log_view N m) \<le> N - 1" using Nil(2) by (rule mylog.view_bounded)
  then show ?case using Nil(2) by (auto intro!: exI [of _ "[]"])
next
  case (Cons x xs)
  obtain i jif where x: "x = (i, jif)" by (cases x)
  obtain s1 evs calls where p: "plain_irq i s = Some (emit (input_calls evs @ calls) s1)"
    "kt s1 = kt s" "reported calls = []" "\<forall>(ty, co, v) \<in> set evs. val_ok v" "samples_ok s1"
    "\<And>N tmp jif m. rec_irq N tmp jif i (s, m)
       = map_option (Pair (emit (input_calls evs @ calls) s1)) (log_events N tmp jif evs m)"
    using rec_irq_plain [OF Cons.prems(1), of i thesis] by blast
  obtain m1 where m1: "log_events N tmp jif evs m = Some m1" "mylog_inv N m1"
    "log_view N m1 = keep (N - 1) (log_view N m @ concat (map event_text (stamped jif evs)))"
    using log_events_view [OF Cons.prems(2) p(4) assms(3), of jif] by blast
  let ?s = "emit (input_calls evs @ calls) s1"
  obtain s' m' es where r: "plain_run xs ?s = Some s'" "rec_run N tmp xs (?s, m1) = Some (s', m')" "mylog_inv N m'"
    "reported (kt s') = reported (kt ?s) @ map report_event es"
    "log_view N m' = keep (N - 1) (log_view N m1 @ concat (map event_text es))"
    "\<forall>e \<in> set es. val_ok (snd (snd (snd e))) \<and> (clocks_ok xs \<longrightarrow> fst e \<noteq> 0)"
    using Cons.IH [of ?s m1] p(5) m1(2) by auto
  have "reported (kt s') = reported (kt s) @ map report_event (stamped jif evs @ es)"
    using r(4) p(2,3) by (simp add: reported_input_calls [of evs jif])
  moreover have "log_view N m' = keep (N - 1) (log_view N m @ concat (map event_text (stamped jif evs @ es)))"
    using r(5) by (simp add: m1(3) keep_append_keep)
  moreover have "plain_run (x # xs) s = Some s'" "rec_run N tmp (x # xs) (s, m) = Some (s', m')"
    using r(1,2) by (simp_all add: x p m1(1))
  moreover have "\<forall>e \<in> set (stamped jif evs). val_ok (snd (snd (snd e))) \<and> (clocks_ok (x # xs) \<longrightarrow> fst e \<noteq> 0)"
    using p(4) by (auto simp: x clocks_ok_def dest!: stamped_fields)
  moreover have "clocks_ok (x # xs) \<Longrightarrow> clocks_ok xs" by (simp add: clocks_ok_def)
  ultimately show ?case using r(3,6) by (metis UnE set_append)
qed

text \<open>
  C32. Whatever interrupts and timer ticks arrive, the recording driver does what the plain driver
  does, never overruns its text buffer, and its log is faithful: there is one list of time-stamped
  events such that the input subsystem was given exactly these events, and the log holds the last
  \<^verbatim>\<open>N - 1\<close> bytes of its old contents followed by their lines.
\<close>

theorem recording_faithful:
  assumes "samples_ok s" "mylog_inv N m" "60 \<le> tmp"
  shows "\<exists>s' m' es. plain_run is s = Some s' \<and> rec_run N tmp is (s, m) = Some (s', m')
    \<and> reported (kt s') = reported (kt s) @ map report_event es
    \<and> log_view N m' = keep (N - 1) (log_view N m @ concat (map event_text es))"
  using rec_run_logs [OF assms] by blast

theorem recording_faithful_witness:
  "\<exists>s' m' es. rec_run 2 60 [(Tick 0x8000, \<lambda>_. 7), (Pen 0, \<lambda>_. 9)] (snd s3c_ts_init, mylog_start 2) = Some (s', m')
    \<and> reported (kt s') = map report_event es
    \<and> log_view 2 m' = keep 1 (log_view 2 (mylog_start 2) @ concat (map event_text es))"
proof -
  have "samples_ok (snd s3c_ts_init)"
    by (simp add: s3c_ts_init_def samples_ok_def coords_ok_def enter_wait_pen_down_mode_def)
  moreover have "mylog_inv 2 (mylog_start 2)"
    by (simp add: mylog_start_def mylog_inv_def span_def)
  moreover have "reported (kt (snd s3c_ts_init)) = []"
    by (simp add: s3c_ts_init_def reported_def enter_wait_pen_down_mode_def)
  ultimately show ?thesis
    using recording_faithful [of "snd s3c_ts_init" 2 "mylog_start 2" 60 "[(Tick 0x8000, \<lambda>_. 7), (Pen 0, \<lambda>_. 9)]"]
    by (auto simp del: rec_run.simps plain_run.simps)
qed

end
