(* ===== verification/Buttons.thy ===== *)
theory Buttons
  imports Kernel
begin

text \<open>
  The button driver of the 2.6.22 tree, button/buttons_driver.c: four keys on external interrupts, a
  timer against contact bounce, blocking and non-blocking reads, and a semaphore that lets one
  process have the device open. The semaphore belongs to the kernel: the calls on it are part of
  the trace, and a parameter says when it is granted.
\<close>

subsection \<open>Devices that one process at a time has open\<close>

abbreviation "Down \<equiv> Other ''down button_lock'' 0"
abbreviation "Up \<equiv> Other ''up button_lock'' 0"
abbreviation "Sema_init n \<equiv> Other ''sema_init button_lock'' n"

fun sem_track :: "int \<Rightarrow> kcall \<Rightarrow> int" where
  "sem_track n (Other f m) =
     (if f = ''down button_lock'' then n - 1 else if f = ''up button_lock'' then n + 1
      else if f = ''sema_init button_lock'' then int m else n)"
| "sem_track n _ = n"

definition sem_count :: "int \<Rightarrow> kcall list \<Rightarrow> int" where
  "sem_count n cs = foldl sem_track n cs"

lemma sem_count_simps [simp]:
  "sem_count n [] = n" "sem_count n (c # cs) = sem_count (sem_track n c) cs"
  "sem_count n (cs @ ds) = sem_count (sem_count n cs) ds"
  by (simp_all add: sem_count_def)

text \<open>
  What the kernel documents of a semaphore: it is granted only when its count is positive, and a
  \<^verbatim>\<open>down_trylock\<close> on a positive count succeeds. \<^verbatim>\<open>grant\<close> sees the trace so far.
\<close>

definition sem_ok :: "int \<Rightarrow> (kcall list \<Rightarrow> bool) \<Rightarrow> bool" where
  "sem_ok n grant \<longleftrightarrow> (\<forall>cs. grant cs \<longleftrightarrow> 0 < sem_count n cs)"

text \<open>
  Processes open and close the device file, and other events happen in between. The second
  component is the list of the processes whose open returned 0 and that have not closed since;
  the kernel calls \<^verbatim>\<open>release\<close> for these only.
\<close>

datatype ('a, 'b) fop = Fopen nat 'a | Fclose nat | Fother 'b

fun frun :: "('a \<Rightarrow> 's \<Rightarrow> (int \<times> 's) syscall) \<Rightarrow> ('s \<Rightarrow> 's) \<Rightarrow> ('b \<Rightarrow> 's \<Rightarrow> 's)
    \<Rightarrow> ('a, 'b) fop list \<Rightarrow> 's \<times> nat list \<Rightarrow> 's \<times> nat list" where
  "frun opn cls oth [] sh = sh"
| "frun opn cls oth (Fopen p a # es) (s, h) =
     frun opn cls oth es
       (if p \<in> set h then (s, h)
        else case opn a s of Sleep \<Rightarrow> (s, h) | Ret (r, s') \<Rightarrow> (s', if r = 0 then p # h else h))"
| "frun opn cls oth (Fclose p # es) (s, h) =
     frun opn cls oth es (if p \<in> set h then (cls s, remove1 p h) else (s, h))"
| "frun opn cls oth (Fother b # es) (s, h) = frun opn cls oth es (oth b s, h)"

text \<open>
  The contract between a driver and its semaphore: an open that returns 0 was granted the
  semaphore and took it once, any other open left it alone, a close gives it back once, and nothing
  else touches it.
\<close>

locale exclusive =
  fixes opn :: "(kcall list \<Rightarrow> bool) \<Rightarrow> 'a \<Rightarrow> 's \<Rightarrow> (int \<times> 's) syscall"
    and cls :: "'s \<Rightarrow> 's"
    and oth :: "'b \<Rightarrow> 's \<Rightarrow> 's"
    and calls :: "'s \<Rightarrow> kcall list"
    and n0 :: int
  assumes open_ok: "opn grant a s = Ret (0, s') \<Longrightarrow>
      grant (calls s) \<and> sem_count n0 (calls s') = sem_count n0 (calls s) - 1"
    and open_fail: "opn grant a s = Ret (r, s') \<Longrightarrow> r \<noteq> 0 \<Longrightarrow>
      sem_count n0 (calls s') = sem_count n0 (calls s)"
    and close_up: "sem_count n0 (calls (cls s)) = sem_count n0 (calls s) + 1"
    and others: "sem_count n0 (calls (oth b s)) = sem_count n0 (calls s)"
begin

definition safe :: "'s \<times> nat list \<Rightarrow> bool" where
  "safe sh \<longleftrightarrow> sem_count n0 (calls (fst sh)) + int (length (snd sh)) = 1
     \<and> 0 \<le> sem_count n0 (calls (fst sh)) \<and> distinct (snd sh)"

lemma safe_open:
  assumes "sem_ok n0 grant" "safe (s, h)" "opn grant a s = Ret (r, s')" "p \<notin> set h"
  shows "safe (s', if r = 0 then p # h else h)"
  using assms open_ok [of grant a s s'] open_fail [of grant a s r s']
  by (cases "r = 0") (auto simp: safe_def sem_ok_def)

lemma safe_close:
  assumes "safe (s, h)" "p \<in> set h"
  shows "safe (cls s, remove1 p h)"
proof -
  have "1 \<le> length h" using assms(2) by (cases h) auto
  then show ?thesis using assms by (auto simp: safe_def close_up length_remove1 of_nat_diff)
qed

lemma safe_run: "sem_ok n0 grant \<Longrightarrow> safe sh \<Longrightarrow> safe (frun (opn grant) cls oth es sh)"
proof (induction es arbitrary: sh)
  case Nil
  then show ?case by simp
next
  case (Cons e es)
  obtain s h where sh: "sh = (s, h)" by (cases sh)
  show ?case
  proof (cases e)
    case (Fopen p a)
    then show ?thesis
      using Cons safe_open [of grant s h a _ _ p] by (auto simp: sh split: syscall.splits)
  next
    case (Fclose p)
    then show ?thesis using Cons safe_close [of s h p] by (auto simp: sh)
  next
    case (Fother b)
    then show ?thesis using Cons by (auto simp: sh safe_def others)
  qed
qed

lemma at_most_one: "safe sh \<Longrightarrow> length (snd sh) \<le> 1"
  by (auto simp: safe_def)

end

subsection \<open>State\<close>

text \<open>
  \<^verbatim>\<open>pins_desc\<close> gives each key its pin and its value; \<^verbatim>\<open>irq_pd\<close> is the descriptor of the last
  interrupt, NULL before the first one. \<^verbatim>\<open>gpio\<close> is the level that \<^verbatim>\<open>s3c2410_gpio_getpin\<close> reads.
\<close>

record pin_desc =
  pin :: string
  pin_key :: u32

definition pins_desc :: "pin_desc list" where
  "pins_desc =
     [\<lparr>pin = ''GPF0'', pin_key = 0x01\<rparr>, \<lparr>pin = ''GPF2'', pin_key = 0x02\<rparr>,
      \<lparr>pin = ''GPG3'', pin_key = 0x03\<rparr>, \<lparr>pin = ''GPG11'', pin_key = 0x04\<rparr>]"

record keys = kstate +
  key_val :: u8
  ev_press :: bool
  irq_pd :: "pin_desc option"

text \<open>A static \<^verbatim>\<open>struct\<close> starts as zeros.\<close>

definition keys_start :: keys where
  "keys_start = \<lparr>kt = [], key_val = 0, ev_press = False, irq_pd = None\<rparr>"

subsection \<open>Interrupt and timer\<close>

definition s3c24xx_buttons_irq :: "pin_desc \<Rightarrow> keys \<Rightarrow> keys" where
  "s3c24xx_buttons_irq dev_id s = emit [Mod_timer_HZ ''buttons_timer'' 100] (s\<lparr>irq_pd := Some dev_id\<rparr>)"

definition s3c24xx_buttons_timer_function :: "(string \<Rightarrow> u32) \<Rightarrow> keys \<Rightarrow> keys" where
  "s3c24xx_buttons_timer_function gpio s =
     (case irq_pd s of None \<Rightarrow> s
      | Some pindesc \<Rightarrow>
          emit [Wake_up ''button_waitq'', Kill_fasync ''button_async'']
            (s\<lparr>key_val := (if gpio (pin pindesc) \<noteq> 0 then ucast (0x80 OR pin_key pindesc)
                          else ucast (pin_key pindesc)),
               ev_press := True\<rparr>))"

subsection \<open>File operations\<close>

text \<open>
  \<^verbatim>\<open>irq_lines\<close> are the four lines in the order of the code, each with the number of its
  descriptor. \<^verbatim>\<open>ret k\<close> is what the \<^verbatim>\<open>k\<close>-th \<^verbatim>\<open>request_irq\<close> returns. A request that fails leaves
  no trace; the driver then frees that line and returns 0.
\<close>

definition irq_lines :: "(string \<times> nat) list" where
  "irq_lines = [(''IRQ_EINT0'', 0), (''IRQ_EINT2'', 1), (''IRQ_EINT11'', 2), (''IRQ_EINT19'', 3)]"

fun request_lines :: "(nat \<Rightarrow> int) \<Rightarrow> (string \<times> nat) list \<Rightarrow> kcall list" where
  "request_lines ret [] = []"
| "request_lines ret ((l, d) # ls) =
     (if ret d \<noteq> 0 then [Free_irq l d] else Request_irq l d # request_lines ret ls)"

definition s3c24xx_buttons_drv_open ::
  "(kcall list \<Rightarrow> bool) \<Rightarrow> bool \<times> (nat \<Rightarrow> int) \<Rightarrow> keys \<Rightarrow> (int \<times> keys) syscall" where
  "s3c24xx_buttons_drv_open grant a s = (case a of (nonblock, ret) \<Rightarrow>
     if \<not> grant (kt s) then (if nonblock then Ret (- EBUSY, s) else Sleep)
     else Ret (0, emit (Down # request_lines ret irq_lines) s))"

text \<open>
  \<^verbatim>\<open>sig\<close> says that a signal ends the wait; the driver does not look at that result. \<^verbatim>\<open>fault\<close> says
  that \<^verbatim>\<open>copy_to_user\<close> fails. The bytes are what arrives in the user's buffer.
\<close>

definition s3c24xx_buttons_drv_read ::
  "bool \<Rightarrow> bool \<Rightarrow> bool \<Rightarrow> nat \<Rightarrow> keys \<Rightarrow> (int \<times> u8 list \<times> keys) syscall" where
  "s3c24xx_buttons_drv_read nonblock sig fault count s =
     (if count \<noteq> 1 then Ret (- EINVAL, [], s)
      else if nonblock \<and> \<not> ev_press s then Ret (- EAGAIN, [], s)
      else if \<not> nonblock \<and> \<not> ev_press s \<and> \<not> sig then Sleep
      else if fault then Ret (1, [], s\<lparr>ev_press := False\<rparr>)
      else Ret (1, [key_val s], s\<lparr>ev_press := False\<rparr>))"

definition s3c24xx_buttons_drv_close :: "keys \<Rightarrow> keys" where
  "s3c24xx_buttons_drv_close s =
     emit [Up, Free_irq ''IRQ_EINT0'' 0, Free_irq ''IRQ_EINT2'' 1, Free_irq ''IRQ_EINT11'' 2,
           Free_irq ''IRQ_EINT19'' 3] s"

definition s3c24xx_buttons_drv_poll :: "keys \<Rightarrow> u32 \<times> keys" where
  "s3c24xx_buttons_drv_poll s =
     (let s' = emit [Poll_wait ''button_waitq''] s
      in (if ev_press s' then 0x0001 OR 0x0040 else 0, s'))"

definition s3c24xx_buttons_drv_fasync :: "int \<Rightarrow> nat \<Rightarrow> bool \<Rightarrow> keys \<Rightarrow> int \<times> keys" where
  "s3c24xx_buttons_drv_fasync r fd on s = (r, emit [Fasync_helper fd on] s)"

subsection \<open>Loading and unloading\<close>

definition s3c24xx_buttons_drv_init :: "nat \<Rightarrow> int \<times> kcall list" where
  "s3c24xx_buttons_drv_init major =
     (0, [Other ''init_timer buttons_timer'' 0, Add_timer ''buttons_timer'', Register_chrdev major,
          Class_create ''buttons_drv'', Device_create major 0])"

definition s3c24xx_buttons_drv_exit :: "nat \<Rightarrow> kcall list" where
  "s3c24xx_buttons_drv_exit major =
     [Unregister_chrdev major, Device_destroy major 0, Class_destroy ''buttons_drv'']"

lemmas buttons_defs [dev_defs] =
  s3c24xx_buttons_irq_def s3c24xx_buttons_timer_function_def s3c24xx_buttons_drv_open_def
  s3c24xx_buttons_drv_read_def s3c24xx_buttons_drv_close_def s3c24xx_buttons_drv_poll_def
  s3c24xx_buttons_drv_fasync_def

text \<open>The timer that init adds is never deleted.\<close>

lemma timer_outlives_module:
  "held (snd (s3c24xx_buttons_drv_init major) @ s3c24xx_buttons_drv_exit major) = [Timer ''buttons_timer'']"
  by (simp add: s3c24xx_buttons_drv_init_def s3c24xx_buttons_drv_exit_def)

subsection \<open>One process at a time\<close>

datatype key_event =
    Edge pin_desc | Expire "string \<Rightarrow> u32" | Read_key bool bool bool nat | Poll | Fasync int nat bool

fun key_event_step :: "key_event \<Rightarrow> keys \<Rightarrow> keys" where
  "key_event_step (Edge d) s = s3c24xx_buttons_irq d s"
| "key_event_step (Expire gpio) s = s3c24xx_buttons_timer_function gpio s"
| "key_event_step (Read_key nonblock sig fault count) s =
     (case s3c24xx_buttons_drv_read nonblock sig fault count s of
        Sleep \<Rightarrow> s | Ret (_, _, s') \<Rightarrow> s')"
| "key_event_step Poll s = snd (s3c24xx_buttons_drv_poll s)"
| "key_event_step (Fasync r fd on) s = snd (s3c24xx_buttons_drv_fasync r fd on s)"

lemma request_lines_sem [simp]: "sem_count n (request_lines ret ls) = n"
  by (induction ret ls rule: request_lines.induct) auto

interpretation buttons_ex: exclusive s3c24xx_buttons_drv_open s3c24xx_buttons_drv_close key_event_step kt 1
proof
  fix b :: key_event and s :: keys
  show "sem_count 1 (kt (key_event_step b s)) = sem_count 1 (kt s)"
    by (cases b) (auto simp: dev_defs Let_def split: option.splits)
qed (auto simp: dev_defs split: prod.splits if_splits)

subsection \<open>What an open leaves behind\<close>

lemma request_lines_all: "\<forall>d. ret d = 0 \<Longrightarrow> request_lines ret ls = map (\<lambda>(l, d). Request_irq l d) ls"
  by (induction ls) auto

lemma request_lines_prefix:
  assumes "\<forall>j < k. ret (snd (ls ! j)) = 0" "k < length ls" "ret (snd (ls ! k)) \<noteq> 0"
  shows "request_lines ret ls =
    map (\<lambda>(l, d). Request_irq l d) (take k ls) @ [Free_irq (fst (ls ! k)) (snd (ls ! k))]"
  using assms
proof (induction ls arbitrary: k)
  case (Cons x ls)
  show ?case
  proof (cases k)
    case 0
    with Cons.prems show ?thesis by (cases x) simp
  next
    case (Suc k')
    have "request_lines ret ls =
        map (\<lambda>(l, d). Request_irq l d) (take k' ls) @ [Free_irq (fst (ls ! k')) (snd (ls ! k'))]"
      by (rule Cons.IH) (use Cons.prems Suc in \<open>auto simp: nth_Cons' split: if_splits\<close>)
    moreover have "ret (snd x) = 0" using Cons.prems(1) Suc by force
    ultimately show ?thesis using Suc by (cases x) simp
  qed
qed simp

lemma held_requests: "held_from h (map (\<lambda>(l, d). Request_irq l d) ls) = h @ map (\<lambda>(l, d). Irq_line l d) ls"
  by (induction ls arbitrary: h) auto

subsection \<open>Properties\<close>

text \<open>
  C33. At most one process has the device open. This holds for every sequence of opens (blocking or
  not, whatever \<^verbatim>\<open>request_irq\<close> returns), closes, interrupts, timer expiries, reads and polls, and
  it uses only that the kernel grants the semaphore when its count is positive.
\<close>

theorem buttons_single_open:
  assumes "sem_ok 1 grant"
  shows "length (snd (frun (s3c24xx_buttons_drv_open grant) s3c24xx_buttons_drv_close
      key_event_step es (keys_start, []))) \<le> 1"
proof -
  have "buttons_ex.safe (keys_start, [])"
    by (simp add: buttons_ex.safe_def keys_start_def)
  from buttons_ex.at_most_one [OF buttons_ex.safe_run [OF assms this]] show ?thesis .
qed

theorem buttons_single_open_witness:
  "length (snd (frun (s3c24xx_buttons_drv_open (\<lambda>cs. 0 < sem_count 1 cs)) s3c24xx_buttons_drv_close
      key_event_step [Fopen 7 (False, \<lambda>_. 0), Fopen 8 (True, \<lambda>_. 0), Fclose 7, Fopen 9 (True, \<lambda>_. 0)]
      (keys_start, []))) \<le> 1"
  by (rule buttons_single_open) (simp add: sem_ok_def)

text \<open>
  Contact bounce is filtered. However many edges arrive before the timer expires, and whatever
  their pins, the expiry produces one key event: the level at the expiry of the pin of the last
  edge, with 0x80 added when the key is up. A read then returns that byte without sleeping and
  consumes it, so the next read finds nothing.
\<close>

theorem debounce_reads_last:
  fixes s :: keys and ds :: "pin_desc list"
  assumes "ds \<noteq> []" "\<not> fault"
  shows "\<exists>s'. s3c24xx_buttons_drv_read nonblock sig fault 1
        (s3c24xx_buttons_timer_function gpio (fold s3c24xx_buttons_irq ds s))
      = Ret (1, [ucast (if gpio (pin (last ds)) \<noteq> 0 then 0x80 OR pin_key (last ds) else pin_key (last ds))], s')
    \<and> kt s' = kt s @ replicate (length ds) (Mod_timer_HZ ''buttons_timer'' 100)
        @ [Wake_up ''button_waitq'', Kill_fasync ''button_async'']
    \<and> s3c24xx_buttons_drv_read True sig fault 1 s' = Ret (- EAGAIN, [], s')
    \<and> s3c24xx_buttons_drv_read False False fault 1 s' = Sleep"
proof -
  have "irq_pd (fold s3c24xx_buttons_irq ds s) = Some (last ds)
     \<and> kt (fold s3c24xx_buttons_irq ds s) = kt s @ replicate (length ds) (Mod_timer_HZ ''buttons_timer'' 100)"
    using assms(1)
  proof (induction ds rule: rev_induct)
    case (snoc d ds)
    then show ?case
      by (cases "ds = []")
         (simp_all add: s3c24xx_buttons_irq_def emit_def replicate_append_same)
  qed simp
  then show ?thesis
    using assms(2) by (simp add: dev_defs emit_def)
qed

theorem debounce_reads_last_witness:
  "\<exists>s'. s3c24xx_buttons_drv_read True False False 1 (s3c24xx_buttons_timer_function (\<lambda>p. if p = ''GPF2'' then 4 else 0)
      (fold s3c24xx_buttons_irq [pins_desc ! 0, pins_desc ! 1] keys_start)) = Ret (1, [0x82], s')"
  using debounce_reads_last [of "[pins_desc ! 0, pins_desc ! 1]" False True False
      "\<lambda>p. if p = ''GPF2'' then 4 else 0" keys_start]
  by (auto simp: pins_desc_def)

text \<open>
  When the \<^verbatim>\<open>k\<close>-th interrupt line cannot be had, open still returns 0. It keeps the semaphore
  and the lines requested before, and gives back the line it never got; closing the file then frees
  lines that are not held.
\<close>

theorem buttons_open_partial:
  assumes "grant (kt s)" "kt s = []" "k < 4" "\<forall>j < k. ret j = 0" "ret k \<noteq> 0"
  shows "\<exists>s'. s3c24xx_buttons_drv_open grant (nonblock, ret) s = Ret (0, s')
    \<and> held (kt s') = map (\<lambda>(l, d). Irq_line l d) (take k irq_lines)
    \<and> sem_count 1 (kt s') = 0
    \<and> \<not> clean_from [] (kt s') \<and> \<not> clean_from (held (kt s')) (drop (length (kt s')) (kt (s3c24xx_buttons_drv_close s')))"
proof -
  have idx: "snd (irq_lines ! j) = j" if "j < 4" for j
    using that by (auto simp: irq_lines_def numeral_eq_Suc less_Suc_eq)
  have r: "request_lines ret irq_lines =
    map (\<lambda>(l, d). Request_irq l d) (take k irq_lines) @ [Free_irq (fst (irq_lines ! k)) (snd (irq_lines ! k))]"
    by (rule request_lines_prefix) (use assms idx in \<open>auto simp: irq_lines_def\<close>)
  have "k = 0 \<or> k = 1 \<or> k = 2 \<or> k = 3" using assms(3) by auto
  with assms(1,2) r show ?thesis
    by (elim disjE) (simp_all add: dev_defs irq_lines_def)
qed

theorem buttons_open_partial_witness:
  "\<exists>s'. s3c24xx_buttons_drv_open (\<lambda>_. True) (True, \<lambda>d. if d = 2 then -16 else 0) keys_start = Ret (0, s')
    \<and> held (kt s') = [Irq_line ''IRQ_EINT0'' 0, Irq_line ''IRQ_EINT2'' 1]"
  using buttons_open_partial [of "\<lambda>_. True" keys_start 2 "\<lambda>d. if d = 2 then -16 else 0" True]
  by (auto simp: keys_start_def irq_lines_def)



end
