(* ===== verification/KeyDrivers.thy ===== *)
theory KeyDrivers
  imports Buttons
begin

text \<open>
  The key drivers of the 3.4.2 tree, each adding one mechanism to the one before: key (polling),
  key_interrupt, key_interrupt_poll, key_interrupt_fasync, key_interrupt_fasync_mutex and
  key_anti_shake_all. The last two call all their functions \<^verbatim>\<open>sixth_drv_\<close>; those of
  key_anti_shake_all have the suffix \<^verbatim>\<open>_shake\<close> here. The state is that of theory Buttons.
\<close>

subsection \<open>key: reading the levels\<close>

record key_regs = kstate +
  gpfcon :: u32
  gpgcon :: u32

definition second_drv_open :: "key_regs \<Rightarrow> int \<times> key_regs" where
  "second_drv_open s =
     (0, s\<lparr>gpfcon := clear_mask (push_bit (0 * 2) 0x3 OR push_bit (2 * 2) 0x3) (gpfcon s),
           gpgcon := clear_mask (push_bit (3 * 2) 0x3 OR push_bit (11 * 2) 0x3) (gpgcon s)\<rparr>)"

text \<open>
  \<^verbatim>\<open>gpfdat\<close> and \<^verbatim>\<open>gpgdat\<close> are what the data registers read. The result of \<^verbatim>\<open>copy_to_user\<close> is ignored.
\<close>

definition second_drv_read :: "u32 \<Rightarrow> u32 \<Rightarrow> bool \<Rightarrow> nat \<Rightarrow> int \<times> u8 list" where
  "second_drv_read gpfdat gpgdat fault count =
     (if count \<noteq> 4 then (- EINVAL, [])
      else let key_vals =
             [if gpfdat AND push_bit 0 1 \<noteq> 0 then 1 else 0,
              if gpfdat AND push_bit 2 1 \<noteq> 0 then 1 else 0,
              if gpgdat AND push_bit 3 1 \<noteq> 0 then 1 else 0,
              if gpgdat AND push_bit 11 1 \<noteq> 0 then 1 else 0]
           in (4, if fault then [] else key_vals))"

definition second_drv_init :: "nat \<Rightarrow> int \<times> kcall list" where
  "second_drv_init major =
     (0, [Register_chrdev major, Class_create ''second_drv'', Device_create major 0,
          Ioremap 0x56000050 16, Ioremap 0x56000060 16])"

definition second_drv_exit :: "nat \<Rightarrow> kcall list" where
  "second_drv_exit major =
     [Unregister_chrdev major, Device_destroy major 0, Class_destroy ''second_drv'',
      Iounmap 0x56000050, Iounmap 0x56000060]"

subsection \<open>What the interrupt drivers share\<close>

text \<open>
  \<^verbatim>\<open>latch_key\<close> is the body that every handler has: the level at the pin decides about 0x80. The
  drivers ignore what \<^verbatim>\<open>request_irq\<close> and \<^verbatim>\<open>copy_to_user\<close> return.
\<close>

definition latch_key :: "(string \<Rightarrow> u32) \<Rightarrow> pin_desc \<Rightarrow> keys \<Rightarrow> keys" where
  "latch_key gpio pindesc s =
     s\<lparr>key_val := (if gpio (pin pindesc) \<noteq> 0 then ucast (0x80 OR pin_key pindesc)
                   else ucast (pin_key pindesc)),
       ev_press := True\<rparr>"

definition request_each :: "(nat \<Rightarrow> int) \<Rightarrow> kcall list" where
  "request_each ret = map (\<lambda>(l, d). Request_irq l d) (filter (\<lambda>(l, d). ret d = 0) irq_lines)"

definition free_each :: "kcall list" where
  "free_each = [Free_irq ''IRQ_EINT0'' 0, Free_irq ''IRQ_EINT2'' 1, Free_irq ''IRQ_EINT11'' 2,
     Free_irq ''IRQ_EINT19'' 3]"

definition take_key :: "bool \<Rightarrow> keys \<Rightarrow> int \<times> u8 list \<times> keys" where
  "take_key fault s = (1, if fault then [] else [key_val s], s\<lparr>ev_press := False\<rparr>)"

definition poll_mask :: "keys \<Rightarrow> u32" where
  "poll_mask s = (if ev_press s then 0x0001 OR 0x0040 else 0)"

definition chrdev_load :: "string \<Rightarrow> nat \<Rightarrow> kcall list" where
  "chrdev_load cls major =
     [Register_chrdev major, Class_create cls, Device_create major 0,
      Ioremap 0x56000050 16, Ioremap 0x56000060 16]"

definition chrdev_unload :: "string \<Rightarrow> nat \<Rightarrow> kcall list" where
  "chrdev_unload cls major =
     [Unregister_chrdev major, Device_destroy major 0, Class_destroy cls,
      Iounmap 0x56000050, Iounmap 0x56000060]"

lemmas key_parts = latch_key_def request_each_def free_each_def take_key_def poll_mask_def
  chrdev_load_def chrdev_unload_def

subsection \<open>key_interrupt\<close>

definition buttons_irq_third :: "(string \<Rightarrow> u32) \<Rightarrow> pin_desc \<Rightarrow> keys \<Rightarrow> keys" where
  "buttons_irq_third gpio dev_id s = emit [Wake_up ''button_waitq''] (latch_key gpio dev_id s)"

definition third_drv_open :: "(nat \<Rightarrow> int) \<Rightarrow> keys \<Rightarrow> int \<times> keys" where
  "third_drv_open ret s = (0, emit (request_each ret) s)"

definition third_drv_read :: "bool \<Rightarrow> bool \<Rightarrow> nat \<Rightarrow> keys \<Rightarrow> (int \<times> u8 list \<times> keys) syscall" where
  "third_drv_read sig fault count s =
     (if count \<noteq> 1 then Ret (- EINVAL, [], s)
      else if \<not> ev_press s \<and> \<not> sig then Sleep
      else Ret (take_key fault s))"

definition third_drv_close :: "keys \<Rightarrow> int \<times> keys" where
  "third_drv_close s = (0, emit free_each s)"

definition third_drv_init :: "nat \<Rightarrow> int \<times> kcall list" where
  "third_drv_init major = (0, chrdev_load ''third_drv'' major)"

definition third_drv_exit :: "nat \<Rightarrow> kcall list" where
  "third_drv_exit major = chrdev_unload ''third_drv'' major"

subsection \<open>key_interrupt_poll\<close>

definition buttons_irq_forth :: "(string \<Rightarrow> u32) \<Rightarrow> pin_desc \<Rightarrow> keys \<Rightarrow> keys" where
  "buttons_irq_forth gpio dev_id s = emit [Wake_up ''button_waitq''] (latch_key gpio dev_id s)"

definition forth_drv_open :: "(nat \<Rightarrow> int) \<Rightarrow> keys \<Rightarrow> int \<times> keys" where
  "forth_drv_open ret s = (0, emit (request_each ret) s)"

definition forth_drv_read :: "bool \<Rightarrow> bool \<Rightarrow> nat \<Rightarrow> keys \<Rightarrow> (int \<times> u8 list \<times> keys) syscall" where
  "forth_drv_read sig fault count s =
     (if count \<noteq> 1 then Ret (- EINVAL, [], s)
      else if \<not> ev_press s \<and> \<not> sig then Sleep
      else Ret (take_key fault s))"

definition forth_drv_close :: "keys \<Rightarrow> int \<times> keys" where
  "forth_drv_close s = (0, emit free_each s)"

definition forth_drv_poll :: "keys \<Rightarrow> u32 \<times> keys" where
  "forth_drv_poll s = (poll_mask s, emit [Poll_wait ''button_waitq''] s)"

definition forth_drv_init :: "nat \<Rightarrow> int \<times> kcall list" where
  "forth_drv_init major = (0, chrdev_load ''forth_drv'' major)"

definition forth_drv_exit :: "nat \<Rightarrow> kcall list" where
  "forth_drv_exit major = chrdev_unload ''forth_drv'' major"

subsection \<open>key_interrupt_fasync\<close>

definition buttons_irq_fifth :: "(string \<Rightarrow> u32) \<Rightarrow> pin_desc \<Rightarrow> keys \<Rightarrow> keys" where
  "buttons_irq_fifth gpio dev_id s =
     emit [Wake_up ''button_waitq'', Kill_fasync ''button_async''] (latch_key gpio dev_id s)"

definition fifth_drv_open :: "(nat \<Rightarrow> int) \<Rightarrow> keys \<Rightarrow> int \<times> keys" where
  "fifth_drv_open ret s = (0, emit (request_each ret) s)"

definition fifth_drv_read :: "bool \<Rightarrow> bool \<Rightarrow> nat \<Rightarrow> keys \<Rightarrow> (int \<times> u8 list \<times> keys) syscall" where
  "fifth_drv_read sig fault count s =
     (if count \<noteq> 1 then Ret (- EINVAL, [], s)
      else if \<not> ev_press s \<and> \<not> sig then Sleep
      else Ret (take_key fault s))"

definition fifth_drv_close :: "keys \<Rightarrow> int \<times> keys" where
  "fifth_drv_close s = (0, emit free_each s)"

definition fifth_drv_poll :: "keys \<Rightarrow> u32 \<times> keys" where
  "fifth_drv_poll s = (poll_mask s, emit [Poll_wait ''button_waitq''] s)"

definition fifth_drv_fasync :: "int \<Rightarrow> nat \<Rightarrow> bool \<Rightarrow> keys \<Rightarrow> int \<times> keys" where
  "fifth_drv_fasync r fd on s = (r, emit [Fasync_helper fd on] s)"

definition fifth_drv_init :: "nat \<Rightarrow> int \<times> kcall list" where
  "fifth_drv_init major = (0, chrdev_load ''fifth_drv'' major)"

definition fifth_drv_exit :: "nat \<Rightarrow> kcall list" where
  "fifth_drv_exit major = chrdev_unload ''fifth_drv'' major"

subsection \<open>key_interrupt_fasync_mutex\<close>

definition buttons_irq_sixth :: "(string \<Rightarrow> u32) \<Rightarrow> pin_desc \<Rightarrow> keys \<Rightarrow> keys" where
  "buttons_irq_sixth gpio dev_id s =
     emit [Wake_up ''button_waitq'', Kill_fasync ''button_async''] (latch_key gpio dev_id s)"

definition sixth_drv_open ::
  "(kcall list \<Rightarrow> bool) \<Rightarrow> bool \<times> (nat \<Rightarrow> int) \<Rightarrow> keys \<Rightarrow> (int \<times> keys) syscall" where
  "sixth_drv_open grant a s = (case a of (nonblock, ret) \<Rightarrow>
     if \<not> grant (kt s) then (if nonblock then Ret (- EBUSY, s) else Sleep)
     else Ret (0, emit (Down # request_each ret) s))"

definition sixth_drv_read ::
  "bool \<Rightarrow> bool \<Rightarrow> bool \<Rightarrow> nat \<Rightarrow> keys \<Rightarrow> (int \<times> u8 list \<times> keys) syscall" where
  "sixth_drv_read nonblock sig fault count s =
     (if count \<noteq> 1 then Ret (- EINVAL, [], s)
      else if nonblock \<and> \<not> ev_press s then Ret (- EAGAIN, [], s)
      else if \<not> nonblock \<and> \<not> ev_press s \<and> \<not> sig then Sleep
      else Ret (take_key fault s))"

definition sixth_drv_close :: "keys \<Rightarrow> keys" where
  "sixth_drv_close s = emit (free_each @ [Up]) s"

definition sixth_drv_poll :: "keys \<Rightarrow> u32 \<times> keys" where
  "sixth_drv_poll s = (poll_mask s, emit [Poll_wait ''button_waitq''] s)"

definition sixth_drv_fasync :: "int \<Rightarrow> nat \<Rightarrow> bool \<Rightarrow> keys \<Rightarrow> int \<times> keys" where
  "sixth_drv_fasync r fd on s = (r, emit [Fasync_helper fd on] s)"

definition sixth_drv_init :: "nat \<Rightarrow> int \<times> kcall list" where
  "sixth_drv_init major = (0, chrdev_load ''sixth_drv'' major @ [Sema_init 1])"

definition sixth_drv_exit :: "nat \<Rightarrow> kcall list" where
  "sixth_drv_exit major = chrdev_unload ''sixth_drv'' major"

subsection \<open>key_anti_shake_all\<close>

definition buttons_irq_shake :: "pin_desc \<Rightarrow> keys \<Rightarrow> keys" where
  "buttons_irq_shake dev_id s = emit [Mod_timer_HZ ''buttons_timer'' 100] (s\<lparr>irq_pd := Some dev_id\<rparr>)"

definition buttons_timer_function :: "(string \<Rightarrow> u32) \<Rightarrow> keys \<Rightarrow> keys" where
  "buttons_timer_function gpio s =
     (case irq_pd s of None \<Rightarrow> s
      | Some pindesc \<Rightarrow>
          emit [Wake_up ''button_waitq'', Kill_fasync ''button_async''] (latch_key gpio pindesc s))"

definition sixth_drv_open_shake ::
  "(kcall list \<Rightarrow> bool) \<Rightarrow> bool \<times> (nat \<Rightarrow> int) \<Rightarrow> keys \<Rightarrow> (int \<times> keys) syscall" where
  "sixth_drv_open_shake grant a s = (case a of (nonblock, ret) \<Rightarrow>
     if \<not> grant (kt s) then (if nonblock then Ret (- EBUSY, s) else Sleep)
     else Ret (0, emit (Down # request_each ret) s))"

definition sixth_drv_read_shake ::
  "bool \<Rightarrow> bool \<Rightarrow> bool \<Rightarrow> nat \<Rightarrow> keys \<Rightarrow> (int \<times> u8 list \<times> keys) syscall" where
  "sixth_drv_read_shake nonblock sig fault count s =
     (if count \<noteq> 1 then Ret (- EINVAL, [], s)
      else if nonblock \<and> \<not> ev_press s then Ret (- EAGAIN, [], s)
      else if \<not> nonblock \<and> \<not> ev_press s \<and> \<not> sig then Sleep
      else Ret (take_key fault s))"

definition sixth_drv_close_shake :: "keys \<Rightarrow> keys" where
  "sixth_drv_close_shake s = emit (free_each @ [Up]) s"

definition sixth_drv_poll_shake :: "keys \<Rightarrow> u32 \<times> keys" where
  "sixth_drv_poll_shake s = (poll_mask s, emit [Poll_wait ''button_waitq''] s)"

definition sixth_drv_fasync_shake :: "int \<Rightarrow> nat \<Rightarrow> bool \<Rightarrow> keys \<Rightarrow> int \<times> keys" where
  "sixth_drv_fasync_shake r fd on s = (r, emit [Fasync_helper fd on] s)"

definition sixth_drv_init_shake :: "nat \<Rightarrow> int \<times> kcall list" where
  "sixth_drv_init_shake major =
     (0, [Other ''init_timer buttons_timer'' 0, Add_timer ''buttons_timer'']
         @ chrdev_load ''sixth_drv'' major @ [Sema_init 1])"

definition sixth_drv_exit_shake :: "nat \<Rightarrow> kcall list" where
  "sixth_drv_exit_shake major = chrdev_unload ''sixth_drv'' major"

lemmas key_handlers [dev_defs] = second_drv_open_def second_drv_read_def
  buttons_irq_third_def third_drv_open_def third_drv_read_def third_drv_close_def
  buttons_irq_forth_def forth_drv_open_def forth_drv_read_def forth_drv_close_def forth_drv_poll_def
  buttons_irq_fifth_def fifth_drv_open_def fifth_drv_read_def fifth_drv_close_def
  fifth_drv_poll_def fifth_drv_fasync_def
  buttons_irq_sixth_def sixth_drv_open_def sixth_drv_read_def sixth_drv_close_def
  sixth_drv_poll_def sixth_drv_fasync_def
  buttons_irq_shake_def buttons_timer_function_def sixth_drv_open_shake_def
  sixth_drv_read_shake_def sixth_drv_close_shake_def sixth_drv_poll_shake_def
  sixth_drv_fasync_shake_def

lemmas key_loads = second_drv_init_def second_drv_exit_def third_drv_init_def third_drv_exit_def
  forth_drv_init_def forth_drv_exit_def fifth_drv_init_def fifth_drv_exit_def
  sixth_drv_init_def sixth_drv_exit_def sixth_drv_init_shake_def sixth_drv_exit_shake_def

subsection \<open>Loading and unloading\<close>

interpretation second_life: lifecycle second_drv_init second_drv_exit
  by unfold_locales (simp_all add: key_loads key_parts)

interpretation third_life: lifecycle third_drv_init third_drv_exit
  by unfold_locales (simp_all add: key_loads key_parts)

interpretation forth_life: lifecycle forth_drv_init forth_drv_exit
  by unfold_locales (simp_all add: key_loads key_parts)

interpretation fifth_life: lifecycle fifth_drv_init fifth_drv_exit
  by unfold_locales (simp_all add: key_loads key_parts)

interpretation sixth_life: lifecycle sixth_drv_init sixth_drv_exit
  by unfold_locales (simp_all add: key_loads key_parts)

text \<open>As in the 2.6.22 tree, nothing deletes the debounce timer.\<close>

lemma shake_timer_outlives_module:
  "held (snd (sixth_drv_init_shake major) @ sixth_drv_exit_shake major) = [Timer ''buttons_timer'']"
  by (simp add: key_loads key_parts)

subsection \<open>Mutual exclusion\<close>

text \<open>What else may happen to the two drivers that have a semaphore.\<close>

fun sixth_step :: "(string \<Rightarrow> u32) \<times> key_event \<Rightarrow> keys \<Rightarrow> keys" where
  "sixth_step (gpio, Edge d) s = buttons_irq_sixth gpio d s"
| "sixth_step (gpio, Expire g) s = s"
| "sixth_step (gpio, Read_key nonblock sig fault count) s =
     (case sixth_drv_read nonblock sig fault count s of Sleep \<Rightarrow> s | Ret (_, _, s') \<Rightarrow> s')"
| "sixth_step (gpio, Poll) s = snd (sixth_drv_poll s)"
| "sixth_step (gpio, Fasync r fd on) s = snd (sixth_drv_fasync r fd on s)"

fun shake_step :: "key_event \<Rightarrow> keys \<Rightarrow> keys" where
  "shake_step (Edge d) s = buttons_irq_shake d s"
| "shake_step (Expire gpio) s = buttons_timer_function gpio s"
| "shake_step (Read_key nonblock sig fault count) s =
     (case sixth_drv_read_shake nonblock sig fault count s of Sleep \<Rightarrow> s | Ret (_, _, s') \<Rightarrow> s')"
| "shake_step Poll s = snd (sixth_drv_poll_shake s)"
| "shake_step (Fasync r fd on) s = snd (sixth_drv_fasync_shake r fd on s)"

lemma each_sem [simp]: "sem_count n (request_each ret) = n" "sem_count n free_each = n"
proof -
  have "sem_count n (map (\<lambda>(l, d). Request_irq l d) ls) = n" for ls
    by (induction ls) auto
  then show "sem_count n (request_each ret) = n" by (simp add: request_each_def)
qed (simp add: free_each_def)

interpretation sixth_ex: exclusive sixth_drv_open sixth_drv_close sixth_step kt 0
proof
  fix b :: "(string \<Rightarrow> u32) \<times> key_event" and s :: keys
  obtain gpio e where b: "b = (gpio, e)" by (cases b)
  show "sem_count 0 (kt (sixth_step b s)) = sem_count 0 (kt s)"
    by (cases e) (auto simp: b dev_defs latch_key_def take_key_def)
qed (auto simp: dev_defs split: prod.splits if_splits)

interpretation shake_ex: exclusive sixth_drv_open_shake sixth_drv_close_shake shake_step kt 0
proof
  fix b :: key_event and s :: keys
  show "sem_count 0 (kt (shake_step b s)) = sem_count 0 (kt s)"
    by (cases b) (auto simp: dev_defs latch_key_def take_key_def split: option.splits)
qed (auto simp: dev_defs split: prod.splits if_splits)

definition loaded :: "kcall list \<Rightarrow> keys" where
  "loaded cs = keys_start\<lparr>kt := cs\<rparr>"

lemma kt_loaded [simp]: "kt (loaded cs) = cs"
  by (simp add: loaded_def)

lemma load_sem: "sem_count 0 (snd (sixth_drv_init major)) = 1" "sem_count 0 (snd (sixth_drv_init_shake major)) = 1"
  by (simp_all add: key_loads key_parts)

text \<open>
  The devices can be opened before the semaphore is initialised: init creates the node first. An
  open in that window finds a count of 0, and a blocking one sleeps.
\<close>

lemma early_open:
  assumes "sem_ok 0 grant" "n \<le> 5"
  shows "sixth_drv_open grant (True, ret) (loaded (take n (snd (sixth_drv_init major)))) =
      Ret (- EBUSY, loaded (take n (snd (sixth_drv_init major))))"
    and "sixth_drv_open grant (False, ret) (loaded (take n (snd (sixth_drv_init major)))) = Sleep"
proof -
  have "n = 0 \<or> n = 1 \<or> n = 2 \<or> n = 3 \<or> n = 4 \<or> n = 5" using assms(2) by auto
  then have "\<not> grant (take n (snd (sixth_drv_init major)))"
    using assms(1) by (elim disjE) (simp_all add: sem_ok_def key_loads key_parts)
  then show "sixth_drv_open grant (True, ret) (loaded (take n (snd (sixth_drv_init major)))) =
      Ret (- EBUSY, loaded (take n (snd (sixth_drv_init major))))"
    "sixth_drv_open grant (False, ret) (loaded (take n (snd (sixth_drv_init major)))) = Sleep"
    by (simp_all add: dev_defs)
qed

subsection \<open>Properties\<close>

text \<open>
  The polling driver: opening makes the four key pins inputs and leaves the configuration of
  every other pin as it was, and a read of four bytes returns the levels of exactly these pins.
\<close>

theorem second_drv_levels:
  "\<exists>s'. second_drv_open s = (0, s')
    \<and> (\<forall>n. bit (gpfcon s') n \<longleftrightarrow> bit (gpfcon s) n \<and> n div 2 \<notin> {0, 2})
    \<and> (\<forall>n. bit (gpgcon s') n \<longleftrightarrow> bit (gpgcon s) n \<and> n div 2 \<notin> {3, 11})
    \<and> second_drv_read gpfdat gpgdat False 4 =
        (4, map (\<lambda>b. if b then 1 else 0) [bit gpfdat 0, bit gpfdat 2, bit gpgdat 3, bit gpgdat 11])"
proof -
  have three: "bit (push_bit k 3 :: u32) n \<longleftrightarrow> n < 32 \<and> (n = k \<or> n = Suc k)" for k n
  proof -
    have "push_bit k 3 = (push_bit k (mask 2) :: u32)" by (simp add: mask_eq_exp_minus_1)
    then show ?thesis by (auto simp: bit_push_bit_iff bit_mask_iff simp del: push_bit_numeral)
  qed
  have f: "bit (push_bit (0 * 2) 0x3 OR push_bit (2 * 2) 0x3 :: u32) n \<longleftrightarrow> n < 32 \<and> n div 2 \<in> {0, 2}"
    and g: "bit (push_bit (3 * 2) 0x3 OR push_bit (11 * 2) 0x3 :: u32) n \<longleftrightarrow> n < 32 \<and> n div 2 \<in> {3, 11}" for n
    unfolding bit_or_iff three by auto
  have regs:
    "gpfcon (snd (second_drv_open s)) = clear_mask (push_bit (0 * 2) 0x3 OR push_bit (2 * 2) 0x3) (gpfcon s)"
    "gpgcon (snd (second_drv_open s)) = clear_mask (push_bit (3 * 2) 0x3 OR push_bit (11 * 2) 0x3) (gpgcon s)"
    by (simp_all add: second_drv_open_def)
  have "bit (gpfcon (snd (second_drv_open s))) n \<longleftrightarrow> bit (gpfcon s) n \<and> n div 2 \<notin> {0, 2}"
    "bit (gpgcon (snd (second_drv_open s))) n \<longleftrightarrow> bit (gpgcon s) n \<and> n div 2 \<notin> {3, 11}" for n
    unfolding regs bit_clear_mask f g
    by (auto dest: bit_imp_le_length)
  moreover have lv: "(w AND push_bit k 1 \<noteq> 0) = bit w k" if "k < 32" for w :: u32 and k
    using that by (simp add: and_one_bit del: push_bit_of_1)
  have "second_drv_read gpfdat gpgdat False 4 =
      (4, map (\<lambda>b. if b then 1 else 0) [bit gpfdat 0, bit gpfdat 2, bit gpgdat 3, bit gpgdat 11])"
    unfolding second_drv_read_def Let_def
    using lv [of 0 gpfdat] lv [of 2 gpfdat] lv [of 3 gpgdat] lv [of 11 gpgdat] by (simp del: push_bit_of_1)
  moreover have "second_drv_open s = (0, snd (second_drv_open s))"
    by (simp add: second_drv_open_def)
  ultimately show ?thesis by blast
qed

text \<open>
  \<^verbatim>\<open>poll\<close> and \<^verbatim>\<open>read\<close> agree in the four drivers that have both: the mask says readable exactly
  when a read of one byte returns without sleeping. In the two drivers with a non-blocking read it
  is also exactly then that this read does not return \<^verbatim>\<open>-EAGAIN\<close>.
\<close>

theorem poll_agrees_with_read:
  "(fst (forth_drv_poll s) \<noteq> 0 \<longleftrightarrow> forth_drv_read False fault 1 (snd (forth_drv_poll s)) \<noteq> Sleep)
   \<and> (fst (fifth_drv_poll s) \<noteq> 0 \<longleftrightarrow> fifth_drv_read False fault 1 (snd (fifth_drv_poll s)) \<noteq> Sleep)
   \<and> (fst (sixth_drv_poll s) \<noteq> 0 \<longleftrightarrow> sixth_drv_read False False fault 1 (snd (sixth_drv_poll s)) \<noteq> Sleep)
   \<and> (fst (sixth_drv_poll s) \<noteq> 0 \<longleftrightarrow>
        sixth_drv_read True sig fault 1 (snd (sixth_drv_poll s)) \<noteq> Ret (- EAGAIN, [], snd (sixth_drv_poll s)))
   \<and> (fst (sixth_drv_poll_shake s) \<noteq> 0 \<longleftrightarrow>
        sixth_drv_read_shake False False fault 1 (snd (sixth_drv_poll_shake s)) \<noteq> Sleep)
   \<and> (fst (sixth_drv_poll_shake s) \<noteq> 0 \<longleftrightarrow>
        sixth_drv_read_shake True sig fault 1 (snd (sixth_drv_poll_shake s))
          \<noteq> Ret (- EAGAIN, [], snd (sixth_drv_poll_shake s)))"
proof -
  have ev: "ev_press (emit cs s) = ev_press s" for cs by (simp add: emit_def)
  have m: "poll_mask s \<noteq> 0 \<longleftrightarrow> ev_press s" by (simp add: poll_mask_def)
  show ?thesis by (auto simp: dev_defs m ev take_key_def)
qed

text \<open>
  C35. In both drivers with a semaphore at most one process has the device open, from the load of
  the module on, for every sequence of opens, closes and other events.
\<close>

theorem sixth_single_open:
  assumes "sem_ok 0 grant"
  shows "length (snd (frun (sixth_drv_open grant) sixth_drv_close sixth_step es
        (loaded (snd (sixth_drv_init major)), []))) \<le> 1
    \<and> length (snd (frun (sixth_drv_open_shake grant) sixth_drv_close_shake shake_step es'
        (loaded (snd (sixth_drv_init_shake major)), []))) \<le> 1"
proof -
  have "sixth_ex.safe (loaded (snd (sixth_drv_init major)), [])"
    "shake_ex.safe (loaded (snd (sixth_drv_init_shake major)), [])"
    by (simp_all add: sixth_ex.safe_def shake_ex.safe_def load_sem)
  then show ?thesis
    using sixth_ex.at_most_one [OF sixth_ex.safe_run [OF assms]]
      shake_ex.at_most_one [OF shake_ex.safe_run [OF assms]] by blast
qed

theorem sixth_single_open_witness:
  "length (snd (frun (sixth_drv_open (\<lambda>cs. 0 < sem_count 0 cs)) sixth_drv_close sixth_step
      [Fopen 1 (False, \<lambda>_. 0), Fopen 2 (True, \<lambda>_. 0)] (loaded (snd (sixth_drv_init 252)), []))) \<le> 1"
  using sixth_single_open [of "\<lambda>cs. 0 < sem_count 0 cs" "[Fopen 1 (False, \<lambda>_. 0), Fopen 2 (True, \<lambda>_. 0)]" 252 "[]"]
  by (simp add: sem_ok_def)

text \<open>
  These drivers close in the right order: at every point of close at which another process
  could be granted the semaphore, all interrupt lines that open requested are free again, and close
  gives back only what is held.
\<close>

theorem sixth_close_order:
  assumes "held (kt s) = []" "sem_count 0 (kt s) = 1" "sem_ok 0 grant" "\<forall>d. ret d = 0"
  shows "\<exists>s'. sixth_drv_open grant (nonblock, ret) s = Ret (0, s')
    \<and> held (kt s') = map (\<lambda>(l, d). Irq_line l d) irq_lines
    \<and> clean_from (held (kt s')) (drop (length (kt s')) (kt (sixth_drv_close s')))
    \<and> held (kt (sixth_drv_close s')) = [] \<and> sem_count 0 (kt (sixth_drv_close s')) = 1
    \<and> (\<forall>n < 5. \<not> grant (take (length (kt s') + n) (kt (sixth_drv_close s'))))"
proof -
  have f: "filter (\<lambda>(l, d). ret d = 0) irq_lines = irq_lines"
    using assms(4) by (simp add: irq_lines_def)
  have five: "(\<forall>n < 5. P n) \<longleftrightarrow> P 0 \<and> P 1 \<and> P 2 \<and> P 3 \<and> P (4 :: nat)" for P
    by (auto simp: numeral_eq_Suc less_Suc_eq)
  have g: "grant (kt s)" using assms(2,3) by (simp add: sem_ok_def)
  show ?thesis
    using assms(1-3)
    by (simp add: dev_defs g request_each_def f free_each_def five sem_ok_def) (simp add: irq_lines_def)
qed

theorem sixth_close_order_witness:
  "\<exists>s'. sixth_drv_open (\<lambda>cs. 0 < sem_count 0 cs) (True, \<lambda>_. 0) (keys_start\<lparr>kt := [Sema_init 1]\<rparr>) = Ret (0, s')
    \<and> held (kt (sixth_drv_close s')) = []"
  using sixth_close_order [of "keys_start\<lparr>kt := [Sema_init 1]\<rparr>" "\<lambda>cs. 0 < sem_count 0 cs" "\<lambda>_. 0" True]
  by (auto simp: sem_ok_def)

end
