(* ===== verification/ButtonsInput.thy ===== *)
theory ButtonsInput
  imports KeyDrivers
begin

text \<open>
  The input-subsystem button drivers: buttons_input/buttons_input.c of the 2.6.22 tree and
  buttons_input/button_input.c of the 3.4.2 tree. They debounce as the other button drivers do and
  report key events instead of storing a byte. Functions of the 2.6.22 driver have the suffix
  \<^verbatim>\<open>_in\<close>, as their names are those of the driver in theory Buttons.
\<close>

subsection \<open>State\<close>

record in_pin_desc =
  in_irq :: string
  in_name :: string
  in_pin :: string
  in_key :: nat

text \<open>The key codes \<^verbatim>\<open>KEY_L\<close>, \<^verbatim>\<open>KEY_S\<close>, \<^verbatim>\<open>KEY_ENTER\<close> and \<^verbatim>\<open>KEY_LEFTSHIFT\<close> are 38, 31, 28 and 42.\<close>

definition in_pins_desc :: "in_pin_desc list" where
  "in_pins_desc =
     [\<lparr>in_irq = ''IRQ_EINT0'', in_name = ''S2'', in_pin = ''GPF0'', in_key = 38\<rparr>,
      \<lparr>in_irq = ''IRQ_EINT2'', in_name = ''S3'', in_pin = ''GPF2'', in_key = 31\<rparr>,
      \<lparr>in_irq = ''IRQ_EINT11'', in_name = ''S4'', in_pin = ''GPG3'', in_key = 28\<rparr>,
      \<lparr>in_irq = ''IRQ_EINT19'', in_name = ''S5'', in_pin = ''GPG11'', in_key = 42\<rparr>]"

record in_keys = kstate +
  in_irq_pd :: "in_pin_desc option"

definition in_start :: in_keys where
  "in_start = \<lparr>kt = [], in_irq_pd = None\<rparr>"

subsection \<open>The 2.6.22 driver\<close>

definition s3c24xx_buttons_irq_in :: "in_pin_desc \<Rightarrow> in_keys \<Rightarrow> in_keys" where
  "s3c24xx_buttons_irq_in dev_id s =
     emit [Mod_timer_HZ ''s3c24xx_buttons_timer'' 100] (s\<lparr>in_irq_pd := Some dev_id\<rparr>)"

definition s3c24xx_buttons_timer_function_in :: "(string \<Rightarrow> u32) \<Rightarrow> in_keys \<Rightarrow> in_keys" where
  "s3c24xx_buttons_timer_function_in gpio s =
     (case in_irq_pd s of None \<Rightarrow> s
      | Some pindesc \<Rightarrow>
          if gpio (in_pin pindesc) \<noteq> 0
          then emit [Input_event ''s3c24xx_buttons_dev'' 1 (in_key pindesc) 0,
                     Input_sync ''s3c24xx_buttons_dev''] s
          else emit [Input_event ''s3c24xx_buttons_dev'' 1 (in_key pindesc) 1,
                     Input_sync ''s3c24xx_buttons_dev''] s)"

text \<open>\<^verbatim>\<open>ret i\<close> is what the \<^verbatim>\<open>i\<close>-th \<^verbatim>\<open>request_irq\<close> of the loop returns.\<close>

fun request_pins :: "(nat \<Rightarrow> int) \<Rightarrow> nat \<Rightarrow> in_pin_desc list \<Rightarrow> kcall list" where
  "request_pins ret i [] = []"
| "request_pins ret i (p # ps) =
     (if ret i \<noteq> 0 then [Free_irq (in_irq p) i]
      else Request_irq (in_irq p) i # request_pins ret (Suc i) ps)"

definition set_up_input :: "string \<Rightarrow> string \<Rightarrow> kcall list" where
  "set_up_input dev timer =
     [Input_allocate_device dev, Other ''set_bit evbit'' 1, Other ''set_bit evbit'' 0x14,
      Other ''set_bit keybit'' 38, Other ''set_bit keybit'' 31, Other ''set_bit keybit'' 28,
      Other ''set_bit keybit'' 42, Input_register_device dev, Other ''init_timer'' 0, Add_timer timer]"

definition tear_down_input :: "string \<Rightarrow> string \<Rightarrow> kcall list" where
  "tear_down_input dev timer =
     map (\<lambda>i. Free_irq (in_irq (in_pins_desc ! i)) i) [0, 1, 2, 3]
     @ [Del_timer timer, Input_unregister_device dev, Input_free_device dev]"

definition s3c24xx_buttons_init :: "(nat \<Rightarrow> int) \<Rightarrow> int \<times> kcall list" where
  "s3c24xx_buttons_init ret =
     (0, set_up_input ''s3c24xx_buttons_dev'' ''s3c24xx_buttons_timer'' @ request_pins ret 0 in_pins_desc)"

definition s3c24xx_buttons_exit :: "kcall list" where
  "s3c24xx_buttons_exit = tear_down_input ''s3c24xx_buttons_dev'' ''s3c24xx_buttons_timer''"

subsection \<open>The 3.4.2 driver\<close>

definition buttons_irq_in :: "in_pin_desc \<Rightarrow> in_keys \<Rightarrow> in_keys" where
  "buttons_irq_in dev_id s = emit [Mod_timer_HZ ''buttons_timer'' 100] (s\<lparr>in_irq_pd := Some dev_id\<rparr>)"

definition buttons_timer_function_in :: "(string \<Rightarrow> u32) \<Rightarrow> in_keys \<Rightarrow> in_keys" where
  "buttons_timer_function_in gpio s =
     (case in_irq_pd s of None \<Rightarrow> s
      | Some pindesc \<Rightarrow>
          if gpio (in_pin pindesc) \<noteq> 0
          then emit [Input_event ''buttons_dev'' 1 (in_key pindesc) 0, Input_sync ''buttons_dev''] s
          else emit [Input_event ''buttons_dev'' 1 (in_key pindesc) 1, Input_sync ''buttons_dev''] s)"

text \<open>This one ignores what \<^verbatim>\<open>request_irq\<close> returns.\<close>

definition buttons_init :: "(nat \<Rightarrow> int) \<Rightarrow> int \<times> kcall list" where
  "buttons_init ret =
     (0, set_up_input ''buttons_dev'' ''buttons_timer''
         @ map (\<lambda>i. Request_irq (in_irq (in_pins_desc ! i)) i) (filter (\<lambda>i. ret i = 0) [0, 1, 2, 3]))"

definition buttons_exit :: "kcall list" where
  "buttons_exit = tear_down_input ''buttons_dev'' ''buttons_timer''"

lemmas input_keys_defs [dev_defs] = s3c24xx_buttons_irq_in_def s3c24xx_buttons_timer_function_in_def
  buttons_irq_in_def buttons_timer_function_in_def

interpretation in26_life: lifecycle "\<lambda>_. s3c24xx_buttons_init (\<lambda>_. 0)" "\<lambda>_. s3c24xx_buttons_exit"
  by unfold_locales
     (simp_all add: s3c24xx_buttons_init_def s3c24xx_buttons_exit_def set_up_input_def
       tear_down_input_def in_pins_desc_def)

interpretation in34_life: lifecycle "\<lambda>_. buttons_init (\<lambda>_. 0)" "\<lambda>_. buttons_exit"
  by unfold_locales
     (simp_all add: buttons_init_def buttons_exit_def set_up_input_def tear_down_input_def in_pins_desc_def)

subsection \<open>Properties\<close>

text \<open>A key going through any number of presses; each is a burst of edges and then the timer.\<close>

definition press :: "in_pin_desc list \<times> (string \<Rightarrow> u32) \<Rightarrow> in_keys \<Rightarrow> in_keys" where
  "press b s = s3c24xx_buttons_timer_function_in (snd b) (fold s3c24xx_buttons_irq_in (fst b) s)"

definition press34 :: "in_pin_desc list \<times> (string \<Rightarrow> u32) \<Rightarrow> in_keys \<Rightarrow> in_keys" where
  "press34 b s = buttons_timer_function_in (snd b) (fold buttons_irq_in (fst b) s)"

definition key_events :: "kcall list \<Rightarrow> (nat \<times> int) list" where
  "key_events cs = concat (map (\<lambda>c. case c of Input_event d t k v \<Rightarrow> [(k, v)] | _ \<Rightarrow> []) cs)"

lemma key_events_append [simp]: "key_events (cs @ ds) = key_events cs @ key_events ds"
  by (simp add: key_events_def)

lemma key_events_simps [simp]:
  "key_events [] = []" "key_events (Input_event d t k v # cs) = (k, v) # key_events cs"
  "key_events (Mod_timer_HZ tm n # cs) = key_events cs" "key_events (Input_sync d # cs) = key_events cs"
  by (simp_all add: key_events_def)

lemma burst:
  "key_events (kt (fold s3c24xx_buttons_irq_in ds s)) = key_events (kt s)
   \<and> in_irq_pd (fold s3c24xx_buttons_irq_in ds s) = (if ds = [] then in_irq_pd s else Some (last ds))"
  "key_events (kt (fold buttons_irq_in ds s)) = key_events (kt s)
   \<and> in_irq_pd (fold buttons_irq_in ds s) = (if ds = [] then in_irq_pd s else Some (last ds))"
  by (induction ds arbitrary: s) (auto simp: dev_defs emit_def)



text \<open>
  When a line cannot be had, the load of the 2.6.22 driver still returns 0, the module stays
  loaded with the earlier lines only, and both the load and the later unload give back lines that
  are not held.
\<close>

theorem input_keys_partial_load:
  assumes "k < 4" "\<forall>j < k. ret j = 0" "ret k \<noteq> 0"
  shows "fst (s3c24xx_buttons_init ret) = 0
    \<and> filter (\<lambda>r. case r of Irq_line l d \<Rightarrow> True | _ \<Rightarrow> False) (held (snd (s3c24xx_buttons_init ret)))
        = map (\<lambda>i. Irq_line (in_irq (in_pins_desc ! i)) i) [0..<k]
    \<and> \<not> clean_from [] (snd (s3c24xx_buttons_init ret))
    \<and> \<not> clean_from (held (snd (s3c24xx_buttons_init ret))) s3c24xx_buttons_exit"
proof -
  have "k = 0 \<or> k = 1 \<or> k = 2 \<or> k = 3" using assms(1) by auto
  with assms(2,3) show ?thesis
    by (elim disjE)
       (simp_all add: s3c24xx_buttons_init_def s3c24xx_buttons_exit_def set_up_input_def
         tear_down_input_def in_pins_desc_def upt_rec numeral_2_eq_2 numeral_3_eq_3)
qed

theorem input_keys_partial_load_witness:
  "fst (s3c24xx_buttons_init (\<lambda>i. if i = 1 then -16 else 0)) = 0
    \<and> \<not> clean_from [] (snd (s3c24xx_buttons_init (\<lambda>i. if i = 1 then -16 else 0)))"
  using input_keys_partial_load [of 1 "\<lambda>i. if i = 1 then -16 else 0"] by simp

end
