(* ===== verification/Leds.thy ===== *)
theory Leds
  imports Kernel
begin

text \<open>
  The LED drivers: led/leds_drive.c with its four minor numbers and stored status, the driver split
  over a platform bus in leds_layering_bus_drv_dev, and the plain drivers first_drv.c and led.c.
  A LED is on when its pin is 0. \<^verbatim>\<open>GPFCON\<close> has two bits for each pin and \<^verbatim>\<open>GPFDAT\<close> one.
\<close>

subsection \<open>The driver with a status\<close>

text \<open>
  \<^verbatim>\<open>s3c2410_gpio_cfgpin\<close> and \<^verbatim>\<open>s3c2410_gpio_setpin\<close> belong to the kernel. They are parameters that
  act on the two registers, with the pin as its number in port F. The semaphore \<^verbatim>\<open>leds_lock\<close> is
  never held across a call, so it is left out.
\<close>

record gpio_ops =
  cfgpin :: "nat \<Rightarrow> u32 \<Rightarrow> u32 \<Rightarrow> u32"    \<comment> \<open>pin, function, \<^verbatim>\<open>GPFCON\<close>\<close>
  setpin :: "nat \<Rightarrow> u32 \<Rightarrow> u32 \<Rightarrow> u32"    \<comment> \<open>pin, value, \<^verbatim>\<open>GPFDAT\<close>\<close>

record leds = kstate +
  GPFCON :: u32
  GPFDAT :: u32
  leds_status :: u8

text \<open>\<^verbatim>\<open>w &= ~(1 << k)\<close> and \<^verbatim>\<open>w |= (1 << k)\<close> on a byte.\<close>

definition clear_bit8 :: "nat \<Rightarrow> u8 \<Rightarrow> u8" where
  "clear_bit8 k w = w AND NOT (push_bit k 1)"

definition set_bit8 :: "nat \<Rightarrow> u8 \<Rightarrow> u8" where
  "set_bit8 k w = w OR push_bit k 1"

lemma status_bits:
  "k < 8 \<Longrightarrow> bit (clear_bit8 k w) n \<longleftrightarrow> n \<noteq> k \<and> bit w n"
  "k < 8 \<Longrightarrow> bit (set_bit8 k w) n \<longleftrightarrow> n = k \<or> bit w n"
  by (auto simp: clear_bit8_def set_bit8_def bit_simps dest: bit_imp_le_length)

definition s3c24xx_leds_open :: "gpio_ops \<Rightarrow> nat \<Rightarrow> leds \<Rightarrow> int \<times> leds" where
  "s3c24xx_leds_open g minor s =
     (0, if minor = 0 then
           (let s = s\<lparr>GPFCON := clear_mask (push_bit (4*2) 0x3) (GPFCON s)\<rparr>;
                s = s\<lparr>GPFCON := set_mask (push_bit (4*2) 1) (GPFCON s)\<rparr>;
                s = s\<lparr>GPFCON := clear_mask (push_bit (5*2) 0x3) (GPFCON s)\<rparr>;
                s = s\<lparr>GPFCON := set_mask (push_bit (5*2) 1) (GPFCON s)\<rparr>;
                s = s\<lparr>GPFCON := clear_mask (push_bit (6*2) 0x3) (GPFCON s)\<rparr>;
                s = s\<lparr>GPFCON := set_mask (push_bit (6*2) 1) (GPFCON s)\<rparr>;
                s = s\<lparr>GPFDAT := clear_mask (push_bit 4 1) (GPFDAT s)\<rparr>;
                s = s\<lparr>GPFDAT := clear_mask (push_bit 5 1) (GPFDAT s)\<rparr>;
                s = s\<lparr>GPFDAT := clear_mask (push_bit 6 1) (GPFDAT s)\<rparr>
            in s\<lparr>leds_status := 0\<rparr>)
         else if minor = 1 then
           s\<lparr>GPFCON := cfgpin g 4 1 (GPFCON s), GPFDAT := setpin g 4 0 (GPFDAT s),
             leds_status := clear_bit8 0 (leds_status s)\<rparr>
         else if minor = 2 then
           s\<lparr>GPFCON := cfgpin g 5 1 (GPFCON s), GPFDAT := setpin g 5 0 (GPFDAT s),
             leds_status := clear_bit8 1 (leds_status s)\<rparr>
         else if minor = 3 then
           s\<lparr>GPFCON := cfgpin g 6 1 (GPFCON s), GPFDAT := setpin g 6 0 (GPFDAT s),
             leds_status := clear_bit8 2 (leds_status s)\<rparr>
         else s)"

text \<open>
  \<^verbatim>\<open>val\<close> is the byte of the user, or what the stack held when \<^verbatim>\<open>copy_from_user\<close> fails. It has type
  \<^verbatim>\<open>char\<close>, which is unsigned on this target, and is passed on as an unsigned int.
\<close>

definition s3c24xx_leds_write :: "gpio_ops \<Rightarrow> nat \<Rightarrow> u8 \<Rightarrow> leds \<Rightarrow> int \<times> leds" where
  "s3c24xx_leds_write g minor val s =
     (1, if minor = 0 then
           s\<lparr>GPFDAT := setpin g 6 (ucast (val AND 0x1))
                        (setpin g 5 (ucast (val AND 0x1)) (setpin g 4 (ucast (val AND 0x1)) (GPFDAT s))),
             leds_status := val\<rparr>
         else if minor = 1 then
           s\<lparr>GPFDAT := setpin g 4 (ucast val) (GPFDAT s),
             leds_status := (if val = 0 then clear_bit8 0 (leds_status s)
                             else set_bit8 0 (leds_status s))\<rparr>
         else if minor = 2 then
           s\<lparr>GPFDAT := setpin g 5 (ucast val) (GPFDAT s),
             leds_status := (if val = 0 then clear_bit8 1 (leds_status s)
                             else set_bit8 1 (leds_status s))\<rparr>
         else if minor = 3 then
           s\<lparr>GPFDAT := setpin g 6 (ucast val) (GPFDAT s),
             leds_status := (if val = 0 then clear_bit8 2 (leds_status s)
                             else set_bit8 2 (leds_status s))\<rparr>
         else s)"

text \<open>
  What the kernel answers to the init function: whether the mapping succeeds, what \<^verbatim>\<open>register_chrdev\<close>
  returns, and the errors of \<^verbatim>\<open>class_create\<close> and of the three nodes (0 for none).
\<close>

record leds_env =
  va_ok :: bool
  chrdev_ret :: int
  class_err :: int
  node_err :: "nat \<Rightarrow> int"

definition LED_MAJOR :: nat where "LED_MAJOR = 231"

fun make_nodes :: "(nat \<Rightarrow> int) \<Rightarrow> nat list \<Rightarrow> int \<times> kcall list" where
  "make_nodes err [] = (0, [])"
| "make_nodes err (m # ms) =
     (if err m \<noteq> 0 then (err m, [])
      else (case make_nodes err ms of (r, cs) \<Rightarrow> (r, Device_create LED_MAJOR m # cs)))"

definition s3c24xx_leds_init :: "leds_env \<Rightarrow> int \<times> kcall list" where
  "s3c24xx_leds_init e =
     (if \<not> va_ok e then (- EIO, [])
      else if chrdev_ret e < 0 then (chrdev_ret e, [Ioremap 0x56000000 0x100000])
      else if class_err e \<noteq> 0
      then (class_err e, [Ioremap 0x56000000 0x100000, Register_chrdev LED_MAJOR])
      else (case make_nodes (node_err e) [1, 2, 3] of (r, cs) \<Rightarrow>
             (r, [Ioremap 0x56000000 0x100000, Register_chrdev LED_MAJOR, Class_create ''leds'',
                  Device_create LED_MAJOR 0] @ cs)))"

definition s3c24xx_leds_exit :: "kcall list" where
  "s3c24xx_leds_exit =
     Unregister_chrdev LED_MAJOR # map (Device_destroy LED_MAJOR) [0, 1, 2, 3]
     @ [Class_destroy ''leds'', Iounmap 0x56000000]"

text \<open>A load that the kernel grants is undone by the unload; a load that fails gives nothing back.\<close>

interpretation leds_life: lifecycle
  "\<lambda>_. s3c24xx_leds_init \<lparr>va_ok = True, chrdev_ret = 0, class_err = 0, node_err = \<lambda>_. 0\<rparr>" "\<lambda>_. s3c24xx_leds_exit"
  by unfold_locales (simp_all add: s3c24xx_leds_init_def s3c24xx_leds_exit_def)

lemma leds_failed_load_leaks:
  "va_ok e \<Longrightarrow> chrdev_ret e < 0 \<Longrightarrow> held (snd (s3c24xx_leds_init e)) = [Io_map 0x56000000]"
  by (simp add: s3c24xx_leds_init_def)

subsection \<open>The driver split over a bus\<close>

record layered = kstate +
  gpio_con :: u32
  gpio_dat :: u32
  led_pin :: nat

text \<open>The resources of led_layering_dev.c: a memory range (first and last address) and a number.\<close>

record led_device =
  dev_name :: string
  mem_start :: u32
  mem_end :: u32
  irq_start :: nat

definition s3c24xx_leds_dev :: led_device where
  "s3c24xx_leds_dev =
     \<lparr>dev_name = ''mys3c24xx_leds'', mem_start = 0x56000050, mem_end = 0x56000050 + 8 - 1, irq_start = 5\<rparr>"

definition s3c24xx_layering_leds_drv :: string where
  "s3c24xx_layering_leds_drv = ''mys3c24xx_layering_leds''"

definition s3c24xx_layering_leds_probe :: "nat \<Rightarrow> led_device \<Rightarrow> layered \<Rightarrow> int \<times> layered" where
  "s3c24xx_layering_leds_probe major d s =
     (0, emit [Ioremap (mem_start d) (unat (mem_end d - mem_start d + 1)), Register_chrdev major,
               Class_create ''mys3c24xx_layering_leds'', Device_create major 0]
           (s\<lparr>led_pin := irq_start d\<rparr>))"

definition s3c24xx_layering_leds_remove :: "nat \<Rightarrow> led_device \<Rightarrow> layered \<Rightarrow> int \<times> layered" where
  "s3c24xx_layering_leds_remove major d s =
     (0, emit [Device_destroy major 0, Class_destroy ''mys3c24xx_layering_leds'',
               Unregister_chrdev major, Iounmap (mem_start d)] s)"

definition s3c24xx_layering_leds_open :: "layered \<Rightarrow> int \<times> layered" where
  "s3c24xx_layering_leds_open s =
     (0, s\<lparr>gpio_con := set_mask (push_bit (led_pin s * 2) 0x1)
                        (clear_mask (push_bit (led_pin s * 2) 0x3) (gpio_con s))\<rparr>)"

text \<open>
  \<^verbatim>\<open>copy_from_user(&val, buf, count)\<close> writes \<^verbatim>\<open>count\<close> bytes over the four of \<^verbatim>\<open>val\<close>, little-endian:
  more than four are undefined, and fewer leave the rest of what the stack held, \<^verbatim>\<open>junk\<close>.
\<close>

definition int_of_bytes :: "u8 list \<Rightarrow> u32" where
  "int_of_bytes bs = foldr (\<lambda>b w. push_bit 8 w OR ucast b) bs 0"

definition user_int :: "u8 list \<Rightarrow> u8 list \<Rightarrow> u32 option" where
  "user_int junk buf =
     (if 4 < length buf then None else Some (int_of_bytes (take 4 (buf @ drop (length buf) junk))))"

definition s3c24xx_layering_leds_write :: "u8 list \<Rightarrow> u8 list \<Rightarrow> layered \<Rightarrow> (int \<times> layered) option" where
  "s3c24xx_layering_leds_write junk buf s =
     map_option (\<lambda>val. (0, if val = 1
          then s\<lparr>gpio_dat := clear_mask (push_bit (led_pin s) 1) (gpio_dat s)\<rparr>
          else s\<lparr>gpio_dat := set_mask (push_bit (led_pin s) 1) (gpio_dat s)\<rparr>)) (user_int junk buf)"

definition s3c24xx_leds_dev_init :: "int \<times> kcall list" where
  "s3c24xx_leds_dev_init = (0, [Register_driver (dev_name s3c24xx_leds_dev)])"

definition s3c24xx_leds_dev_exit :: "kcall list" where
  "s3c24xx_leds_dev_exit = [Unregister_driver (dev_name s3c24xx_leds_dev)]"

definition s3c24xx_layering_leds_drv_init :: "int \<times> kcall list" where
  "s3c24xx_layering_leds_drv_init = (0, [Register_driver s3c24xx_layering_leds_drv])"

definition s3c24xx_layering_leds_drv_exit :: "kcall list" where
  "s3c24xx_layering_leds_drv_exit = [Unregister_driver s3c24xx_layering_leds_drv]"

text \<open>
  The platform bus pairs a driver with the devices of the same name; these two never meet, so the
  kernel does not call the probe function.
\<close>

lemma layered_names_differ: "dev_name s3c24xx_leds_dev \<noteq> s3c24xx_layering_leds_drv"
  by (simp add: s3c24xx_leds_dev_def s3c24xx_layering_leds_drv_def)

definition layered_start :: layered where
  "layered_start = \<lparr>kt = [], gpio_con = 0, gpio_dat = 0, led_pin = 0\<rparr>"

interpretation layered_life: lifecycle
  "\<lambda>major. (0, kt (snd (s3c24xx_layering_leds_probe major s3c24xx_leds_dev layered_start)))"
  "\<lambda>major. kt (snd (s3c24xx_layering_leds_remove major s3c24xx_leds_dev layered_start))"
  by unfold_locales
     (simp_all add: s3c24xx_layering_leds_probe_def s3c24xx_layering_leds_remove_def layered_start_def)

subsection \<open>The plain drivers\<close>

record first_led = kstate +
  gpfcon :: u32
  gpfdat :: u32

definition first_drv_open :: "first_led \<Rightarrow> int \<times> first_led" where
  "first_drv_open s =
     (let s = s\<lparr>gpfcon := clear_mask (push_bit (4*2) 0x3 OR push_bit (5*2) 0x3 OR push_bit (6*2) 0x3) (gpfcon s)\<rparr>
      in (0, s\<lparr>gpfcon := set_mask (push_bit (4*2) 0x1 OR push_bit (5*2) 0x1 OR push_bit (6*2) 0x1) (gpfcon s)\<rparr>))"

definition first_drv_write :: "u8 list \<Rightarrow> u8 list \<Rightarrow> first_led \<Rightarrow> (int \<times> first_led) option" where
  "first_drv_write junk buf s =
     map_option (\<lambda>val. (0, if val = 1
          then s\<lparr>gpfdat := clear_mask (push_bit 4 1 OR push_bit 5 1 OR push_bit 6 1) (gpfdat s)\<rparr>
          else s\<lparr>gpfdat := set_mask (push_bit 4 1 OR push_bit 5 1 OR push_bit 6 1) (gpfdat s)\<rparr>)) (user_int junk buf)"

definition first_drv_init :: "nat \<Rightarrow> int \<times> kcall list" where
  "first_drv_init major =
     (0, [Register_chrdev major, Class_create ''firstdrv'', Device_create major 0, Ioremap 0x56000050 16])"

definition first_drv_exit :: "nat \<Rightarrow> kcall list" where
  "first_drv_exit major =
     [Unregister_chrdev major, Device_destroy major 0, Class_destroy ''firstdrv'', Iounmap 0x56000050]"

interpretation first_led_life: lifecycle first_drv_init first_drv_exit
  by unfold_locales (simp_all add: first_drv_init_def first_drv_exit_def)

text \<open>led.c of the 3.4.2 tree.\<close>

definition led_drv_open :: "first_led \<Rightarrow> int \<times> first_led" where
  "led_drv_open s =
     (let s = s\<lparr>gpfcon := clear_mask (push_bit (4*2) 0x3 OR push_bit (5*2) 0x3 OR push_bit (6*2) 0x3) (gpfcon s)\<rparr>
      in (0, s\<lparr>gpfcon := set_mask (push_bit (4*2) 0x1 OR push_bit (5*2) 0x1 OR push_bit (6*2) 0x1) (gpfcon s)\<rparr>))"

definition led_drv_write :: "u8 list \<Rightarrow> u8 list \<Rightarrow> first_led \<Rightarrow> (int \<times> first_led) option" where
  "led_drv_write junk buf s =
     map_option (\<lambda>val. (0, if val = 1
          then s\<lparr>gpfdat := clear_mask (push_bit 4 1 OR push_bit 5 1 OR push_bit 6 1) (gpfdat s)\<rparr>
          else s\<lparr>gpfdat := set_mask (push_bit 4 1 OR push_bit 5 1 OR push_bit 6 1) (gpfdat s)\<rparr>)) (user_int junk buf)"

definition led_drv_init :: "nat \<Rightarrow> int \<times> kcall list" where
  "led_drv_init major =
     (0, [Register_chrdev major, Class_create ''firstdrv'', Device_create major 0, Ioremap 0x56000050 16])"

definition led_drv_exit :: "nat \<Rightarrow> kcall list" where
  "led_drv_exit major =
     [Unregister_chrdev major, Device_destroy major 0, Class_destroy ''firstdrv'', Iounmap 0x56000050]"

interpretation led_life: lifecycle led_drv_init led_drv_exit
  by unfold_locales (simp_all add: led_drv_init_def led_drv_exit_def)

subsection \<open>The pins follow the writes\<close>

text \<open>What the kernel documents of \<^verbatim>\<open>s3c2410_gpio_setpin\<close> for the values 0 and 1.\<close>

definition gpio_ok :: "gpio_ops \<Rightarrow> bool" where
  "gpio_ok g \<longleftrightarrow> (\<forall>p < 8. \<forall>v. v = 0 \<or> v = 1 \<longrightarrow>
     (\<forall>d n. bit (setpin g p v d) n \<longleftrightarrow> (if n = p then v = 1 else bit d n)))"

definition plain_gpio :: gpio_ops where
  "plain_gpio = \<lparr>cfgpin = \<lambda>p f c. set_mask (push_bit (p*2) f) (clear_mask (push_bit (p*2) 3) c),
     setpin = \<lambda>p v d. set_mask (push_bit p v) (clear_mask (push_bit p 1) d)\<rparr>"

lemma gpio_ok_plain: "gpio_ok plain_gpio"
  by (auto simp: gpio_ok_def plain_gpio_def bit_facts simp del: push_bit_of_1)

datatype led_op = Open_led nat | Write_led nat u8

fun led_step :: "gpio_ops \<Rightarrow> led_op \<Rightarrow> leds \<Rightarrow> leds" where
  "led_step g (Open_led m) s = snd (s3c24xx_leds_open g m s)"
| "led_step g (Write_led m v) s = snd (s3c24xx_leds_write g m v s)"

definition mirrors :: "leds \<Rightarrow> bool" where
  "mirrors s \<longleftrightarrow> (\<forall>i < 3. bit (leds_status s) i \<longleftrightarrow> bit (GPFDAT s) (4 + i))"

lemma mirrors_iff: "mirrors s \<longleftrightarrow>
  (bit (leds_status s) 0 \<longleftrightarrow> bit (GPFDAT s) 4) \<and> (bit (leds_status s) 1 \<longleftrightarrow> bit (GPFDAT s) 5)
  \<and> (bit (leds_status s) 2 \<longleftrightarrow> bit (GPFDAT s) 6)"
  by (auto simp: mirrors_def numeral_3_eq_3 less_Suc_eq numeral_2_eq_2 eval_nat_numeral)

lemma setpin_bit:
  "gpio_ok g \<Longrightarrow> p < 8 \<Longrightarrow> bit (setpin g p 0 d) n \<longleftrightarrow> n \<noteq> p \<and> bit d n"
  "gpio_ok g \<Longrightarrow> p < 8 \<Longrightarrow> bit (setpin g p 1 d) n \<longleftrightarrow> n = p \<or> bit d n"
  by (auto simp: gpio_ok_def)

lemma open_minor_0:
  "GPFDAT (snd (s3c24xx_leds_open g 0 s)) =
     clear_mask (push_bit 6 1) (clear_mask (push_bit 5 1) (clear_mask (push_bit 4 1) (GPFDAT s)))"
  "leds_status (snd (s3c24xx_leds_open g 0 s)) = 0"
  by (simp_all add: s3c24xx_leds_open_def Let_def)

lemma open_mirrors:
  assumes "gpio_ok g" "mirrors s"
  shows "mirrors (snd (s3c24xx_leds_open g m s))"
proof -
  consider "m = 0" | "m = 1" | "m = 2" | "m = 3" | "m > 3" by linarith
  then show ?thesis
  proof cases
    case 1
    then show ?thesis
      by (simp add: mirrors_iff open_minor_0 bit_facts del: push_bit_of_1)
  qed (use assms in \<open>simp_all add: mirrors_iff s3c24xx_leds_open_def setpin_bit status_bits\<close>)
qed

lemma write_mirrors:
  assumes "gpio_ok g" "mirrors s" "v = 0 \<or> v = 1 \<and> m \<noteq> 0"
  shows "mirrors (snd (s3c24xx_leds_write g m v s))"
proof -
  consider "m = 0" | "m = 1" | "m = 2" | "m = 3" | "m > 3" by linarith
  then show ?thesis
    using assms
    by cases (auto simp: mirrors_iff s3c24xx_leds_write_def setpin_bit status_bits)
qed

subsection \<open>Properties\<close>

text \<open>
  After \<^verbatim>\<open>/dev/leds\<close> was opened, the stored status mirrors the pins of the three LEDs: this is
  kept by every sequence of opens of the four nodes and of writes of 0 or 1, as long as nobody
  writes a 1 to \<^verbatim>\<open>/dev/leds\<close> itself.
\<close>

theorem leds_status_mirrors:
  assumes "gpio_ok g" "\<forall>m v. Write_led m v \<in> set ops \<longrightarrow> v = 0 \<or> v = 1 \<and> m \<noteq> 0"
  shows "mirrors (fold (led_step g) ops (snd (s3c24xx_leds_open g 0 s)))"
proof -
  have "mirrors s' \<Longrightarrow> mirrors (fold (led_step g) ops s')" for s'
    using assms(2)
  proof (induction ops arbitrary: s')
    case (Cons op ops)
    have "mirrors (led_step g op s')"
      using Cons.prems assms(1) by (cases op) (auto intro: open_mirrors write_mirrors)
    then show ?case using Cons by simp
  qed simp
  moreover have "mirrors (snd (s3c24xx_leds_open g 0 s))"
    by (simp add: mirrors_iff open_minor_0 bit_facts del: push_bit_of_1)
  ultimately show ?thesis by blast
qed

theorem leds_status_mirrors_witness:
  "mirrors (fold (led_step plain_gpio) [Write_led 2 1, Open_led 3, Write_led 0 0, Write_led 1 1]
     (snd (s3c24xx_leds_open plain_gpio 0 \<lparr>kt = [], GPFCON = 0, GPFDAT = 0xff, leds_status = 7\<rparr>)))"
  by (rule leds_status_mirrors) (auto simp: gpio_ok_plain)

text \<open>
  A 1 written to \<^verbatim>\<open>/dev/leds\<close> puts all three LED pins to 1, but the stored status becomes 1:
  it says that the second and the third LED are on while they are off.
\<close>

theorem leds_write_all_mismatch:
  assumes "gpio_ok g"
  shows "\<exists>s'. s3c24xx_leds_write g 0 1 s = (1, s')
    \<and> bit (GPFDAT s') 4 \<and> bit (GPFDAT s') 5 \<and> bit (GPFDAT s') 6
    \<and> leds_status s' = 1 \<and> \<not> bit (leds_status s') 1 \<and> \<not> bit (leds_status s') 2 \<and> \<not> mirrors s'"
  using assms by (auto simp: s3c24xx_leds_write_def mirrors_iff setpin_bit)

theorem leds_write_all_mismatch_witness:
  "\<exists>s'. s3c24xx_leds_write plain_gpio 0 1 \<lparr>kt = [], GPFCON = 0, GPFDAT = 0, leds_status = 0\<rparr> = (1, s')
    \<and> \<not> mirrors s'"
  using leds_write_all_mismatch [OF gpio_ok_plain, of "\<lparr>kt = [], GPFCON = 0, GPFDAT = 0, leds_status = 0\<rparr>"]
  by blast

text \<open>An int that the user wrote as four bytes.\<close>

lemma user_int_4: "user_int junk [b0, b1, b2, b3] = Some (int_of_bytes [b0, b1, b2, b3])"
  by (simp add: user_int_def)

lemma bit_push_3: "bit (push_bit k 3 :: u32) n \<longleftrightarrow> n < 32 \<and> (n = k \<or> n = Suc k)"
proof -
  have "push_bit k 3 = (push_bit k (mask 2) :: u32)" by (simp add: mask_eq_exp_minus_1)
  then show ?thesis by (auto simp: bit_push_bit_iff bit_mask_iff simp del: push_bit_numeral)
qed

text \<open>
  The LED driver on the platform bus, probed with the resources of the device file, maps
  exactly the two registers, configures exactly pin 5 as an output when it is opened, and a write
  of the int 1 lowers exactly that pin, any other int raises it.
\<close>

theorem layered_drives_pin_5:
  "\<exists>s1 s2. s3c24xx_layering_leds_probe major s3c24xx_leds_dev s = (0, s1)
    \<and> kt s1 = kt s @ [Ioremap 0x56000050 8, Register_chrdev major,
         Class_create ''mys3c24xx_layering_leds'', Device_create major 0]
    \<and> s3c24xx_layering_leds_open s1 = (0, s2)
    \<and> (\<forall>n. bit (gpio_con s2) n \<longleftrightarrow> (if n = 10 then True else if n = 11 then False else bit (gpio_con s) n))
    \<and> (\<forall>junk b0 b1 b2 b3. \<exists>s3. s3c24xx_layering_leds_write junk [b0, b1, b2, b3] s2 = Some (0, s3)
         \<and> (\<forall>n. bit (gpio_dat s3) n \<longleftrightarrow>
              (if n = 5 then int_of_bytes [b0, b1, b2, b3] \<noteq> 1 else bit (gpio_dat s) n)))"
proof -
  define s1 where "s1 = snd (s3c24xx_layering_leds_probe major s3c24xx_leds_dev s)"
  define s2 where "s2 = snd (s3c24xx_layering_leds_open s1)"
  have f: "led_pin s1 = 5" "gpio_con s1 = gpio_con s" "gpio_dat s1 = gpio_dat s"
    by (simp_all add: s1_def s3c24xx_layering_leds_probe_def s3c24xx_leds_dev_def emit_def)
  have k: "kt s1 = kt s @ [Ioremap 0x56000050 8, Register_chrdev major,
         Class_create ''mys3c24xx_layering_leds'', Device_create major 0]"
    by (simp add: s1_def s3c24xx_layering_leds_probe_def s3c24xx_leds_dev_def)
  have o: "gpio_con s2 = set_mask (push_bit (5 * 2) 1) (clear_mask (push_bit (5 * 2) 3) (gpio_con s))"
    "gpio_dat s2 = gpio_dat s" "led_pin s2 = 5"
    by (simp_all add: s2_def s3c24xx_layering_leds_open_def f del: push_bit_numeral push_bit_of_1)
  have con: "bit (gpio_con s2) n \<longleftrightarrow> (if n = 10 then True else if n = 11 then False else bit (gpio_con s) n)" for n
    unfolding o(1) bit_set_mask bit_clear_mask bit_push_3 bit_push_bit_1
    by (auto dest: bit_imp_le_length)
  have wr: "\<exists>s3. s3c24xx_layering_leds_write junk [b0, b1, b2, b3] s2 = Some (0, s3)
       \<and> (\<forall>n. bit (gpio_dat s3) n \<longleftrightarrow>
            (if n = 5 then int_of_bytes [b0, b1, b2, b3] \<noteq> 1 else bit (gpio_dat s) n))" for junk b0 b1 b2 b3
    unfolding s3c24xx_layering_leds_write_def user_int_4 option.map o
    by (cases "int_of_bytes [b0, b1, b2, b3] = 1")
       (simp_all add: o bit_set_mask bit_clear_mask bit_push_bit_1 del: push_bit_numeral push_bit_of_1)
  have "s3c24xx_layering_leds_probe major s3c24xx_leds_dev s = (0, s1)" "s3c24xx_layering_leds_open s1 = (0, s2)"
    by (simp_all add: s1_def s2_def s3c24xx_layering_leds_probe_def s3c24xx_layering_leds_open_def)
  then show ?thesis using k con wr by blast
qed

text \<open>
  The plain drivers of both trees, which differ in nothing else: opening makes exactly the pins
  4, 5 and 6 outputs, a write of the int 1 lowers these three pins and any other int raises them,
  and no other pin changes.
\<close>

theorem plain_leds_drive_three:
  "(\<forall>n. bit (gpfcon (snd (first_drv_open s))) n \<longleftrightarrow>
       (if n \<in> {8, 10, 12} then True else if n \<in> {9, 11, 13} then False else bit (gpfcon s) n))
   \<and> (\<exists>s'. first_drv_write junk [b0, b1, b2, b3] s = Some (0, s') \<and>
       (\<forall>n. bit (gpfdat s') n \<longleftrightarrow>
          (if n \<in> {4, 5, 6} then int_of_bytes [b0, b1, b2, b3] \<noteq> 1 else bit (gpfdat s) n)))
   \<and> led_drv_open s = first_drv_open s \<and> led_drv_write junk buf s = first_drv_write junk buf s"
proof -
  have o: "gpfcon (snd (first_drv_open s)) =
      set_mask (push_bit (4*2) 0x1 OR push_bit (5*2) 0x1 OR push_bit (6*2) 0x1)
        (clear_mask (push_bit (4*2) 0x3 OR push_bit (5*2) 0x3 OR push_bit (6*2) 0x3) (gpfcon s))"
    by (simp add: first_drv_open_def Let_def)
  have con: "bit (gpfcon (snd (first_drv_open s))) n \<longleftrightarrow>
       (if n \<in> {8, 10, 12} then True else if n \<in> {9, 11, 13} then False else bit (gpfcon s) n)" for n
    unfolding o bit_set_mask bit_clear_mask bit_or_iff bit_push_3 bit_push_bit_1
    by (auto dest: bit_imp_le_length)
  have "\<exists>s'. first_drv_write junk [b0, b1, b2, b3] s = Some (0, s') \<and>
       (\<forall>n. bit (gpfdat s') n \<longleftrightarrow>
          (if n \<in> {4, 5, 6} then int_of_bytes [b0, b1, b2, b3] \<noteq> 1 else bit (gpfdat s) n))"
    unfolding first_drv_write_def user_int_4 option.map
    by (cases "int_of_bytes [b0, b1, b2, b3] = 1")
       (auto simp: bit_set_mask bit_clear_mask bit_or_iff bit_push_bit_1 simp del: push_bit_numeral push_bit_of_1)
  with con show ?thesis
    by (simp add: led_drv_open_def led_drv_write_def first_drv_open_def first_drv_write_def)
qed

end
