(* ===== verification/RegEditor.thy ===== *)
theory RegEditor
  imports Leds
begin

text \<open>
  The register editor of debug_regeditor: ker_rw.c, which lets a program read and write physical
  addresses with a width of 8, 16 or 32 bits, and the program regeditor.c. What an access does is up
  to the hardware, so the bus is a parameter that acts on a state of its own. chrdev_another/hello.c,
  which only claims device numbers, is at the end.
\<close>

subsection \<open>The kernel side\<close>

definition KER_RW_R8 :: nat where "KER_RW_R8 = 0"
definition KER_RW_R16 :: nat where "KER_RW_R16 = 1"
definition KER_RW_R32 :: nat where "KER_RW_R32 = 2"
definition KER_RW_W8 :: nat where "KER_RW_W8 = 3"
definition KER_RW_W16 :: nat where "KER_RW_W16 = 4"
definition KER_RW_W32 :: nat where "KER_RW_W32 = 5"

lemmas KER_RW_defs = KER_RW_R8_def KER_RW_R16_def KER_RW_R32_def KER_RW_W8_def KER_RW_W16_def KER_RW_W32_def

text \<open>Volatile accesses: address, and the state of the hardware before and after.\<close>

record 'm bus =
  rd8 :: "u32 \<Rightarrow> 'm \<Rightarrow> u8 \<times> 'm"
  rd16 :: "u32 \<Rightarrow> 'm \<Rightarrow> u16 \<times> 'm"
  rd32 :: "u32 \<Rightarrow> 'm \<Rightarrow> u32 \<times> 'm"
  wr8 :: "u32 \<Rightarrow> u8 \<Rightarrow> 'm \<Rightarrow> 'm"
  wr16 :: "u32 \<Rightarrow> u16 \<Rightarrow> 'm \<Rightarrow> 'm"
  wr32 :: "u32 \<Rightarrow> u32 \<Rightarrow> 'm \<Rightarrow> 'm"

text \<open>
  \<^verbatim>\<open>buf\<close> are the two words at the argument, address and value; the reads write the second one
  back. The accesses go through a mapping of the four bytes at the address, made and given back by
  every call; both copies are taken to succeed, as the driver does not look at their results.
\<close>

definition ker_rw_ioctl ::
  "'m bus \<Rightarrow> nat \<Rightarrow> u32 \<times> u32 \<Rightarrow> 'm \<Rightarrow> int \<times> (u32 \<times> u32) \<times> 'm \<times> kcall list" where
  "ker_rw_ioctl b cmd buf m =
     (let addr = fst buf; val = snd buf; calls = [Ioremap addr 4, Iounmap addr]
      in if cmd = KER_RW_R8 then (case rd8 b addr m of (v, m') \<Rightarrow> (0, (addr, ucast v), m', calls))
         else if cmd = KER_RW_R16 then (case rd16 b addr m of (v, m') \<Rightarrow> (0, (addr, ucast v), m', calls))
         else if cmd = KER_RW_R32 then (case rd32 b addr m of (v, m') \<Rightarrow> (0, (addr, v), m', calls))
         else if cmd = KER_RW_W8 then (0, buf, wr8 b addr (ucast val) m, calls)
         else if cmd = KER_RW_W16 then (0, buf, wr16 b addr (ucast val) m, calls)
         else if cmd = KER_RW_W32 then (0, buf, wr32 b addr val m, calls)
         else (0, buf, m, calls))"

definition ker_rw_init :: "nat \<Rightarrow> int \<times> kcall list" where
  "ker_rw_init major = (0, [Register_chrdev major, Class_create ''ker_rw'', Device_create major 0])"

definition ker_rw_exit :: "nat \<Rightarrow> kcall list" where
  "ker_rw_exit major = [Device_destroy major 0, Class_destroy ''ker_rw'', Unregister_chrdev major]"

interpretation ker_rw_life: lifecycle ker_rw_init ker_rw_exit
  by unfold_locales (simp_all add: ker_rw_init_def ker_rw_exit_def)

subsection \<open>The program\<close>

text \<open>
  A line of output is the index, the address and the value printed. \<^verbatim>\<open>read_loop\<close> is the loop of the
  three read commands; its bound \<^verbatim>\<open>num\<close> is unsigned, so the counter does not wrap.
\<close>

type_synonym out_line = "nat \<times> u32 \<times> u32"

fun read_loop :: "'m bus \<Rightarrow> nat \<Rightarrow> u32 \<Rightarrow> (u32 \<Rightarrow> u32) \<Rightarrow> nat \<Rightarrow> nat \<Rightarrow> u32 \<times> u32 \<Rightarrow> 'm \<Rightarrow> out_line list \<times> 'm" where
  "read_loop b cmd step shown i 0 buf m = ([], m)"
| "read_loop b cmd step shown i (Suc n) buf m =
     (case ker_rw_ioctl b cmd buf m of (r, buf', m', cs) \<Rightarrow>
        (case read_loop b cmd step shown (Suc i) n (fst buf' + step, snd buf') m' of
           (ls, m'') \<Rightarrow> ((i, fst buf', shown (snd buf')) # ls, m'')))"

text \<open>
  \<^verbatim>\<open>strtoul\<close> is a parameter, \<^verbatim>\<open>open_ok\<close> says whether \<^verbatim>\<open>/dev/ker_rw\<close> can be opened, and \<^verbatim>\<open>junk\<close> is
  what \<^verbatim>\<open>buf[1]\<close> holds when no third argument sets it. The result is the exit code, the lines and
  the hardware.
\<close>

definition regeditor_main ::
  "'m bus \<Rightarrow> (string \<Rightarrow> u32) \<Rightarrow> bool \<Rightarrow> u32 \<Rightarrow> string list \<Rightarrow> 'm \<Rightarrow> int \<times> out_line list \<times> 'm" where
  "regeditor_main b strtoul open_ok junk argv m =
     (if length argv \<noteq> 3 \<and> length argv \<noteq> 4 then (- 1, [], m)
      else if \<not> open_ok then (- 2, [], m)
      else let addr = strtoul (argv ! 2);
               val = (if length argv = 4 then strtoul (argv ! 3) else junk);
               num = (if length argv = 4 then val else 1);
               cmd = argv ! 1
           in if cmd = ''r8'' then (0, read_loop b KER_RW_R8 1 (\<lambda>v. ucast (ucast v :: u8)) 0 (unat num) (addr, val) m)
              else if cmd = ''r16'' then (0, read_loop b KER_RW_R16 2 (\<lambda>v. ucast (ucast v :: u16)) 0 (unat num) (addr, val) m)
              else if cmd = ''r32'' then (0, read_loop b KER_RW_R32 4 (\<lambda>v. v) 0 (unat num) (addr, val) m)
              else if cmd = ''w8'' then (0, [], fst (snd (snd (ker_rw_ioctl b KER_RW_W8 (addr, val) m))))
              else if cmd = ''w16'' then (0, [], fst (snd (snd (ker_rw_ioctl b KER_RW_W16 (addr, val) m))))
              else if cmd = ''w32'' then (0, [], fst (snd (snd (ker_rw_ioctl b KER_RW_W32 (addr, val) m))))
              else (- 1, [], m))"

subsection \<open>Registers that keep what is written\<close>

text \<open>
  Plain memory on a little-endian bus: reads change nothing, a read after a write of the same width
  at the same address returns the value.
\<close>

definition quiet_reads :: "'m bus \<Rightarrow> bool" where
  "quiet_reads b \<longleftrightarrow> (\<forall>a m. snd (rd8 b a m) = m \<and> snd (rd16 b a m) = m \<and> snd (rd32 b a m) = m)"

definition keeps_values :: "'m bus \<Rightarrow> bool" where
  "keeps_values b \<longleftrightarrow> (\<forall>a m. (\<forall>v. fst (rd8 b a (wr8 b a v m)) = v) \<and> (\<forall>v. fst (rd16 b a (wr16 b a v m)) = v)
     \<and> (\<forall>v. fst (rd32 b a (wr32 b a v m)) = v))"

definition byte_memory :: "(u32 \<Rightarrow> u8) bus" where
  "byte_memory = \<lparr>rd8 = \<lambda>a m. (m a, m),
     rd16 = \<lambda>a m. (push_bit 8 (ucast (m (a + 1))) OR ucast (m a), m),
     rd32 = \<lambda>a m. (int_of_bytes [m a, m (a + 1), m (a + 2), m (a + 3)], m),
     wr8 = \<lambda>a v m. m(a := v),
     wr16 = \<lambda>a v m. m(a := ucast v, a + 1 := ucast (drop_bit 8 v)),
     wr32 = \<lambda>a v m. m(a := ucast v, a + 1 := ucast (drop_bit 8 v), a + 2 := ucast (drop_bit 16 v),
                       a + 3 := ucast (drop_bit 24 v))\<rparr>"

lemma quiet_memory: "quiet_reads byte_memory"
  by (simp add: quiet_reads_def byte_memory_def)

lemma int_of_bytes_4: "int_of_bytes [b0, b1, b2, b3] =
    push_bit 24 (ucast b3) OR push_bit 16 (ucast b2) OR push_bit 8 (ucast b1) OR ucast b0"
  by (simp add: int_of_bytes_def push_bit_or or.assoc)

lemma four_bytes: "int_of_bytes [ucast v, ucast (drop_bit 8 v), ucast (drop_bit 16 v), ucast (drop_bit 24 v)] = v"
proof (rule bit_word_eqI)
  fix n assume "n < LENGTH(32)"
  then have "n < 8 \<or> 8 \<le> n \<and> n < 16 \<or> 16 \<le> n \<and> n < 24 \<or> 24 \<le> n \<and> n < 32" by auto
  then show "bit (int_of_bytes [ucast v, ucast (drop_bit 8 v), ucast (drop_bit 16 v), ucast (drop_bit 24 v)]) n = bit v n"
    unfolding int_of_bytes_4 by (elim disjE) (auto simp: bit_simps)
qed

lemma two_bytes: "push_bit 8 (ucast (ucast (drop_bit 8 v) :: u8)) OR ucast (ucast v :: u8) = (v :: u16)"
proof (rule bit_word_eqI)
  fix n assume "n < LENGTH(16)"
  then have "n < 8 \<or> 8 \<le> n \<and> n < 16" by auto
  then show "bit (push_bit 8 (ucast (ucast (drop_bit 8 v) :: u8)) OR ucast (ucast v :: u8) :: u16) n = bit v n"
    by (elim disjE) (auto simp: bit_simps)
qed

lemma addr_neq: "(a :: u32) + 1 \<noteq> a" "a + 2 \<noteq> a" "a + 3 \<noteq> a" "a + 1 \<noteq> a + 2" "a + 1 \<noteq> a + 3" "a + 2 \<noteq> a + 3"
  by simp_all

lemma keeps_memory: "keeps_values byte_memory"
  by (simp add: keeps_values_def byte_memory_def two_bytes four_bytes)

subsection \<open>Properties\<close>

lemma read_loop_dump:
  assumes "quiet_reads b"
    and "cmd = KER_RW_R8 \<and> rd = (\<lambda>a. ucast (fst (rd8 b a m))) \<or> cmd = KER_RW_R16 \<and> rd = (\<lambda>a. ucast (fst (rd16 b a m)))
      \<or> cmd = KER_RW_R32 \<and> rd = (\<lambda>a. fst (rd32 b a m))"
  shows "read_loop b cmd step shown i n (a, v) m =
    (map (\<lambda>k. (i + k, a + of_nat k * step, shown (rd (a + of_nat k * step)))) [0..<n], m)"
proof (induction n arbitrary: i a v)
  case (Suc n)
  have q: "ker_rw_ioctl b cmd (a, v) m = (0, (a, rd a), m, [Ioremap a 4, Iounmap a])"
    using assms unfolding ker_rw_ioctl_def quiet_reads_def KER_RW_defs
    by (auto simp: case_prod_beta)
  have "map (\<lambda>k. (i + k, a + of_nat k * step, shown (rd (a + of_nat k * step)))) [0..<Suc n] =
    (i, a, shown (rd a)) # map (\<lambda>k. (Suc i + k, a + step + of_nat k * step, shown (rd (a + step + of_nat k * step)))) [0..<n]"
    by (simp add: upt_conv_Cons map_Suc_upt [symmetric] algebra_simps del: upt_Suc)
  then show ?case using Suc [of "Suc i" "a + step" "rd a"] by (simp add: q del: upt_Suc)
qed simp

lemma shown_narrow:
  "ucast (ucast (ucast (x :: u8) :: u32) :: u8) = (ucast x :: u32)"
  "ucast (ucast (ucast (y :: u16) :: u32) :: u16) = (ucast y :: u32)"
  "ucast (ucast (ucast (ucast (w :: u32) :: u8) :: u32) :: u8) = (ucast (ucast w :: u8) :: u32)"
  "ucast (ucast (ucast (ucast (w :: u32) :: u16) :: u32) :: u16) = (ucast (ucast w :: u16) :: u32)"
  by (rule bit_word_eqI, auto simp: bit_simps dest: bit_imp_le_length)+

text \<open>
  On a bus whose reads have no side effect the read commands dump a range: they print \<^verbatim>\<open>num\<close>
  lines, the \<^verbatim>\<open>k\<close>-th with the address \<^verbatim>\<open>k\<close> steps of 1, 2 or 4 after the first (modulo the address
  space) and the value read there, and leave the hardware as it was. Without a count they print one.
\<close>

theorem regeditor_dumps:
  assumes "quiet_reads b"
  shows "regeditor_main b strtoul True junk [prog, ''r8'', a, n] m =
      (0, map (\<lambda>k. (k, strtoul a + of_nat k, ucast (fst (rd8 b (strtoul a + of_nat k) m)))) [0..<unat (strtoul n)], m)
    \<and> regeditor_main b strtoul True junk [prog, ''r16'', a, n] m =
      (0, map (\<lambda>k. (k, strtoul a + of_nat k * 2, ucast (fst (rd16 b (strtoul a + of_nat k * 2) m)))) [0..<unat (strtoul n)], m)
    \<and> regeditor_main b strtoul True junk [prog, ''r32'', a, n] m =
      (0, map (\<lambda>k. (k, strtoul a + of_nat k * 4, fst (rd32 b (strtoul a + of_nat k * 4) m))) [0..<unat (strtoul n)], m)
    \<and> regeditor_main b strtoul True junk [prog, ''r32'', a] m = (0, [(0, strtoul a, fst (rd32 b (strtoul a) m))], m)"
  using read_loop_dump [OF assms, of KER_RW_R8 "\<lambda>a. ucast (fst (rd8 b a m))" m]
    read_loop_dump [OF assms, of KER_RW_R16 "\<lambda>a. ucast (fst (rd16 b a m))" m]
    read_loop_dump [OF assms, of KER_RW_R32 "\<lambda>a. fst (rd32 b a m)" m]
  by (simp add: regeditor_main_def Let_def shown_narrow)

theorem regeditor_dumps_witness:
  "regeditor_main byte_memory (\<lambda>s. if s = ''2'' then 2 else 0xffffffff) True 0 [''re'', ''r8'', ''-1'', ''2''] (\<lambda>_. 7)
     = (0, [(0, 0xffffffff, 7), (1, 0, 7)], \<lambda>_. 7)"
proof -
  have two: "[0..<2] = [0, 1]" by (simp add: upt_rec)
  show ?thesis
    using regeditor_dumps [OF quiet_memory, THEN conjunct1, of "\<lambda>s. if s = ''2'' then 2 else 0xffffffff" 0 "''re''" "''-1''" "''2''" "\<lambda>_. 7"]
    by (simp add: two byte_memory_def)
qed

text \<open>
  On a bus that keeps values, what a write command writes at some width is what the read
  command of that width then prints: the low 8, 16 or 32 bits of the argument.
\<close>

theorem regeditor_write_read:
  assumes "keeps_values b" "quiet_reads b"
  shows "fst (snd (regeditor_main b strtoul True junk [prog, ''r8'', a]
        (snd (snd (regeditor_main b strtoul True junk [prog, ''w8'', a, v] m)))))
      = [(0, strtoul a, ucast (ucast (strtoul v) :: u8))]
    \<and> fst (snd (regeditor_main b strtoul True junk [prog, ''r16'', a]
        (snd (snd (regeditor_main b strtoul True junk [prog, ''w16'', a, v] m)))))
      = [(0, strtoul a, ucast (ucast (strtoul v) :: u16))]
    \<and> fst (snd (regeditor_main b strtoul True junk [prog, ''r32'', a]
        (snd (snd (regeditor_main b strtoul True junk [prog, ''w32'', a, v] m)))))
      = [(0, strtoul a, strtoul v)]"
  using assms(1) unfolding keeps_values_def
  by (simp add: regeditor_main_def Let_def ker_rw_ioctl_def KER_RW_defs case_prod_beta shown_narrow)

theorem regeditor_write_read_witness:
  "fst (snd (regeditor_main byte_memory (\<lambda>s. 0x1234) True 0 [''re'', ''r8'', ''x'']
     (snd (snd (regeditor_main byte_memory (\<lambda>s. 0x1234) True 0 [''re'', ''w8'', ''x'', ''y''] (\<lambda>_. 0))))))
   = [(0, 0x1234, 0x34)]"
  using regeditor_write_read [OF keeps_memory quiet_memory, of "\<lambda>s. 0x1234" 0 "''re''" "''x''" "''y''" "\<lambda>_. 0"]
  by simp

subsection \<open>chrdev_another/hello.c\<close>

text \<open>
  \<^verbatim>\<open>major\<close> is the value of the variable before init, \<^verbatim>\<open>fresh\<close> the number that
  \<^verbatim>\<open>alloc_chrdev_region\<close> hands out when it is 0. Minors 0 and 1 belong to the first device, 2 to the
  second; the node of minor 3 has no device.
\<close>

definition HELLO_CNT :: nat where "HELLO_CNT = 2"

definition hello_open :: "int" where "hello_open = 0"
definition hello2_open :: "int" where "hello2_open = 0"

definition hello_major :: "nat \<times> nat \<Rightarrow> nat" where
  "hello_major e = (if fst e \<noteq> 0 then fst e else snd e)"

definition hello_init :: "nat \<times> nat \<Rightarrow> int \<times> kcall list" where
  "hello_init e = (0, Register_chrdev_region (hello_major e) 0 HELLO_CNT
     # [Cdev_add ''hello_cdev'' HELLO_CNT, Register_chrdev_region (hello_major e) 2 1, Cdev_add ''hello2_cdev'' 1,
        Class_create ''hello'', Device_create (hello_major e) 0, Device_create (hello_major e) 1,
        Device_create (hello_major e) 2, Device_create (hello_major e) 3])"

definition hello_exit :: "nat \<times> nat \<Rightarrow> kcall list" where
  "hello_exit e = [Device_destroy (hello_major e) 0, Device_destroy (hello_major e) 1,
     Device_destroy (hello_major e) 2, Device_destroy (hello_major e) 3, Class_destroy ''hello'',
     Cdev_del ''hello_cdev'', Unregister_chrdev_region (hello_major e) 0 HELLO_CNT,
     Cdev_del ''hello2_cdev'', Unregister_chrdev_region (hello_major e) 2 1]"

interpretation hello_life: lifecycle hello_init hello_exit
  by unfold_locales (simp_all add: hello_init_def hello_exit_def HELLO_CNT_def)

end
