(* ===== verification/RegEditor34.thy ===== *)
theory RegEditor34
  imports RegEditor
begin

text \<open>
  The register editor of the 3.4.2 tree: the driver has another entry point and other command numbers, the
  program prints its values with their full width and looks at the result of one ioctl. The program takes the
  ioctl of the C library as an argument, so that it can be run on the drivers of both trees.
\<close>

subsection \<open>The kernel side\<close>

definition KER34_RW_R8 :: nat where "KER34_RW_R8 = 100"
definition KER34_RW_R16 :: nat where "KER34_RW_R16 = 101"
definition KER34_RW_R32 :: nat where "KER34_RW_R32 = 102"
definition KER34_RW_W8 :: nat where "KER34_RW_W8 = 103"
definition KER34_RW_W16 :: nat where "KER34_RW_W16 = 104"
definition KER34_RW_W32 :: nat where "KER34_RW_W32 = 105"

lemmas KER34_RW_defs = KER34_RW_R8_def KER34_RW_R16_def KER34_RW_R32_def KER34_RW_W8_def KER34_RW_W16_def
  KER34_RW_W32_def

text \<open>
  \<^verbatim>\<open>bad\<close> is \<^verbatim>\<open>Some\<close> of what the driver's own \<^verbatim>\<open>buf\<close> holds when the copy from the user failed: the driver
  says so and goes on with it. The copy to the user is taken to succeed.
\<close>

definition ker34_rw_ioctl ::
  "'m bus \<Rightarrow> (u32 \<times> u32) option \<Rightarrow> nat \<Rightarrow> u32 \<times> u32 \<Rightarrow> 'm \<Rightarrow> int \<times> (u32 \<times> u32) \<times> 'm \<times> kcall list" where
  "ker34_rw_ioctl b bad cmd arg m =
     (let buf = (case bad of None \<Rightarrow> arg | Some junk \<Rightarrow> junk); addr = fst buf; val = snd buf;
          calls = (if bad = None then [] else [Other ''printk error'' 0]) @ [Ioremap addr 4, Iounmap addr]
      in if cmd = KER34_RW_R8 then (case rd8 b addr m of (v, m') \<Rightarrow> (0, (fst arg, ucast v), m', calls))
         else if cmd = KER34_RW_R16 then (case rd16 b addr m of (v, m') \<Rightarrow> (0, (fst arg, ucast v), m', calls))
         else if cmd = KER34_RW_R32 then (case rd32 b addr m of (v, m') \<Rightarrow> (0, (fst arg, v), m', calls))
         else if cmd = KER34_RW_W8 then (0, arg, wr8 b addr (ucast val) m, calls)
         else if cmd = KER34_RW_W16 then (0, arg, wr16 b addr (ucast val) m, calls)
         else if cmd = KER34_RW_W32 then (0, arg, wr32 b addr val m, calls)
         else (0, arg, m, calls))"

definition ker34_rw_init :: "nat \<Rightarrow> int \<times> kcall list" where
  "ker34_rw_init major = (0, [Register_chrdev major, Class_create ''ker_rw'', Device_create major 0])"

definition ker34_rw_exit :: "nat \<Rightarrow> kcall list" where
  "ker34_rw_exit major = [Device_destroy major 0, Class_destroy ''ker_rw'', Unregister_chrdev major]"

interpretation ker34_rw_life: lifecycle ker34_rw_init ker34_rw_exit
  by unfold_locales (simp_all add: ker34_rw_init_def ker34_rw_exit_def)

subsection \<open>The program\<close>

text \<open>
  The C library's ioctl returns -1 and sets \<^verbatim>\<open>errno\<close> when the kernel returns an error. A cell is shown with
  a number of digits, its index, its address and its value.
\<close>

type_synonym 'm ioctl_fn = "nat \<Rightarrow> u32 \<times> u32 \<Rightarrow> 'm \<Rightarrow> int \<times> (u32 \<times> u32) \<times> 'm"

datatype out34 = Usage34 | No_device | Program_name | Errno int | Cell nat nat u32 u32

fun read_loop34 ::
  "'m ioctl_fn \<Rightarrow> nat \<Rightarrow> u32 \<Rightarrow> (u32 \<Rightarrow> u32) \<Rightarrow> nat \<Rightarrow> nat \<Rightarrow> nat \<Rightarrow> u32 \<times> u32 \<Rightarrow> 'm \<Rightarrow> out34 list \<times> 'm" where
  "read_loop34 ioctl cmd step shown digits i 0 buf m = ([], m)"
| "read_loop34 ioctl cmd step shown digits i (Suc n) buf m =
     (case ioctl cmd buf m of (ret, buf, m) \<Rightarrow>
        (case read_loop34 ioctl cmd step shown digits (Suc i) n (fst buf + step, snd buf) m of
           (out, m) \<Rightarrow>
             ((if digits = 8 \<and> ret < 0 then [Errno (- ret)] else [])
                @ Cell digits i (fst buf) (shown (snd buf)) # out, m)))"

text \<open>An unknown command prints the name of the program only, through \<^verbatim>\<open>printf(argv[0])\<close>.\<close>

definition regeditor34_main ::
  "'m ioctl_fn \<Rightarrow> (string \<Rightarrow> u32) \<Rightarrow> bool \<Rightarrow> u32 \<Rightarrow> string list \<Rightarrow> 'm \<Rightarrow> int \<times> out34 list \<times> 'm" where
  "regeditor34_main ioctl strtoul open_ok junk argv m =
     (if length argv \<noteq> 3 \<and> length argv \<noteq> 4 then (- 1, [Usage34], m)
      else if \<not> open_ok then (- 2, [No_device], m)
      else let addr = strtoul (argv ! 2);
               val = (if length argv = 4 then strtoul (argv ! 3) else junk);
               num = (if length argv = 4 then val else 1);
               cmd = argv ! 1;
               store = (\<lambda>c. snd (snd (ioctl c (addr, val) m)))
           in if cmd = ''r8'' then
                (0, read_loop34 ioctl KER34_RW_R8 1 (\<lambda>v. ucast (ucast v :: u8)) 2 0 (unat num) (addr, val) m)
              else if cmd = ''r16'' then
                (0, read_loop34 ioctl KER34_RW_R16 2 (\<lambda>v. ucast (ucast v :: u16)) 4 0 (unat num) (addr, val) m)
              else if cmd = ''r32'' then
                (0, read_loop34 ioctl KER34_RW_R32 4 (\<lambda>v. v) 8 0 (unat num) (addr, val) m)
              else if cmd = ''w8'' then (0, [], store KER34_RW_W8)
              else if cmd = ''w16'' then (0, [], store KER34_RW_W16)
              else if cmd = ''w32'' then (0, [], store KER34_RW_W32)
              else (- 1, [Program_name], m))"

definition new_driver :: "'m bus \<Rightarrow> 'm ioctl_fn" where
  "new_driver b cmd buf m = (case ker34_rw_ioctl b None cmd buf m of (r, buf, m, cs) \<Rightarrow> (r, buf, m))"

definition old_driver :: "'m bus \<Rightarrow> 'm ioctl_fn" where
  "old_driver b cmd buf m = (case ker_rw_ioctl b cmd buf m of (r, buf, m, cs) \<Rightarrow> (r, buf, m))"

subsection \<open>Both trees\<close>

definition cells :: "out34 list \<Rightarrow> out_line list" where
  "cells out = concat (map (\<lambda>l. case l of Cell d i a v \<Rightarrow> [(i, a, v)] | _ \<Rightarrow> []) out)"

lemma cells_simps [simp]:
  "cells [] = []" "cells (Cell d i a v # out) = (i, a, v) # cells out" "cells (Errno e # out) = cells out"
  "cells (Usage34 # out) = cells out" "cells (No_device # out) = cells out" "cells (Program_name # out) = cells out"
  by (simp_all add: cells_def)

text \<open>The renumbered commands do the same.\<close>

lemma new_is_old:
  assumes "cmd \<in> {100..105}"
  shows "new_driver b cmd buf m = old_driver b (cmd - 100) buf m"
proof -
  have "cmd = 100 \<or> cmd = 101 \<or> cmd = 102 \<or> cmd = 103 \<or> cmd = 104 \<or> cmd = 105" using assms by auto
  then show ?thesis
    by (elim disjE) (simp_all add: new_driver_def old_driver_def ker34_rw_ioctl_def ker_rw_ioctl_def KER34_RW_defs
      KER_RW_defs Let_def split: prod.splits)
qed

lemma old_driver_ok: "fst (old_driver b cmd buf m) = 0"
  by (simp add: old_driver_def ker_rw_ioctl_def Let_def split: prod.splits)

lemma read_loop_trees:
  assumes "cmd \<in> {100..105}"
  shows "snd (read_loop34 (new_driver b) cmd step shown digits i n buf m)
      = snd (read_loop b (cmd - 100) step shown i n buf m)
    \<and> cells (fst (read_loop34 (new_driver b) cmd step shown digits i n buf m))
      = fst (read_loop b (cmd - 100) step shown i n buf m)"
proof (induction n arbitrary: i buf m)
  case (Suc n)
  obtain r buf' m' cs where k: "ker_rw_ioctl b (cmd - 100) buf m = (r, buf', m', cs)" by (metis prod_cases4)
  have "r = 0" using old_driver_ok [of b "cmd - 100" buf m] by (simp add: old_driver_def k)
  then show ?case
    using Suc [of "Suc i" "(fst buf' + step, snd buf')" m']
    by (simp add: new_is_old [OF assms] old_driver_def k case_prod_unfold)
qed simp

text \<open>The drivers ignore the numbers of the other tree, without an error.\<close>

lemma ignored: "cmd \<ge> 100 \<Longrightarrow> old_driver b cmd buf m = (0, buf, m)"
  "cmd < 100 \<Longrightarrow> new_driver b cmd buf m = (0, buf, m)"
  by (simp_all add: new_driver_def old_driver_def ker34_rw_ioctl_def ker_rw_ioctl_def KER34_RW_defs
      KER_RW_defs Let_def)

lemma read_loop_ignored:
  assumes "cmd \<ge> 100"
  shows "read_loop34 (old_driver b) cmd step shown digits i n buf m
    = (map (\<lambda>k. Cell digits (i + k) (fst buf + of_nat k * step) (shown (snd buf))) [0..<n], m)"
proof (induction n arbitrary: i buf)
  case (Suc n)
  have "map (\<lambda>k. Cell digits (i + k) (fst buf + of_nat k * step) (shown (snd buf))) [0..<Suc n]
    = Cell digits i (fst buf) (shown (snd buf))
        # map (\<lambda>k. Cell digits (Suc i + k) (fst buf + step + of_nat k * step) (shown (snd buf))) [0..<n]"
    by (simp add: upt_conv_Cons map_Suc_upt [symmetric] algebra_simps del: upt_Suc)
  then show ?case
    using Suc [of "Suc i" "(fst buf + step, snd buf)"] by (simp add: ignored(1) [OF assms] del: upt_Suc)
qed simp

subsection \<open>Properties\<close>

text \<open>
  C22. The two register editors are the same tool: for every argument list the program of the 3.4.2 tree on
  its driver returns the exit status of the older program on its own, shows the same cells and leaves the
  hardware in the same state. The numbers must match: on the driver of the other tree the program changes
  nothing and reports success, and a read shows its own count argument, or what the stack held, as
  the value of every register.
\<close>

theorem regeditor_trees_agree:
  "fst (regeditor34_main (new_driver b) strtoul open_ok junk argv m) = fst (regeditor_main b strtoul open_ok junk argv m)
   \<and> cells (fst (snd (regeditor34_main (new_driver b) strtoul open_ok junk argv m)))
     = fst (snd (regeditor_main b strtoul open_ok junk argv m))
   \<and> snd (snd (regeditor34_main (new_driver b) strtoul open_ok junk argv m))
     = snd (snd (regeditor_main b strtoul open_ok junk argv m))
   \<and> snd (snd (regeditor34_main (old_driver b) strtoul open_ok junk argv m)) = m
   \<and> regeditor34_main (old_driver b) strtoul True junk [prog, ''r32'', a, n] m
     = (0, map (\<lambda>k. Cell 8 k (strtoul a + of_nat k * 4) (strtoul n)) [0..<unat (strtoul n)], m)
   \<and> regeditor34_main (old_driver b) strtoul True junk [prog, ''r32'', a] m = (0, [Cell 8 0 (strtoul a) junk], m)"
proof (intro conjI)
  have w: "cmd \<in> {100..105} \<Longrightarrow> snd (snd (new_driver b cmd buf m)) = fst (snd (snd (ker_rw_ioctl b (cmd - 100) buf m)))"
    for cmd buf by (simp add: new_is_old old_driver_def split: prod.splits)
  note trees = read_loop_trees [of 100] read_loop_trees [of 101] read_loop_trees [of 102] w [of 103] w [of 104] w [of 105]
  note both = regeditor34_main_def regeditor_main_def KER34_RW_defs KER_RW_defs Let_def
  show "fst (regeditor34_main (new_driver b) strtoul open_ok junk argv m) = fst (regeditor_main b strtoul open_ok junk argv m)"
    by (simp add: both)
  show "cells (fst (snd (regeditor34_main (new_driver b) strtoul open_ok junk argv m)))
      = fst (snd (regeditor_main b strtoul open_ok junk argv m))"
    by (simp add: both trees del: read_loop.simps read_loop34.simps)
  show "snd (snd (regeditor34_main (new_driver b) strtoul open_ok junk argv m))
      = snd (snd (regeditor_main b strtoul open_ok junk argv m))"
    by (simp add: both trees del: read_loop.simps read_loop34.simps)
qed (simp_all add: regeditor34_main_def KER34_RW_defs Let_def read_loop_ignored ignored)

end
