(* ===== verification/RamBlock.thy ===== *)
theory RamBlock
  imports Kernel
begin

text \<open>
  The RAM disks: ramblock/ramblock_driver.c of the 2.6.22 tree and ramblock/ramblock.c of the 3.4.2
  tree. A request is a list of segments, which the block layer hands to the driver one by one; the
  driver moves the bytes of the current segment between its memory and the buffer of the segment.
\<close>

subsection \<open>Requests\<close>

definition RAMBLOCK_SIZE :: nat where "RAMBLOCK_SIZE = 1024 * 1024"

text \<open>
  \<^verbatim>\<open>sector\<close> and \<^verbatim>\<open>cur_sectors\<close> are what \<^verbatim>\<open>req->sector\<close> and \<^verbatim>\<open>req->current_nr_sectors\<close> say; \<^verbatim>\<open>buffer\<close>
  is the memory at \<^verbatim>\<open>req->buffer\<close>.
\<close>

record segment =
  sector :: u32
  cur_sectors :: u32
  is_read :: bool
  buffer :: "u8 list"

record ramblock = kstate +
  ramblock_buf :: "u8 list"

text \<open>\<^verbatim>\<open>memcpy\<close> of \<^verbatim>\<open>n\<close> bytes; it is undefined when either side is too short.\<close>

definition memcpy :: "u8 list \<Rightarrow> nat \<Rightarrow> u8 list \<Rightarrow> nat \<Rightarrow> nat \<Rightarrow> u8 list option" where
  "memcpy dst d src s n =
     (if length dst < d + n \<or> length src < s + n then None
      else Some (take d dst @ take n (drop s src) @ drop (d + n) dst))"

definition ramblock_getgeo :: "nat \<times> nat \<times> nat" where
  "ramblock_getgeo = (2, 32, RAMBLOCK_SIZE div 2 div 32 div 512)"

subsection \<open>The 2.6.22 driver\<close>

text \<open>
  One turn of the loop: the buffer and the disk afterwards. The offset and the length are computed
  in 32 bits.
\<close>

definition transfer :: "u32 \<Rightarrow> u32 \<Rightarrow> segment \<Rightarrow> ramblock \<Rightarrow> (u8 list \<times> ramblock) option" where
  "transfer offset len r s =
     (if is_read r
      then map_option (\<lambda>b. (b, s)) (memcpy (buffer r) 0 (ramblock_buf s) (unat offset) (unat len))
      else map_option (\<lambda>m. (buffer r, s\<lparr>ramblock_buf := m\<rparr>))
             (memcpy (ramblock_buf s) (unat offset) (buffer r) 0 (unat len)))"

text \<open>
  \<^verbatim>\<open>elv_next_request\<close> returns the request that is being worked on until its last segment has been
  ended, so the driver sees the segments in order. The result is the buffers after the transfers.
\<close>

fun do_ramblock_request :: "segment list \<Rightarrow> ramblock \<Rightarrow> (u8 list list \<times> ramblock) option" where
  "do_ramblock_request [] s = Some ([], s)"
| "do_ramblock_request (r # q) s =
     Option.bind (transfer (sector r * 512) (cur_sectors r * 512) r s) (\<lambda>(b, s').
       map_option (\<lambda>(bs, s''). (b # bs, s'')) (do_ramblock_request q (emit [Other ''end_request'' 1] s')))"

definition ramblock_init :: "nat \<Rightarrow> int \<times> kcall list" where
  "ramblock_init major =
     (0, [Alloc_disk ''ramblock'' 16, Blk_init_queue ''ramblock_queue'', Register_blkdev major,
          Other ''set_capacity'' (RAMBLOCK_SIZE div 512), Kmalloc ''ramblock_buf'' RAMBLOCK_SIZE,
          Add_disk ''ramblock''])"

definition ramblock_exit :: "nat \<Rightarrow> kcall list" where
  "ramblock_exit major =
     [Unregister_blkdev major, Del_gendisk ''ramblock'', Put_disk ''ramblock'',
      Blk_cleanup_queue ''ramblock_queue'', Kfree ''ramblock_buf'']"

interpretation ramblock_life: lifecycle ramblock_init ramblock_exit
  by unfold_locales (simp_all add: ramblock_init_def ramblock_exit_def)

subsection \<open>The 3.4.2 driver\<close>

text \<open>
  Here the driver fetches a request once and ends its segments itself. \<^verbatim>\<open>__blk_end_request_cur\<close>
  returns true while segments are left; the driver then prints an error and goes on with the same
  request, whose current segment has advanced. The first argument is the rest of the request.
\<close>

fun serve_request :: "segment list \<Rightarrow> segment list list \<Rightarrow> ramblock \<Rightarrow> (u8 list list \<times> ramblock) option" where
  "serve_request [] [] s = Some ([], s)"
| "serve_request [] (req # q) s = serve_request req q s"
| "serve_request (r # rs) q s =
     Option.bind (transfer (push_bit 9 (sector r)) (cur_sectors r * 512) r s) (\<lambda>(b, s').
       map_option (\<lambda>(bs, s''). (b # bs, s''))
         (serve_request rs q
           (emit (Other ''__blk_end_request_cur'' 0
                  # (if rs = [] then [] else [Other ''printk error'' 0])) s')))"

definition do_ramblock_request_34 :: "segment list list \<Rightarrow> ramblock \<Rightarrow> (u8 list list \<times> ramblock) option" where
  "do_ramblock_request_34 q s = serve_request [] q s"

definition ramblock_getgeo_34 :: "nat \<times> nat \<times> nat" where
  "ramblock_getgeo_34 = (2, 32, RAMBLOCK_SIZE div 2 div 32 div 512)"

definition ramblock_init_34 :: "nat \<Rightarrow> int \<times> kcall list" where
  "ramblock_init_34 major =
     (0, [Alloc_disk ''ramblock'' 16, Blk_init_queue ''ramblock_queue'', Register_blkdev major,
          Other ''set_capacity'' (RAMBLOCK_SIZE div 512), Kmalloc ''ramblock_buf'' RAMBLOCK_SIZE,
          Add_disk ''ramblock''])"

definition ramblock_exit_34 :: "nat \<Rightarrow> kcall list" where
  "ramblock_exit_34 major =
     [Unregister_blkdev major, Del_gendisk ''ramblock'', Put_disk ''ramblock'',
      Blk_cleanup_queue ''ramblock_queue'', Kfree ''ramblock_buf'']"

interpretation ramblock_34_life: lifecycle ramblock_init_34 ramblock_exit_34
  by unfold_locales (simp_all add: ramblock_init_34_def ramblock_exit_34_def)

subsection \<open>What a disk promises\<close>

text \<open>
  A disk is a function from byte addresses to bytes. A write of a segment changes the addresses it
  covers, a read returns what they hold.
\<close>

definition seg_bytes :: "segment \<Rightarrow> nat" where
  "seg_bytes r = unat (cur_sectors r) * 512"

definition seg_start :: "segment \<Rightarrow> nat" where
  "seg_start r = unat (sector r) * 512"

text \<open>A segment that lies on the disk, with a buffer of its size.\<close>

definition seg_ok :: "segment \<Rightarrow> bool" where
  "seg_ok r \<longleftrightarrow> unat (sector r) + unat (cur_sectors r) \<le> RAMBLOCK_SIZE div 512
     \<and> length (buffer r) = seg_bytes r"

fun disk_serve :: "segment list \<Rightarrow> (nat \<Rightarrow> u8) \<Rightarrow> u8 list list \<times> (nat \<Rightarrow> u8)" where
  "disk_serve [] d = ([], d)"
| "disk_serve (r # q) d =
     (if is_read r
      then (let (bs, d') = disk_serve q d
            in (map (\<lambda>i. d (seg_start r + i)) [0..<seg_bytes r] # bs, d'))
      else (let (bs, d') = disk_serve q (\<lambda>a. if seg_start r \<le> a \<and> a < seg_start r + seg_bytes r
                                           then buffer r ! (a - seg_start r) else d a)
            in (buffer r # bs, d')))"

definition holds_disk :: "(nat \<Rightarrow> u8) \<Rightarrow> ramblock \<Rightarrow> bool" where
  "holds_disk d s \<longleftrightarrow> length (ramblock_buf s) = RAMBLOCK_SIZE \<and> (\<forall>a < RAMBLOCK_SIZE. ramblock_buf s ! a = d a)"

lemma seg_fits:
  assumes "seg_ok r"
  shows "unat (sector r * 512) = seg_start r" "unat (cur_sectors r * 512) = seg_bytes r"
    "unat (push_bit 9 (sector r)) = seg_start r" "seg_start r + seg_bytes r \<le> RAMBLOCK_SIZE"
proof -
  have a: "unat (sector r) + unat (cur_sectors r) \<le> 2048"
    using assms by (simp add: seg_ok_def RAMBLOCK_SIZE_def)
  have "unat (sector r) * 512 < 2 ^ 32" "unat (cur_sectors r) * 512 < 2 ^ 32" using a by simp_all
  then show s: "unat (sector r * 512) = seg_start r" and "unat (cur_sectors r * 512) = seg_bytes r"
    by (simp_all add: seg_start_def seg_bytes_def unat_word_ariths)
  show "unat (push_bit 9 (sector r)) = seg_start r"
    using s by (simp add: push_bit_eq_mult mult.commute)
  show "seg_start r + seg_bytes r \<le> RAMBLOCK_SIZE"
    using a by (simp add: seg_start_def seg_bytes_def RAMBLOCK_SIZE_def)
qed

lemma memcpy_read:
  "length b = n \<Longrightarrow> off + n \<le> length m \<Longrightarrow>
     memcpy b 0 m off n = Some (map (\<lambda>i. m ! (off + i)) [0..<n])"
  by (auto simp: memcpy_def intro!: nth_equalityI)

lemma memcpy_write:
  assumes "length b = n" "off + n \<le> length m"
  obtains m' where "memcpy m off b 0 n = Some m'" "length m' = length m"
    "\<And>a. a < length m \<Longrightarrow> m' ! a = (if off \<le> a \<and> a < off + n then b ! (a - off) else m ! a)"
proof (rule that)
  show "memcpy m off b 0 n = Some (take off m @ b @ drop (off + n) m)"
    using assms by (simp add: memcpy_def)
qed (use assms in \<open>auto simp: nth_append\<close>)

lemma transfer_read:
  assumes "seg_ok r" "is_read r" "holds_disk d s"
  shows "transfer (sector r * 512) (cur_sectors r * 512) r s =
    Some (map (\<lambda>i. d (seg_start r + i)) [0..<seg_bytes r], s)"
proof -
  have "memcpy (buffer r) 0 (ramblock_buf s) (seg_start r) (seg_bytes r) =
      Some (map (\<lambda>i. ramblock_buf s ! (seg_start r + i)) [0..<seg_bytes r])"
    using assms seg_fits(4) [OF assms(1)] by (intro memcpy_read) (auto simp: seg_ok_def holds_disk_def)
  then show ?thesis
    using assms seg_fits [OF assms(1)] by (auto simp: transfer_def holds_disk_def)
qed

lemma transfer_write:
  assumes "seg_ok r" "\<not> is_read r" "holds_disk d s"
  shows "\<exists>s'. transfer (sector r * 512) (cur_sectors r * 512) r s = Some (buffer r, s') \<and> kt s' = kt s
    \<and> holds_disk (\<lambda>a. if seg_start r \<le> a \<and> a < seg_start r + seg_bytes r
                        then buffer r ! (a - seg_start r) else d a) s'"
proof -
  have len: "length (ramblock_buf s) = RAMBLOCK_SIZE" "length (buffer r) = seg_bytes r"
    using assms by (auto simp: holds_disk_def seg_ok_def)
  then obtain m' where m': "memcpy (ramblock_buf s) (seg_start r) (buffer r) 0 (seg_bytes r) = Some m'"
    "length m' = RAMBLOCK_SIZE" "\<And>a. a < RAMBLOCK_SIZE \<Longrightarrow> m' ! a =
      (if seg_start r \<le> a \<and> a < seg_start r + seg_bytes r then buffer r ! (a - seg_start r) else ramblock_buf s ! a)"
    using memcpy_write [of "buffer r" "seg_bytes r" "seg_start r" "ramblock_buf s"] seg_fits(4) [OF assms(1)]
    by metis
  then show ?thesis
    using assms(2,3) by (auto simp: transfer_def seg_fits [OF assms(1)] holds_disk_def)
qed

lemma holds_disk_emit [simp]: "holds_disk d (emit cs s) = holds_disk d s"
  by (simp add: holds_disk_def emit_def)

lemma ramblock_serves:
  assumes "holds_disk d s" "\<forall>r \<in> set q. seg_ok r"
  shows "\<exists>s'. do_ramblock_request q s = Some (fst (disk_serve q d), s')
    \<and> holds_disk (snd (disk_serve q d)) s'
    \<and> kt s' = kt s @ replicate (length q) (Other ''end_request'' 1)"
  using assms
proof (induction q arbitrary: d s)
  case (Cons r q)
  have r: "seg_ok r" and q: "\<forall>r \<in> set q. seg_ok r" using Cons.prems by simp_all
  show ?case
  proof (cases "is_read r")
    case True
    have "holds_disk d (emit [Other ''end_request'' 1] s)" using Cons.prems(1) by simp
    from Cons.IH [OF this q] transfer_read [OF r True Cons.prems(1)] show ?thesis
      using True by (auto simp: case_prod_beta)
  next
    case False
    from transfer_write [OF r False Cons.prems(1)] obtain s1 where
      s1: "transfer (sector r * 512) (cur_sectors r * 512) r s = Some (buffer r, s1)" "kt s1 = kt s"
      "holds_disk (\<lambda>a. if seg_start r \<le> a \<and> a < seg_start r + seg_bytes r
         then buffer r ! (a - seg_start r) else d a) (emit [Other ''end_request'' 1] s1)"
      by auto
    from Cons.IH [OF s1(3) q] s1(1,2) show ?thesis
      using False by (auto simp: case_prod_beta)
  qed
qed simp

subsection \<open>Properties\<close>

text \<open>
  C37. The RAM disk implements a disk. For every sequence of requests that lie on the disk the
  handler never copies outside its memory or the buffers, reads deliver what the writes before
  them left, and afterwards the memory holds exactly the disk that the sequence describes.
\<close>

theorem ramblock_refines_disk:
  assumes "holds_disk d s" "\<forall>r \<in> set q. seg_ok r"
  shows "\<exists>s'. do_ramblock_request q s = Some (fst (disk_serve q d), s')
    \<and> holds_disk (snd (disk_serve q d)) s'
    \<and> kt s' = kt s @ replicate (length q) (Other ''end_request'' 1)"
  by (rule ramblock_serves [OF assms])

theorem ramblock_refines_disk_witness:
  "\<exists>s'. do_ramblock_request [\<lparr>sector = 3, cur_sectors = 0, is_read = False, buffer = []\<rparr>,
       \<lparr>sector = 2047, cur_sectors = 1, is_read = True, buffer = replicate 512 0\<rparr>]
     \<lparr>kt = [], ramblock_buf = replicate RAMBLOCK_SIZE 7\<rparr> = Some ([[], map (\<lambda>i. 7) [0..<512]], s')"
  using ramblock_refines_disk [of "\<lambda>_. 7" "\<lparr>kt = [], ramblock_buf = replicate RAMBLOCK_SIZE 7\<rparr>"
      "[\<lparr>sector = 3, cur_sectors = 0, is_read = False, buffer = []\<rparr>,
       \<lparr>sector = 2047, cur_sectors = 1, is_read = True, buffer = replicate 512 0\<rparr>]"]
  by (auto simp: holds_disk_def seg_ok_def seg_bytes_def RAMBLOCK_SIZE_def
      simp del: do_ramblock_request.simps upt.simps)

lemma transfer_cong:
  assumes "ramblock_buf s = ramblock_buf t" "transfer off len r s = Some (b, s')"
  shows "\<exists>t'. transfer off len r t = Some (b, t') \<and> ramblock_buf t' = ramblock_buf s' \<and> kt t' = kt t"
  using assms by (auto simp: transfer_def split: if_splits)

definition is_error :: "kcall \<Rightarrow> bool" where
  "is_error c \<longleftrightarrow> c = Other ''printk error'' 0"

lemma ramblock_buf_emit [simp]: "ramblock_buf (emit cs s) = ramblock_buf s"
  by (simp add: emit_def)

lemma serve_request_agrees:
  assumes "ramblock_buf s = ramblock_buf t" "\<forall>r \<in> set (rs @ concat q). seg_ok r"
    and "do_ramblock_request (rs @ concat q) s = Some (bs, s')"
  shows "\<exists>t' cs. serve_request rs q t = Some (bs, t') \<and> ramblock_buf t' = ramblock_buf s'
    \<and> kt t' = kt t @ cs
    \<and> length (filter is_error cs) = (length rs - 1) + (\<Sum>req\<leftarrow>q. length req - 1)"
  using assms
proof (induction rs q t arbitrary: s bs s' rule: serve_request.induct)
  case (1 t)
  then show ?case by simp
next
  case (2 req q t)
  then show ?case by simp
next
  case (3 r rs q t)
  have r: "push_bit 9 (sector r) = sector r * 512"
    by (simp add: push_bit_eq_mult mult.commute)
  obtain b s1 bs' where s1: "transfer (sector r * 512) (cur_sectors r * 512) r s = Some (b, s1)"
    "do_ramblock_request (rs @ concat q) (emit [Other ''end_request'' 1] s1) = Some (bs', s')" "bs = b # bs'"
    using 3(4) by (auto simp: bind_eq_Some_conv)
  obtain t1 where t1: "transfer (sector r * 512) (cur_sectors r * 512) r t = Some (b, t1)"
    "ramblock_buf t1 = ramblock_buf s1" "kt t1 = kt t"
    using transfer_cong [OF 3(2) s1(1)] by blast
  let ?cs = "Other ''__blk_end_request_cur'' 0 # (if rs = [] then [] else [Other ''printk error'' 0])"
  have t1': "transfer (push_bit 9 (sector r)) (cur_sectors r * 512) r t = Some (b, t1)"
    using t1(1) by (simp add: r)
  have "\<exists>t' cs. serve_request rs q (emit ?cs t1) = Some (bs', t') \<and> ramblock_buf t' = ramblock_buf s'
    \<and> kt t' = kt (emit ?cs t1) @ cs
    \<and> length (filter is_error cs) = (length rs - 1) + (\<Sum>req\<leftarrow>q. length req - 1)"
    by (rule 3(1) [OF t1' refl, where s = "emit [Other ''end_request'' 1] s1"])
       (use 3(3) s1(2) t1(2) in auto)
  then obtain t' cs where t': "serve_request rs q (emit ?cs t1) = Some (bs', t')"
    "ramblock_buf t' = ramblock_buf s'" "kt t' = kt t @ ?cs @ cs"
    "length (filter is_error cs) = (length rs - 1) + (\<Sum>req\<leftarrow>q. length req - 1)"
    using t1(3) by auto
  have "serve_request (r # rs) q t = Some (bs, t')"
    using t1' t'(1) s1(3) by simp
  moreover have "length (filter is_error (?cs @ cs)) = (length (r # rs) - 1) + (\<Sum>req\<leftarrow>q. length req - 1)"
    using t'(4) by (cases rs) (auto simp: is_error_def)
  ultimately show ?case using t'(2,3) by blast
qed

text \<open>
  The 3.4.2 driver transfers the same bytes: on requests of one or more segments it leaves
  the buffers and the memory that the 2.6.22 driver leaves on the same segments, although it prints
  an error for each segment of a request but the last.
\<close>

theorem ramblock_versions_agree:
  assumes "\<forall>req \<in> set q. req \<noteq> []" "\<forall>req \<in> set q. \<forall>r \<in> set req. seg_ok r" "holds_disk d s"
  shows "\<exists>bs s' s''. do_ramblock_request (concat q) s = Some (bs, s')
    \<and> do_ramblock_request_34 q s = Some (bs, s'') \<and> ramblock_buf s'' = ramblock_buf s'
    \<and> length (filter is_error (drop (length (kt s)) (kt s''))) = (\<Sum>req\<leftarrow>q. length req - 1)"
proof -
  have ok: "\<forall>r \<in> set (concat q). seg_ok r" using assms(2) by auto
  obtain s' where s': "do_ramblock_request (concat q) s = Some (fst (disk_serve (concat q) d), s')"
    using ramblock_serves [OF assms(3) ok] by blast
  from serve_request_agrees [of s s "[]" q] ok s'
  obtain s'' cs where "serve_request [] q s = Some (fst (disk_serve (concat q) d), s'')"
    "ramblock_buf s'' = ramblock_buf s'" "kt s'' = kt s @ cs"
    "length (filter is_error cs) = (\<Sum>req\<leftarrow>q. length req - 1)"
    by auto
  then show ?thesis using s' by (auto simp: do_ramblock_request_34_def)
qed

theorem ramblock_versions_agree_witness:
  "\<exists>bs s'. do_ramblock_request_34 [[\<lparr>sector = 0, cur_sectors = 0, is_read = False, buffer = []\<rparr>,
       \<lparr>sector = 1, cur_sectors = 0, is_read = False, buffer = []\<rparr>]]
     \<lparr>kt = [], ramblock_buf = replicate RAMBLOCK_SIZE 7\<rparr> = Some (bs, s')
     \<and> length (filter is_error (kt s')) = 1"
  using ramblock_versions_agree [of "[[\<lparr>sector = 0, cur_sectors = 0, is_read = False, buffer = []\<rparr>,
       \<lparr>sector = 1, cur_sectors = 0, is_read = False, buffer = []\<rparr>]]" "\<lambda>_. 7"
       "\<lparr>kt = [], ramblock_buf = replicate RAMBLOCK_SIZE 7\<rparr>"]
  by (auto simp: holds_disk_def seg_ok_def seg_bytes_def RAMBLOCK_SIZE_def
      simp del: do_ramblock_request.simps)

end
