(* ===== verification/UsbMouse.thy ===== *)
theory UsbMouse
  imports Kernel
begin

text \<open>
  The USB mouse that types, usb/usbmouse_as_key_driver.c: the left, right and middle buttons are
  reported as the keys L, S and ENTER (codes 38, 31 and 28).
\<close>

subsection \<open>State and operations\<close>

record mouse = kstate +
  pre_val :: u8

abbreviation "Submit_urb \<equiv> Other ''usb_submit_urb uk_urb'' 0"

text \<open>\<^verbatim>\<open>report_button\<close> is one of the three tests of the handler: bit \<^verbatim>\<open>k\<close> is compared with its last value.\<close>

definition report_button :: "nat \<Rightarrow> nat \<Rightarrow> u8 \<Rightarrow> u8 \<Rightarrow> kcall list" where
  "report_button k key old new =
     (if old AND push_bit k 1 \<noteq> new AND push_bit k 1
      then [Input_event ''uk_dev'' 1 key (if new AND push_bit k 1 \<noteq> 0 then 1 else 0), Input_sync ''uk_dev'']
      else [])"

text \<open>\<^verbatim>\<open>usb_buf\<close> holds one packet; a packet of fewer than two bytes is read outside its buffer.\<close>

definition usbmouse_as_key_irq :: "u8 list \<Rightarrow> mouse \<Rightarrow> mouse option" where
  "usbmouse_as_key_irq usb_buf s =
     (if length usb_buf < 2 then None
      else Some (emit (report_button 0 38 (pre_val s) (usb_buf ! 1)
                       @ report_button 1 31 (pre_val s) (usb_buf ! 1)
                       @ report_button 2 28 (pre_val s) (usb_buf ! 1)
                       @ [Submit_urb])
              (s\<lparr>pre_val := usb_buf ! 1\<rparr>)))"

text \<open>The handler of the 3.4.2 tree reads the buttons in the first byte, as its comment says.\<close>

definition usbmouse_as_key_irq_34 :: "u8 list \<Rightarrow> mouse \<Rightarrow> mouse option" where
  "usbmouse_as_key_irq_34 usb_buf s =
     (if length usb_buf < 1 then None
      else Some (emit (report_button 0 38 (pre_val s) (usb_buf ! 0)
                       @ report_button 1 31 (pre_val s) (usb_buf ! 0)
                       @ report_button 2 28 (pre_val s) (usb_buf ! 0)
                       @ [Submit_urb])
              (s\<lparr>pre_val := usb_buf ! 0\<rparr>)))"

text \<open>\<^verbatim>\<open>len\<close> is the maximal packet size of the first endpoint of the interface.\<close>

definition usbmouse_as_key_probe :: "nat \<Rightarrow> int \<times> kcall list" where
  "usbmouse_as_key_probe len =
     (0, [Input_allocate_device ''uk_dev'', Other ''set_bit evbit'' 1, Other ''set_bit evbit'' 0x14,
          Other ''set_bit keybit'' 38, Other ''set_bit keybit'' 31, Other ''set_bit keybit'' 28,
          Input_register_device ''uk_dev'', Dma_alloc ''usb_buf'' len, Kmalloc ''uk_urb'' 0, Submit_urb])"

definition usbmouse_as_key_disconnect :: "nat \<Rightarrow> kcall list" where
  "usbmouse_as_key_disconnect len =
     [Other ''usb_kill_urb uk_urb'' 0, Kfree ''uk_urb'', Dma_free ''usb_buf'' len,
      Input_unregister_device ''uk_dev'', Input_free_device ''uk_dev'']"

definition usbmouse_as_key_init :: "int \<times> kcall list" where
  "usbmouse_as_key_init = (0, [Register_driver ''usbmouse_as_key''])"

definition usbmouse_as_key_exit :: "kcall list" where
  "usbmouse_as_key_exit = [Unregister_driver ''usbmouse_as_key'']"

interpretation mouse_life: lifecycle usbmouse_as_key_probe usbmouse_as_key_disconnect
  by unfold_locales (simp_all add: usbmouse_as_key_probe_def usbmouse_as_key_disconnect_def)

interpretation mouse_module: lifecycle "\<lambda>_. usbmouse_as_key_init" "\<lambda>_. usbmouse_as_key_exit"
  by unfold_locales (simp_all add: usbmouse_as_key_init_def usbmouse_as_key_exit_def)

subsection \<open>What the input subsystem sees\<close>

definition set_key :: "nat \<Rightarrow> bool \<Rightarrow> (nat \<Rightarrow> bool) \<Rightarrow> nat \<Rightarrow> bool" where
  "set_key k b f = f(k := b)"

text \<open>The keys that are down after a trace, and whether each event of it changed its key.\<close>

fun after :: "(nat \<Rightarrow> bool) \<Rightarrow> kcall list \<Rightarrow> nat \<Rightarrow> bool" where
  "after f [] = f"
| "after f (Input_event d t k v # cs) = after (set_key k (v \<noteq> 0) f) cs"
| "after f (c # cs) = after f cs"

fun changing :: "(nat \<Rightarrow> bool) \<Rightarrow> kcall list \<Rightarrow> bool" where
  "changing f [] = True"
| "changing f (Input_event d t k v # cs) = (f k \<noteq> (v \<noteq> 0) \<and> changing (set_key k (v \<noteq> 0) f) cs)"
| "changing f (c # cs) = changing f cs"

lemma after_append [simp]: "after f (cs @ ds) = after (after f cs) ds"
proof (induction cs arbitrary: f)
  case (Cons c cs)
  then show ?case by (cases c) auto
qed simp

lemma changing_append [simp]: "changing f (cs @ ds) \<longleftrightarrow> changing f cs \<and> changing (after f cs) ds"
proof (induction cs arbitrary: f)
  case (Cons c cs)
  then show ?case by (cases c) auto
qed simp

lemma bit_eq_and: "k < 8 \<Longrightarrow> (a AND push_bit k 1 = b AND push_bit k 1) \<longleftrightarrow> (bit (a :: u8) k \<longleftrightarrow> bit b k)"
proof -
  assume k: "k < 8"
  have "w AND push_bit k 1 = (if bit w k then push_bit k 1 else 0)" for w :: u8
    by (rule bit_word_eqI) (auto simp: bit_and_iff bit_push_bit_iff bit_1_iff simp del: push_bit_of_1)
  moreover have "push_bit k (1 :: u8) \<noteq> 0"
    using and_one_bit [of "push_bit k (1 :: u8)" k] k by (auto simp: bit_simps)
  ultimately show ?thesis by (auto simp del: push_bit_of_1)
qed

lemma report_button_bits:
  "k < 8 \<Longrightarrow> report_button k key old new =
    (if bit old k = bit new k then []
     else [Input_event ''uk_dev'' 1 key (if bit new k then 1 else 0), Input_sync ''uk_dev''])"
  by (simp add: report_button_def bit_eq_and and_one_bit del: push_bit_of_1)

text \<open>The keys that stand for a byte of button bits.\<close>

definition keys_of :: "u8 \<Rightarrow> nat \<Rightarrow> bool" where
  "keys_of v = (\<lambda>_. False)(38 := bit v 0, 31 := bit v 1, 28 := bit v 2)"

lemma irq_follows:
  assumes "2 \<le> length usb_buf" "after (\<lambda>_. False) (kt s) = keys_of (pre_val s)" "changing (\<lambda>_. False) (kt s)"
  shows "\<exists>s'. usbmouse_as_key_irq usb_buf s = Some s' \<and> pre_val s' = usb_buf ! 1
    \<and> after (\<lambda>_. False) (kt s') = keys_of (usb_buf ! 1) \<and> changing (\<lambda>_. False) (kt s')
    \<and> (\<exists>es. kt s' = kt s @ es @ [Submit_urb] \<and> Submit_urb \<notin> set es)"
proof -
  let ?es = "report_button 0 38 (pre_val s) (usb_buf ! 1) @ report_button 1 31 (pre_val s) (usb_buf ! 1)
    @ report_button 2 28 (pre_val s) (usb_buf ! 1)"
  have "after (keys_of (pre_val s)) ?es = keys_of (usb_buf ! 1)" "changing (keys_of (pre_val s)) ?es"
    by (auto simp: report_button_bits keys_of_def set_key_def fun_eq_iff)
  moreover have "Submit_urb \<notin> set ?es" by (auto simp: report_button_bits)
  ultimately show ?thesis
    using assms by (auto simp: usbmouse_as_key_irq_def emit_def)
qed

fun mouse_run :: "u8 list list \<Rightarrow> mouse \<Rightarrow> mouse option" where
  "mouse_run [] s = Some s"
| "mouse_run (p # ps) s = Option.bind (usbmouse_as_key_irq p s) (mouse_run ps)"

lemma mouse_run_follows:
  assumes "\<forall>p \<in> set ps. 2 \<le> length p"
    and "after (\<lambda>_. False) (kt s) = keys_of (pre_val s)" "changing (\<lambda>_. False) (kt s)"
  shows "\<exists>s'. mouse_run ps s = Some s' \<and> pre_val s' = last (pre_val s # map (\<lambda>p. p ! 1) ps)
    \<and> after (\<lambda>_. False) (kt s') = keys_of (pre_val s') \<and> changing (\<lambda>_. False) (kt s')
    \<and> count_list (kt s') Submit_urb = count_list (kt s) Submit_urb + length ps"
  using assms
proof (induction ps arbitrary: s)
  case (Cons p ps)
  obtain s1 es where s1: "usbmouse_as_key_irq p s = Some s1" "pre_val s1 = p ! 1"
    "after (\<lambda>_. False) (kt s1) = keys_of (pre_val s1)" "changing (\<lambda>_. False) (kt s1)"
    "kt s1 = kt s @ es @ [Submit_urb]" "Submit_urb \<notin> set es"
    using irq_follows [of p s] Cons.prems by auto
  have "count_list (kt s1) Submit_urb = Suc (count_list (kt s) Submit_urb)"
    using s1(5,6) by (simp add: count_list_0_iff)
  with Cons.IH [OF _ s1(3,4)] Cons.prems(1) s1(1,2) show ?case by auto
qed simp

text \<open>One byte earlier, the two handlers are the same.\<close>

lemma irq_34_shifted: "bs \<noteq> [] \<Longrightarrow> usbmouse_as_key_irq_34 bs s = usbmouse_as_key_irq (x # bs) s"
  by (cases bs) (simp_all add: usbmouse_as_key_irq_34_def usbmouse_as_key_irq_def)

lemma irq_34_follows:
  assumes "bs \<noteq> []" "after (\<lambda>_. False) (kt s) = keys_of (pre_val s)" "changing (\<lambda>_. False) (kt s)"
  shows "\<exists>s'. usbmouse_as_key_irq_34 bs s = Some s' \<and> pre_val s' = hd bs
    \<and> after (\<lambda>_. False) (kt s') = keys_of (hd bs) \<and> changing (\<lambda>_. False) (kt s')"
  using irq_follows [of "0 # bs" s] assms irq_34_shifted [of bs s 0] by (cases bs) auto

subsection \<open>Properties\<close>



end
