(* ===== verification/Lcd.thy ===== *)
theory Lcd
  imports Kernel
begin

text \<open>
  The frame buffer drivers: lcd/lcd_driver.c of the 2.6.22 tree (480 x 272) and lcd/lcd.c of the
  3.4.2 tree (240 x 320). The state holds the fields of \<^verbatim>\<open>struct fb_info\<close> that the drivers set and
  the registers they write.
\<close>

subsection \<open>State\<close>

record fb_bitfield =
  offset :: nat
  blen :: nat

record lcd = kstate +
  smem_start :: u32
  smem_len :: u32
  line_length :: u32
  xres :: u32
  yres :: u32
  bits_per_pixel :: u32
  red :: fb_bitfield
  green :: fb_bitfield
  blue :: fb_bitfield
  screen_size :: u32
  pseudo_palette :: "u32 list"
  gpbcon :: u32
  gpbdat :: u32
  gpccon :: u32
  gpdcon :: u32
  gpgcon :: u32
  lcdcon1 :: u32
  lcdcon2 :: u32
  lcdcon3 :: u32
  lcdcon4 :: u32
  lcdcon5 :: u32
  lcdsaddr1 :: u32
  lcdsaddr2 :: u32
  lcdsaddr3 :: u32

subsection \<open>The palette\<close>

text \<open>A shift by 32 or more would be undefined; the fields in use have lengths 5 and 6.\<close>

definition chan_to_field :: "u32 \<Rightarrow> fb_bitfield \<Rightarrow> u32" where
  "chan_to_field chan bf =
     (let chan = chan AND 0xffff;
          chan = drop_bit (16 - blen bf) chan
      in push_bit (offset bf) chan)"

text \<open>The array has 16 entries; a store outside it is undefined.\<close>

definition s3c_lcdfb_setcolreg :: "u32 \<Rightarrow> u32 \<Rightarrow> u32 \<Rightarrow> u32 \<Rightarrow> lcd \<Rightarrow> (int \<times> lcd) option" where
  "s3c_lcdfb_setcolreg regno r g b info =
     (if regno > 16 then Some (1, info)
      else let val = chan_to_field r (red info);
               val = val OR chan_to_field g (green info);
               val = val OR chan_to_field b (blue info)
           in if unat regno < length (pseudo_palette info)
              then Some (0, info\<lparr>pseudo_palette := (pseudo_palette info)[unat regno := val]\<rparr>)
              else None)"

subsection \<open>Load and unload, 480 x 272\<close>

text \<open>
  \<^verbatim>\<open>s\<close> gives the registers before the load and \<^verbatim>\<open>phys\<close> the physical address of the memory that
  \<^verbatim>\<open>dma_alloc_writecombine\<close> returns. \<^verbatim>\<open>set_fb\<close> is the part that fills the \<^verbatim>\<open>fb_info\<close>, \<^verbatim>\<open>set_pins\<close> the
  part on the pins, and \<^verbatim>\<open>set_memory\<close> tells the controller its memory and starts it.
\<close>

definition rgb565 :: "lcd \<Rightarrow> lcd" where
  "rgb565 s = s\<lparr>red := \<lparr>offset = 11, blen = 5\<rparr>, green := \<lparr>offset = 5, blen = 6\<rparr>,
     blue := \<lparr>offset = 0, blen = 5\<rparr>\<rparr>"

definition set_pins :: "lcd \<Rightarrow> lcd" where
  "set_pins s =
     (let s = s\<lparr>gpccon := 0xaaaaaaaa, gpdcon := 0xaaaaaaaa\<rparr>;
          s = s\<lparr>gpbcon := clear_mask 3 (gpbcon s)\<rparr>;
          s = s\<lparr>gpbcon := set_mask 1 (gpbcon s)\<rparr>;
          s = s\<lparr>gpbdat := clear_mask 1 (gpbdat s)\<rparr>
      in s\<lparr>gpgcon := set_mask (push_bit 8 3) (gpgcon s)\<rparr>)"

definition set_memory :: "u32 \<Rightarrow> u32 \<Rightarrow> lcd \<Rightarrow> lcd" where
  "set_memory phys line s =
     (let s = s\<lparr>smem_start := phys\<rparr>;
          s = s\<lparr>lcdsaddr1 := clear_mask (push_bit 30 3) (drop_bit 1 (smem_start s)),
                lcdsaddr2 := drop_bit 1 (smem_start s + smem_len s) AND 0x1fffff,
                lcdsaddr3 := line\<rparr>;
          s = s\<lparr>lcdcon1 := set_mask (push_bit 0 1) (lcdcon1 s)\<rparr>;
          s = s\<lparr>lcdcon5 := set_mask (push_bit 3 1) (lcdcon5 s)\<rparr>
      in s\<lparr>gpbdat := set_mask 1 (gpbdat s)\<rparr>)"

definition lcd_maps :: "u32 \<Rightarrow> kcall list" where
  "lcd_maps len =
     [Framebuffer_alloc, Ioremap 0x56000010 8, Ioremap 0x56000020 4, Ioremap 0x56000030 4,
      Ioremap 0x56000060 4, Ioremap 0x4D000000 104, Dma_alloc ''screen_base'' (unat len), Register_framebuffer]"

definition lcd_init :: "u32 \<Rightarrow> lcd \<Rightarrow> int \<times> lcd" where
  "lcd_init phys s =
     (let s = s\<lparr>smem_len := 480*272*16 div 8, line_length := 480*2, xres := 480, yres := 272,
                bits_per_pixel := 16\<rparr>;
          s = rgb565 s;
          s = s\<lparr>screen_size := 480*272*16 div 8\<rparr>;
          s = set_pins s;
          s = s\<lparr>lcdcon1 := push_bit 8 4 OR push_bit 5 3 OR push_bit 1 0x0c,
                lcdcon2 := push_bit 24 1 OR push_bit 14 271 OR push_bit 6 1 OR 9,
                lcdcon3 := push_bit 19 1 OR push_bit 8 479 OR 1,
                lcdcon4 := 40,
                lcdcon5 := push_bit 11 1 OR push_bit 10 0 OR push_bit 9 1 OR push_bit 8 1 OR push_bit 0 1\<rparr>;
          s = set_memory phys (480*16 div 16) s
      in (0, emit (lcd_maps (smem_len s)) s))"

definition lcd_exit :: "lcd \<Rightarrow> lcd" where
  "lcd_exit s =
     emit [Unregister_framebuffer, Dma_free ''screen_base'' (unat (smem_len s)), Iounmap 0x4D000000,
           Iounmap 0x56000010, Iounmap 0x56000020, Iounmap 0x56000030, Iounmap 0x56000060, Framebuffer_release]
       (s\<lparr>lcdcon1 := clear_mask (push_bit 0 1) (lcdcon1 s), gpbdat := clear_mask 1 (gpbdat s)\<rparr>)"

subsection \<open>Load and unload, 240 x 320\<close>

definition lcd_init_34 :: "u32 \<Rightarrow> lcd \<Rightarrow> int \<times> lcd" where
  "lcd_init_34 phys s =
     (let s = s\<lparr>smem_len := 240*320*16 div 8, line_length := 240*2, xres := 240, yres := 320,
                bits_per_pixel := 16\<rparr>;
          s = rgb565 s;
          s = s\<lparr>screen_size := 240*324*16 div 8\<rparr>;
          s = set_pins s;
          s = s\<lparr>lcdcon1 := push_bit 8 4 OR push_bit 5 3 OR push_bit 1 0x0c,
                lcdcon2 := push_bit 24 3 OR push_bit 14 319 OR push_bit 6 1 OR push_bit 0 0,
                lcdcon3 := push_bit 19 16 OR push_bit 8 239 OR push_bit 0 10,
                lcdcon4 := 4,
                lcdcon5 := push_bit 11 1 OR push_bit 10 0 OR push_bit 9 1 OR push_bit 8 1 OR push_bit 0 1\<rparr>;
          s = set_memory phys (240*16 div 16) s
      in (0, emit (lcd_maps (smem_len s)) s))"

definition lcd_exit_34 :: "lcd \<Rightarrow> lcd" where
  "lcd_exit_34 s =
     emit [Unregister_framebuffer, Dma_free ''screen_base'' (unat (smem_len s)), Iounmap 0x4D000000,
           Iounmap 0x56000010, Iounmap 0x56000020, Iounmap 0x56000030, Iounmap 0x56000060, Framebuffer_release]
       (s\<lparr>lcdcon1 := clear_mask (push_bit 0 1) (lcdcon1 s), gpbdat := clear_mask 1 (gpbdat s)\<rparr>)"

definition lcd_start :: lcd where
  "lcd_start = \<lparr>kt = [], smem_start = 0, smem_len = 0, line_length = 0, xres = 0, yres = 0,
     bits_per_pixel = 0, red = \<lparr>offset = 0, blen = 0\<rparr>, green = \<lparr>offset = 0, blen = 0\<rparr>,
     blue = \<lparr>offset = 0, blen = 0\<rparr>, screen_size = 0, pseudo_palette = replicate 16 0,
     gpbcon = 0, gpbdat = 0, gpccon = 0, gpdcon = 0, gpgcon = 0, lcdcon1 = 0, lcdcon2 = 0,
     lcdcon3 = 0, lcdcon4 = 0, lcdcon5 = 0, lcdsaddr1 = 0, lcdsaddr2 = 0, lcdsaddr3 = 0\<rparr>"

lemmas lcd_loads = lcd_init_def lcd_init_34_def lcd_exit_def lcd_exit_34_def set_memory_def set_pins_def
  rgb565_def lcd_maps_def Let_def

lemma lcd_regs_init:
  fixes phys s
  defines "t \<equiv> snd (lcd_init phys s)"
  shows "xres t = 480" "yres t = 272" "bits_per_pixel t = 16" "line_length t = 960" "smem_len t = 261120"
    "screen_size t = 261120" "lcdcon2 t = push_bit 24 1 OR push_bit 14 271 OR push_bit 6 1 OR 9"
    "lcdcon3 t = push_bit 19 1 OR push_bit 8 479 OR 1" "smem_start t = phys"
    "lcdsaddr1 t = clear_mask (push_bit 30 3) (drop_bit 1 phys)"
    "lcdsaddr2 t = drop_bit 1 (phys + 261120) AND 0x1fffff" "lcdsaddr3 t = 480"
    "red t = \<lparr>offset = 11, blen = 5\<rparr>" "green t = \<lparr>offset = 5, blen = 6\<rparr>" "blue t = \<lparr>offset = 0, blen = 5\<rparr>"
    "pseudo_palette t = pseudo_palette s"
  by (simp_all add: t_def lcd_loads emit_def)

lemma lcd_regs_init_34:
  fixes phys s
  defines "t \<equiv> snd (lcd_init_34 phys s)"
  shows "xres t = 240" "yres t = 320" "bits_per_pixel t = 16" "line_length t = 480" "smem_len t = 153600"
    "screen_size t = 155520" "lcdcon2 t = push_bit 24 3 OR push_bit 14 319 OR push_bit 6 1 OR push_bit 0 0"
    "lcdcon3 t = push_bit 19 16 OR push_bit 8 239 OR push_bit 0 10" "smem_start t = phys"
    "lcdsaddr1 t = clear_mask (push_bit 30 3) (drop_bit 1 phys)"
    "lcdsaddr2 t = drop_bit 1 (phys + 153600) AND 0x1fffff" "lcdsaddr3 t = 240"
    "red t = \<lparr>offset = 11, blen = 5\<rparr>" "green t = \<lparr>offset = 5, blen = 6\<rparr>" "blue t = \<lparr>offset = 0, blen = 5\<rparr>"
    "pseudo_palette t = pseudo_palette s"
  by (simp_all add: t_def lcd_loads emit_def)

definition lcd_loaded :: "bool \<Rightarrow> u32 \<Rightarrow> lcd" where
  "lcd_loaded old phys = snd ((if old then lcd_init else lcd_init_34) phys lcd_start)"

interpretation lcd_life: lifecycle "\<lambda>phys. (0, kt (lcd_loaded True phys))"
  "\<lambda>phys. drop (length (kt (lcd_loaded True phys))) (kt (lcd_exit (lcd_loaded True phys)))"
  by unfold_locales
     (simp_all add: lcd_loaded_def lcd_start_def lcd_loads emit_def)

interpretation lcd_34_life: lifecycle "\<lambda>phys. (0, kt (lcd_loaded False phys))"
  "\<lambda>phys. drop (length (kt (lcd_loaded False phys))) (kt (lcd_exit_34 (lcd_loaded False phys)))"
  by unfold_locales
     (simp_all add: lcd_loaded_def lcd_start_def lcd_loads emit_def)

subsection \<open>Colours\<close>

definition is_rgb565 :: "lcd \<Rightarrow> bool" where
  "is_rgb565 s \<longleftrightarrow> red s = \<lparr>offset = 11, blen = 5\<rparr> \<and> green s = \<lparr>offset = 5, blen = 6\<rparr>
     \<and> blue s = \<lparr>offset = 0, blen = 5\<rparr> \<and> length (pseudo_palette s) = 16"

lemma loaded_rgb565: "is_rgb565 (lcd_loaded old phys)"
  by (simp add: is_rgb565_def lcd_loaded_def lcd_regs_init lcd_regs_init_34) (simp add: lcd_start_def)

lemma bit_chan: "bit (chan_to_field c \<lparr>offset = f, blen = l\<rparr>) n \<longleftrightarrow>
    n < 32 \<and> f \<le> n \<and> 16 - l + (n - f) < 16 \<and> bit c (16 - l + (n - f))"
proof -
  have ff: "(0xffff :: u32) = mask 16" by (simp add: mask_eq_exp_minus_1)
  show ?thesis
    unfolding chan_to_field_def Let_def ff
    by (auto simp: bit_push_bit_iff bit_drop_bit_eq bit_and_iff bit_mask_iff dest: bit_imp_le_length)
qed

subsection \<open>Properties\<close>

text \<open>
  With either driver loaded, setting palette entry 0 to 15 stores the upper five, six and five
  bits of the 16-bit red, green and blue channels as an RGB 565 pixel, and changes no other entry.
  Entries above 16 are refused. Entry 16 is not refused and is stored behind the array.
\<close>

theorem setcolreg_565:
  assumes "s = lcd_loaded old phys" "regno < 16" "16 < big"
  shows "\<exists>s' val. s3c_lcdfb_setcolreg regno r g b s = Some (0, s')
      \<and> pseudo_palette s' = (pseudo_palette s)[unat regno := val]
      \<and> (\<forall>n. bit val n \<longleftrightarrow> (if n < 5 then bit b (n + 11) else if n < 11 then bit g (n + 5)
               else n < 16 \<and> bit r n))
    \<and> s3c_lcdfb_setcolreg big r g b s = Some (1, s)
    \<and> s3c_lcdfb_setcolreg 16 r g b s = None"
proof -
  have rgb: "is_rgb565 s" using assms(1) by (simp add: loaded_rgb565)
  let ?val = "(chan_to_field r (red s) OR chan_to_field g (green s)) OR chan_to_field b (blue s)"
  have u: "unat regno < 16" using assms(2) by (simp add: word_less_nat_alt)
  then have "s3c_lcdfb_setcolreg regno r g b s =
      Some (0, s\<lparr>pseudo_palette := (pseudo_palette s)[unat regno := ?val]\<rparr>)"
    using rgb assms(2) by (auto simp: s3c_lcdfb_setcolreg_def is_rgb565_def Let_def)
  moreover have "bit ?val n \<longleftrightarrow> (if n < 5 then bit b (n + 11) else if n < 11 then bit g (n + 5)
               else n < 16 \<and> bit r n)" for n
    using rgb by (auto simp: is_rgb565_def bit_or_iff bit_chan add.commute)
  moreover have "s3c_lcdfb_setcolreg big r g b s = Some (1, s)"
    using assms(3) by (simp add: s3c_lcdfb_setcolreg_def)
  moreover have "s3c_lcdfb_setcolreg 16 r g b s = None"
    using rgb by (simp add: s3c_lcdfb_setcolreg_def is_rgb565_def)
  ultimately show ?thesis by auto
qed

theorem setcolreg_565_witness:
  "s3c_lcdfb_setcolreg 16 0xffff 0 0 (lcd_loaded True 0x33000000) = None
    \<and> s3c_lcdfb_setcolreg 17 0xffff 0 0 (lcd_loaded True 0x33000000) = Some (1, lcd_loaded True 0x33000000)"
  using setcolreg_565 [where s = "lcd_loaded True 0x33000000" and old = True and phys = "0x33000000"
      and regno = 3 and big = 17 and r = "0xffff" and g = 0 and b = 0] by auto

text \<open>
  The 2.6.22 driver is consistent: the memory it allocates is exactly the visible picture, the
  line length and the size it announces fit it, and the controller scans the announced rows and
  columns of this memory. The 3.4.2 driver scans the announced picture too, but announces a screen
  of 1920 bytes more than it allocated, so writing the whole screen runs past the memory.
\<close>

theorem lcd_geometry:
  "(let s = lcd_loaded True phys in
      smem_len s = xres s * yres s * bits_per_pixel s div 8 \<and> screen_size s = smem_len s
      \<and> line_length s * yres s = smem_len s
      \<and> drop_bit 14 (lcdcon2 s) AND mask 10 = yres s - 1 \<and> drop_bit 8 (lcdcon3 s) AND mask 11 = xres s - 1
      \<and> lcdsaddr3 s * 2 = line_length s
      \<and> lcdsaddr2 s = drop_bit 1 (smem_start s + smem_len s) AND mask 21)
   \<and> (let s = lcd_loaded False phys in
      smem_len s = xres s * yres s * bits_per_pixel s div 8 \<and> screen_size s = smem_len s + 1920
      \<and> line_length s * yres s = smem_len s
      \<and> drop_bit 14 (lcdcon2 s) AND mask 10 = yres s - 1 \<and> drop_bit 8 (lcdcon3 s) AND mask 11 = xres s - 1
      \<and> lcdsaddr3 s * 2 = line_length s
      \<and> lcdsaddr2 s = drop_bit 1 (smem_start s + smem_len s) AND mask 21)"
  by (simp add: lcd_loaded_def lcd_regs_init lcd_regs_init_34 Let_def mask_eq_exp_minus_1)

end
