(* ===== verification/VirtNet.thy ===== *)
theory VirtNet
  imports Kernel
begin

text \<open>
  The virtual network card, virt_net/virt_net_driver.c (2.6.22) and virt_net/virt_net.c (3.4.2, the
  same code but for the registration of the transmit function): every packet sent is answered by
  the packet itself with the addresses exchanged, as a ping reply.
\<close>

subsection \<open>Packets\<close>

text \<open>
  A packet is the list of its bytes: 14 of Ethernet (destination, source, type), then the IP header
  with its length in words in the low half of byte 14, the checksum at 24, the source address at 26
  and the destination at 30. Byte 34 is the type of an ICMP packet without IP options.
\<close>

type_synonym packet = "u8 list"

definition put :: "nat \<Rightarrow> u8 list \<Rightarrow> packet \<Rightarrow> packet" where
  "put i bs p = take i p @ bs @ drop (i + length bs) p"

definition get :: "nat \<Rightarrow> nat \<Rightarrow> packet \<Rightarrow> u8 list" where
  "get i n p = take n (drop i p)"

definition header_bytes :: "packet \<Rightarrow> nat" where
  "header_bytes p = unat (p ! 14 AND 0x0f) * 4"

record vnet = kstate +
  rx_packets :: u32
  rx_bytes :: u32
  tx_packets :: u32
  tx_bytes :: u32

subsection \<open>Sending\<close>

text \<open>
  \<^verbatim>\<open>csum\<close> is \<^verbatim>\<open>ip_fast_csum\<close> of the kernel: the two bytes that it puts in the checksum field, from
  the header bytes. The accesses are within the packet when it has at least 35 bytes and its whole
  header; \<^verbatim>\<open>alloc_ok\<close> says whether \<^verbatim>\<open>dev_alloc_skb\<close> succeeds, which is not checked. The result is
  the packet handed to \<^verbatim>\<open>netif_rx\<close> (the packet sent is changed in place and equals it).
\<close>

definition rewrite_packet :: "(u8 list \<Rightarrow> u8 list) \<Rightarrow> packet \<Rightarrow> packet" where
  "rewrite_packet csum p =
     (let tmp_dev_addr = get 0 6 p;
          p = put 0 (get 6 6 p) p;
          p = put 6 tmp_dev_addr p;
          tmp = get 26 4 p;
          p = put 26 (get 30 4 p) p;
          p = put 30 tmp p;
          p = put 34 [0] p;
          p = put 24 [0, 0] p
      in put 24 (csum (get 14 (header_bytes p) p)) p)"

definition emulator_rx_packet ::
  "(u8 list \<Rightarrow> u8 list) \<Rightarrow> bool \<Rightarrow> packet \<Rightarrow> vnet \<Rightarrow> (packet \<times> vnet) option" where
  "emulator_rx_packet csum alloc_ok skb dev =
     (if length skb < 35 \<or> length skb < 14 + header_bytes skb \<or> \<not> alloc_ok then None
      else let p = rewrite_packet csum skb
           in Some (p, emit [Kmalloc ''rx_skb'' (length p + 2), Other ''eth_type_trans'' 0, Other ''netif_rx'' 0]
                (dev\<lparr>rx_packets := rx_packets dev + 1, rx_bytes := rx_bytes dev + of_nat (length p)\<rparr>)))"

text \<open>
  The length is read again after \<^verbatim>\<open>dev_kfree_skb\<close>, from memory that has been given back: \<^verbatim>\<open>freed_len\<close>
  is what is found there.
\<close>

definition virt_net_send_packet ::
  "(u8 list \<Rightarrow> u8 list) \<Rightarrow> bool \<Rightarrow> u32 \<Rightarrow> packet \<Rightarrow> vnet \<Rightarrow> (int \<times> packet \<times> vnet) option" where
  "virt_net_send_packet csum alloc_ok freed_len skb dev =
     Option.bind (emulator_rx_packet csum alloc_ok skb (emit [Other ''netif_stop_queue'' 0] dev)) (\<lambda>(p, dev).
       let dev = emit [Other ''dev_kfree_skb'' 0, Other ''netif_wake_queue'' 0] dev
       in Some (0, p, dev\<lparr>tx_packets := tx_packets dev + 1, tx_bytes := tx_bytes dev + freed_len\<rparr>))"

definition dev_addr :: "u8 list" where
  "dev_addr = [0x08, 0x89, 0x89, 0x89, 0x89, 0x11]"

definition virt_net_init :: "int \<times> kcall list" where
  "virt_net_init = (0, [Alloc_netdev ''vnet'', Register_netdev ''vnet''])"

definition virt_net_exit :: "kcall list" where
  "virt_net_exit = [Unregister_netdev ''vnet'', Free_netdev ''vnet'']"

interpretation vnet_life: lifecycle "\<lambda>_. virt_net_init" "\<lambda>_. virt_net_exit"
  by unfold_locales (simp_all add: virt_net_init_def virt_net_exit_def)

subsection \<open>Access to the fields\<close>

lemma length_put [simp]: "i + length bs \<le> length p \<Longrightarrow> length (put i bs p) = length p"
  by (auto simp: put_def)

lemma nth_put:
  "i + length bs \<le> length p \<Longrightarrow> k < length p \<Longrightarrow>
     put i bs p ! k = (if i \<le> k \<and> k < i + length bs then bs ! (k - i) else p ! k)"
  by (auto simp: put_def nth_append min_def)

lemma length_get [simp]: "i + n \<le> length p \<Longrightarrow> length (get i n p) = n"
  by (simp add: get_def)

lemma nth_get: "i + n \<le> length p \<Longrightarrow> k < n \<Longrightarrow> get i n p ! k = p ! (i + k)"
  by (simp add: get_def)

text \<open>Byte \<^verbatim>\<open>k\<close> of the reply, from the packet sent.\<close>

definition reply_byte :: "packet \<Rightarrow> nat \<Rightarrow> u8" where
  "reply_byte p k =
     (if k < 6 then p ! (k + 6) else if k < 12 then p ! (k - 6)
      else if k = 24 \<or> k = 25 \<or> k = 34 then 0
      else if 26 \<le> k \<and> k < 30 then p ! (k + 4) else if 30 \<le> k \<and> k < 34 then p ! (k - 4) else p ! k)"

definition zeroed :: "packet \<Rightarrow> packet" where
  "zeroed p = map (reply_byte p) [0..<length p]"

lemma rewrite_zeroed:
  assumes "35 \<le> length p"
  shows "rewrite_packet csum p = put 24 (csum (get 14 (header_bytes p) (zeroed p))) (zeroed p)"
proof -
  let ?q = "put 24 [0, 0] (put 34 [0] (put 30 (get 26 4 p) (put 26 (get 30 4 p) (put 6 (get 0 6 p) (put 0 (get 6 6 p) p)))))"
  have g: "get 26 4 (put 6 (get 0 6 p) (put 0 (get 6 6 p) p)) = get 26 4 p"
    "get 30 4 (put 6 (get 0 6 p) (put 0 (get 6 6 p) p)) = get 30 4 p"
    using assms by (auto intro!: nth_equalityI simp: nth_get nth_put)
  have q: "?q = zeroed p"
    using assms by (intro nth_equalityI) (auto simp: zeroed_def reply_byte_def nth_put nth_get add.commute)
  have "header_bytes (zeroed p) = header_bytes p"
    using assms by (simp add: header_bytes_def zeroed_def reply_byte_def)
  then show ?thesis
    by (simp add: rewrite_packet_def Let_def g q)
qed

subsection \<open>The IP checksum\<close>

text \<open>A header verifies when its 16-bit words add up to 0 in one's complement (RFC 1071).\<close>

fun word_sum :: "u8 list \<Rightarrow> nat" where
  "word_sum (a # b # bs) = unat a * 256 + unat b + word_sum bs"
| "word_sum [a] = unat a * 256"
| "word_sum [] = 0"

definition verifies :: "u8 list \<Rightarrow> bool" where
  "verifies h \<longleftrightarrow> word_sum h mod 65535 = 0"

text \<open>
  What \<^verbatim>\<open>ip_fast_csum\<close> documents: for a header of at least five words whose checksum field is 0 it
  returns the two bytes that make the header verify.
\<close>

definition csum_ok :: "(u8 list \<Rightarrow> u8 list) \<Rightarrow> bool" where
  "csum_ok csum \<longleftrightarrow> (\<forall>h. 20 \<le> length h \<and> even (length h) \<and> h ! 10 = 0 \<and> h ! 11 = 0 \<longrightarrow>
     length (csum h) = 2 \<and> verifies (put 10 (csum h) h))"

definition inet_csum :: "u8 list \<Rightarrow> u8 list" where
  "inet_csum h = (let c = 65535 - word_sum h mod 65535 in [of_nat (c div 256), of_nat (c mod 256)])"

lemma word_sum_append: "even (length xs) \<Longrightarrow> word_sum (xs @ ys) = word_sum xs + word_sum ys"
  by (induction xs rule: word_sum.induct) auto

lemma csum_ok_inet: "csum_ok inet_csum"
proof -
  have "verifies (put 10 (inet_csum h) h)" if h: "20 \<le> length h" "h ! 10 = 0" "h ! 11 = 0" for h
  proof -
    define r where "r = word_sum h mod 65535"
    let ?c = "65535 - r"
    have c: "?c < 65536" by simp
    have split: "h = take 10 h @ [0, 0] @ drop 12 h"
      using Cons_nth_drop_Suc [of 10 h] Cons_nth_drop_Suc [of 11 h] h append_take_drop_id [of 10 h] by simp
    have m: "r < 65535" by (simp add: r_def)
    have ev: "even (length (take 10 h))" using h by (simp add: min_def)
    have "word_sum h = word_sum (take 10 h) + word_sum (drop 12 h)"
      using arg_cong [OF split, of word_sum] word_sum_append [OF ev] by simp
    moreover have "word_sum (put 10 (inet_csum h) h) =
        word_sum (take 10 h) + (?c div 256 * 256 + ?c mod 256) + word_sum (drop 12 h)"
    proof -
      have "unat (of_nat (?c div 256) :: u8) = ?c div 256" "unat (of_nat (?c mod 256) :: u8) = ?c mod 256"
        using less_mult_imp_div_less [of ?c 256 256] c by (simp_all add: unsigned_of_nat take_bit_eq_mod)
      then show ?thesis
        using word_sum_append [OF ev] m by (simp add: put_def inet_csum_def Let_def r_def [symmetric] add.assoc)
    qed
    ultimately have "word_sum (put 10 (inet_csum h) h) = word_sum h + (65535 - r)"
      by simp
    also have "\<dots> mod 65535 = 0"
    proof -
      have "word_sum h = word_sum h div 65535 * 65535 + r" by (simp add: r_def)
      then have "word_sum h + (65535 - r) = 65535 * (word_sum h div 65535 + 1)"
        using m by simp
      then show ?thesis by (metis mod_mult_self1_is_0)
    qed
    finally show ?thesis by (simp add: verifies_def)
  qed
  then show ?thesis by (auto simp: csum_ok_def inet_csum_def Let_def)
qed

subsection \<open>Properties\<close>



end
