(* ===== verification/Dma.thy ===== *)
theory Dma
  imports Kernel
begin

text \<open>
  The memory copy driver dma/dma_driver.c: one ioctl copies a buffer with the processor or with
  channel 3 of the DMA controller, and checks the result. A process that waits for the end of the
  transfer sleeps inside the call, so the call has two parts.
\<close>

subsection \<open>State\<close>

definition MEM_CPY_NO_DMA :: nat where "MEM_CPY_NO_DMA = 0"
definition MEM_CPY_DMA :: nat where "MEM_CPY_DMA = 1"
definition BUF_SIZE :: nat where "BUF_SIZE = 512 * 1024"
definition DMA3_BASE_ADDR :: u32 where "DMA3_BASE_ADDR = 0x4B0000C0"

record dma_regs =
  disrc :: u32
  disrcc :: u32
  didst :: u32
  didstc :: u32
  dcon :: u32
  dmasktrig :: u32

record dma = kstate +
  src :: "u8 list"
  src_phys :: u32
  dst :: "u8 list"
  dst_phys :: u32
  ev_dma :: bool
  regs :: dma_regs

subsection \<open>The ioctl\<close>

text \<open>The copy loop of the processor, from index \<^verbatim>\<open>i\<close> on.\<close>

fun copy_loop :: "nat \<Rightarrow> nat \<Rightarrow> u8 list \<Rightarrow> u8 list \<Rightarrow> u8 list" where
  "copy_loop i 0 s d = d"
| "copy_loop i (Suc n) s d = copy_loop (Suc i) n s (d[i := s ! i])"

text \<open>\<^verbatim>\<open>memcmp\<close> of both buffers and the message that follows.\<close>

definition compare :: "string \<Rightarrow> dma \<Rightarrow> dma" where
  "compare what s = emit [Other (what @ (if src s = dst s then '' OK'' else '' ERROR'')) 0] s"

definition program_dma :: "dma \<Rightarrow> dma" where
  "program_dma s = s\<lparr>ev_dma := False,
     regs := (regs s)\<lparr>disrc := src_phys s, disrcc := 0, didst := dst_phys s, didstc := 0,
       dcon := push_bit 30 1 OR push_bit 29 1 OR push_bit 28 0 OR push_bit 27 1 OR push_bit 23 0
               OR push_bit 20 0 OR of_nat BUF_SIZE,
       dmasktrig := push_bit 1 1 OR push_bit 0 1\<rparr>\<rparr>"

text \<open>
  \<^verbatim>\<open>s3c_dma_ioctl\<close> is the call up to its end or to the wait; in the second case the result is
  \<^verbatim>\<open>Sleep\<close> with the state that waits. \<^verbatim>\<open>s3c_dma_resume\<close> is what runs after the wait, which ends
  when \<^verbatim>\<open>ev_dma\<close> is set or when a signal arrives; the driver does not distinguish the two.
\<close>

definition s3c_dma_ioctl :: "nat \<Rightarrow> dma \<Rightarrow> int syscall \<times> dma" where
  "s3c_dma_ioctl cmd s =
     (let s = s\<lparr>src := replicate BUF_SIZE 0xAA, dst := replicate BUF_SIZE 0x55\<rparr>
      in if cmd = MEM_CPY_NO_DMA
         then (Ret 0, compare ''MEM_CPY_NO_DMA'' (s\<lparr>dst := copy_loop 0 BUF_SIZE (src s) (dst s)\<rparr>))
         else if cmd = MEM_CPY_DMA then (Sleep, program_dma s)
         else (Ret 0, s))"

definition s3c_dma_resume :: "bool \<Rightarrow> dma \<Rightarrow> (int \<times> dma) option" where
  "s3c_dma_resume sig s =
     (if ev_dma s \<or> sig then Some (0, compare ''MEM_CPY_DMA'' s) else None)"

definition s3c_dma_irq :: "dma \<Rightarrow> dma" where
  "s3c_dma_irq s = emit [Wake_up ''dma_waitq''] (s\<lparr>ev_dma := True\<rparr>)"

subsection \<open>Load and unload\<close>

text \<open>What the kernel answers: the interrupt, the two buffers, and the major number.\<close>

record dma_env =
  irq_ok :: bool
  src_ok :: bool
  dst_ok :: bool
  dma_major :: nat

definition s3c_dma_init :: "dma_env \<Rightarrow> int \<times> kcall list" where
  "s3c_dma_init e =
     (if \<not> irq_ok e then (- EBUSY, [])
      else if \<not> src_ok e then (- ENOMEM, [Request_irq ''IRQ_DMA3'' 1, Free_irq ''IRQ_DMA3'' 1])
      else if \<not> dst_ok e
      then (- ENOMEM, [Request_irq ''IRQ_DMA3'' 1, Dma_alloc ''src'' BUF_SIZE, Free_irq ''IRQ_DMA3'' 1,
                       Dma_free ''src'' BUF_SIZE])
      else (0, [Request_irq ''IRQ_DMA3'' 1, Dma_alloc ''src'' BUF_SIZE, Dma_alloc ''dst'' BUF_SIZE,
                Register_chrdev (dma_major e), Class_create ''s3c_dma'', Device_create (dma_major e) 0,
                Ioremap DMA3_BASE_ADDR 36]))"

definition s3c_dma_exit :: "dma_env \<Rightarrow> kcall list" where
  "s3c_dma_exit e =
     [Iounmap DMA3_BASE_ADDR, Device_destroy (dma_major e) 0, Class_destroy ''s3c_dma'',
      Unregister_chrdev (dma_major e), Dma_free ''src'' BUF_SIZE, Dma_free ''dst'' BUF_SIZE,
      Free_irq ''IRQ_DMA3'' 1]"

interpretation dma_life: lifecycle s3c_dma_init s3c_dma_exit
  by unfold_locales (auto simp: s3c_dma_init_def s3c_dma_exit_def split: if_splits)

subsection \<open>The copy loop copies\<close>

lemma length_copy_loop [simp]: "length (copy_loop i n s d) = length d"
  by (induction i n s d rule: copy_loop.induct) auto

lemma copy_loop_nth:
  "i + n \<le> length d \<Longrightarrow> k < length d \<Longrightarrow>
     copy_loop i n s d ! k = (if i \<le> k \<and> k < i + n then s ! k else d ! k)"
  by (induction i n s d rule: copy_loop.induct) (auto simp: nth_list_update not_le less_Suc_eq)

lemma copy_loop_all: "length s = length d \<Longrightarrow> copy_loop 0 (length d) s d = s"
  by (rule nth_equalityI) (auto simp: copy_loop_nth)

text \<open>
  A signal ends the wait too: while the transfer is unfinished the driver then reports an error of
  the copy, and returns 0.
\<close>

lemma signal_reports_error:
  "src s \<noteq> dst s \<Longrightarrow> \<exists>s'. s3c_dma_resume True s = Some (0, s') \<and> kt s' = kt s @ [Other ''MEM_CPY_DMA ERROR'' 0]"
  by (simp add: s3c_dma_resume_def compare_def)

subsection \<open>Properties\<close>

text \<open>
  C40. The processor copy succeeds: it leaves both buffers equal, reports OK and returns 0. The
  DMA copy programs the two physical addresses and a transfer count that is exactly the size of the
  buffers in bytes, in a field of its own, and starts the channel; then, if the controller has
  copied the source when it interrupts, it reports OK and returns 0.
\<close>

theorem dma_copies:
  "(\<exists>s'. s3c_dma_ioctl MEM_CPY_NO_DMA s = (Ret 0, s') \<and> dst s' = src s' \<and> length (dst s') = BUF_SIZE
      \<and> kt s' = kt s @ [Other ''MEM_CPY_NO_DMA OK'' 0])
   \<and> (\<exists>s'. s3c_dma_ioctl MEM_CPY_DMA s = (Sleep, s') \<and> \<not> ev_dma s' \<and> s3c_dma_resume False s' = None
      \<and> disrc (regs s') = src_phys s \<and> didst (regs s') = dst_phys s
      \<and> take_bit 20 (uint (dcon (regs s'))) = int BUF_SIZE \<and> bit (dcon (regs s')) 29 \<and> bit (dmasktrig (regs s')) 1
      \<and> (\<exists>s''. s3c_dma_resume False (s3c_dma_irq (s'\<lparr>dst := src s'\<rparr>)) = Some (0, s'')
           \<and> kt s'' = kt s @ [Wake_up ''dma_waitq'', Other ''MEM_CPY_DMA OK'' 0]))"
proof -
  have c: "copy_loop 0 BUF_SIZE (replicate BUF_SIZE 0xAA) (replicate BUF_SIZE 0x55) = replicate BUF_SIZE (0xAA :: u8)"
    using copy_loop_all [of "replicate BUF_SIZE 0xAA" "replicate BUF_SIZE (0x55 :: u8)"] by simp
  have d: "dcon (regs (program_dma t)) = 0x68080000" for t
    by (simp add: program_dma_def BUF_SIZE_def)
  show ?thesis
    by (simp add: s3c_dma_ioctl_def s3c_dma_resume_def s3c_dma_irq_def compare_def c d emit_def
        MEM_CPY_NO_DMA_def MEM_CPY_DMA_def)
       (simp add: program_dma_def BUF_SIZE_def take_bit_eq_mod bit_numeral_rec)
qed

text \<open>
  Whatever the kernel answers, and however often the module is loaded and unloaded, it leaves
  nothing behind: a failed load gives back what it had acquired, an unload everything.
\<close>

theorem dma_loads_leave_nothing:
  "held (concat (map (\<lambda>e. if fst (s3c_dma_init e) = 0 then snd (s3c_dma_init e) @ s3c_dma_exit e
                          else snd (s3c_dma_init e)) es)) = []"
  using dma_life.held_sessions [of es] by (simp add: dma_life.session_def [abs_def])

end
