(* ===== verification/At24.thy ===== *)
theory At24
  imports Kernel
begin

text \<open>
  The EEPROM driver i2c/at24cxx_driver.c: reads and writes of one byte as I2C messages, and the
  life of the client structure. The adapter behind \<^verbatim>\<open>i2c_transfer\<close> is a parameter with a state of
  its own; it returns the number of messages it transferred and fills the buffers of the reads.
\<close>

subsection \<open>Messages\<close>

record i2c_msg =
  addr :: u16
  is_rd :: bool
  buf :: "u8 list"

type_synonym 'm adapter = "i2c_msg list \<Rightarrow> 'm \<Rightarrow> int \<times> i2c_msg list \<times> 'm"

subsection \<open>File operations\<close>

text \<open>
  \<^verbatim>\<open>caddr\<close> is the address of the client. \<^verbatim>\<open>ubuf\<close> is the memory of the user, whose first byte holds
  the address and receives the data; \<^verbatim>\<open>junk\<close> is what the local \<^verbatim>\<open>data\<close> holds before the transfer.
  A fault of the copies is not looked at, so they are taken to succeed.
\<close>

definition at24cxx_read ::
  "'m adapter \<Rightarrow> u16 \<Rightarrow> u8 \<Rightarrow> u8 list \<Rightarrow> nat \<Rightarrow> 'm \<Rightarrow> int \<times> u8 list \<times> 'm" where
  "at24cxx_read xfer caddr junk ubuf count m =
     (if count \<noteq> 1 then (- EINVAL, ubuf, m)
      else let address = ubuf ! 0;
               msg = [\<lparr>addr = caddr, is_rd = False, buf = [address]\<rparr>,
                      \<lparr>addr = caddr, is_rd = True, buf = [junk]\<rparr>]
           in (case xfer msg m of (ret, msg', m') \<Rightarrow>
                 if ret = 2 then (1, ubuf[0 := buf (msg' ! 1) ! 0], m') else (- EIO, ubuf, m')))"

definition at24cxx_write :: "'m adapter \<Rightarrow> u16 \<Rightarrow> u8 list \<Rightarrow> nat \<Rightarrow> 'm \<Rightarrow> int \<times> 'm" where
  "at24cxx_write xfer caddr ubuf count m =
     (if count \<noteq> 2 then (- EINVAL, m)
      else let val = take 2 ubuf;
               msg = [\<lparr>addr = caddr, is_rd = False, buf = val\<rparr>]
           in (case xfer msg m of (ret, msg', m') \<Rightarrow> if ret = 1 then (2, m') else (- EIO, m')))"

subsection \<open>The client\<close>

text \<open>
  \<^verbatim>\<open>at24cxx_detect\<close> allocates the client. Nothing calls \<^verbatim>\<open>i2c_set_clientdata\<close>, so in
  \<^verbatim>\<open>at24cxx_detach\<close> the call \<^verbatim>\<open>kfree(i2c_get_clientdata(client))\<close> frees a null pointer, which does
  nothing.
\<close>

definition at24cxx_detect :: "nat \<Rightarrow> int \<times> kcall list" where
  "at24cxx_detect major =
     (0, [Kmalloc ''at24cxx_client'' 0, Other ''i2c_attach_client'' 0, Register_chrdev major,
          Class_create ''at24cxx'', Device_create major 0])"

definition at24cxx_detach :: "nat \<Rightarrow> int \<times> kcall list" where
  "at24cxx_detach major =
     (0, [Device_destroy major 0, Class_destroy ''at24cxx'', Unregister_chrdev major,
          Other ''i2c_detach_client'' 0, Other ''kfree NULL'' 0])"

text \<open>\<^verbatim>\<open>i2c_probe\<close> is the kernel's: \<^verbatim>\<open>found\<close> lists the major numbers for the chips that answer.\<close>

definition at24cxx_attach :: "nat list \<Rightarrow> int \<times> kcall list" where
  "at24cxx_attach found = (0, concat (map (\<lambda>major. snd (at24cxx_detect major)) found))"

definition at24cxx_init :: "int \<times> kcall list" where
  "at24cxx_init = (0, [Register_driver ''at24cxx''])"

definition at24cxx_exit :: "kcall list" where
  "at24cxx_exit = [Unregister_driver ''at24cxx'']"

interpretation at24_life: lifecycle "\<lambda>_. at24cxx_init" "\<lambda>_. at24cxx_exit"
  by unfold_locales (simp_all add: at24cxx_init_def at24cxx_exit_def)

subsection \<open>What the chip promises\<close>

text \<open>
  The data sheet of the chip, seen through an adapter: on the bus without errors, a message of two
  bytes stores the second at the address in the first, and a message of one byte followed by a read
  returns what is stored there. \<^verbatim>\<open>mem\<close> reads the contents out of the state.
\<close>

definition chip_ok :: "'m adapter \<Rightarrow> u16 \<Rightarrow> ('m \<Rightarrow> u8 \<Rightarrow> u8) \<Rightarrow> bool" where
  "chip_ok xfer caddr mem \<longleftrightarrow>
     (\<forall>m a d. \<exists>m'. xfer [\<lparr>addr = caddr, is_rd = False, buf = [a, d]\<rparr>] m
           = (1, [\<lparr>addr = caddr, is_rd = False, buf = [a, d]\<rparr>], m') \<and> mem m' = (mem m)(a := d))
   \<and> (\<forall>m a j. \<exists>m'. xfer [\<lparr>addr = caddr, is_rd = False, buf = [a]\<rparr>, \<lparr>addr = caddr, is_rd = True, buf = [j]\<rparr>] m
           = (2, [\<lparr>addr = caddr, is_rd = False, buf = [a]\<rparr>, \<lparr>addr = caddr, is_rd = True, buf = [mem m a]\<rparr>], m')
         \<and> mem m' = mem m)"

definition plain_chip :: "(u8 \<Rightarrow> u8) adapter" where
  "plain_chip msgs m =
     (case msgs of
        [w] \<Rightarrow> (1, [w], m(buf w ! 0 := buf w ! 1))
      | [w, r] \<Rightarrow> (2, [w, r\<lparr>buf := [m (buf w ! 0)]\<rparr>], m)
      | _ \<Rightarrow> (0, msgs, m))"

lemma chip_ok_plain: "chip_ok plain_chip caddr (\<lambda>m. m)"
  by (simp add: chip_ok_def plain_chip_def)

text \<open>A program that writes and reads; the results of the reads.\<close>

datatype eeprom_op = Store u8 u8 | Fetch u8

fun eeprom_run :: "'m adapter \<Rightarrow> u16 \<Rightarrow> u8 \<Rightarrow> eeprom_op list \<Rightarrow> 'm \<Rightarrow> (int \<times> u8 list) list \<times> 'm" where
  "eeprom_run xfer caddr junk [] m = ([], m)"
| "eeprom_run xfer caddr junk (Store a d # ops) m =
     (case at24cxx_write xfer caddr [a, d] 2 m of (r, m') \<Rightarrow>
        (case eeprom_run xfer caddr junk ops m' of (rs, m'') \<Rightarrow> ((r, []) # rs, m'')))"
| "eeprom_run xfer caddr junk (Fetch a # ops) m =
     (case at24cxx_read xfer caddr junk [a] 1 m of (r, b, m') \<Rightarrow>
        (case eeprom_run xfer caddr junk ops m' of (rs, m'') \<Rightarrow> ((r, b) # rs, m'')))"

primrec eeprom_spec :: "eeprom_op list \<Rightarrow> (u8 \<Rightarrow> u8) \<Rightarrow> (int \<times> u8 list) list" where
  "eeprom_spec [] f = []"
| "eeprom_spec (op # ops) f =
     (case op of Store a d \<Rightarrow> (2, []) # eeprom_spec ops (f(a := d)) | Fetch a \<Rightarrow> (1, [f a]) # eeprom_spec ops f)"

text \<open>The error paths.\<close>

lemma wrong_size:
  "count \<noteq> 1 \<Longrightarrow> at24cxx_read xfer caddr junk ubuf count m = (- EINVAL, ubuf, m)"
  "count \<noteq> 2 \<Longrightarrow> at24cxx_write xfer caddr ubuf count m = (- EINVAL, m)"
  by (simp_all add: at24cxx_read_def at24cxx_write_def)

lemma bus_error:
  "\<forall>ms. fst (xfer ms m) < 0 \<Longrightarrow> fst (at24cxx_read xfer caddr junk ubuf 1 m) = - EIO
     \<and> fst (snd (at24cxx_read xfer caddr junk ubuf 1 m)) = ubuf"
  "\<forall>ms. fst (xfer ms m) < 0 \<Longrightarrow> fst (at24cxx_write xfer caddr ubuf 2 m) = - EIO"
proof -
  assume e: "\<forall>ms. fst (xfer ms m) < 0"
  have n: "fst (xfer ms m) \<noteq> 2" "fst (xfer ms m) \<noteq> 1" for ms
    using e [THEN spec, of ms] by auto
  then show "fst (at24cxx_read xfer caddr junk ubuf 1 m) = - EIO
     \<and> fst (snd (at24cxx_read xfer caddr junk ubuf 1 m)) = ubuf"
    "fst (at24cxx_write xfer caddr ubuf 2 m) = - EIO"
    by (simp_all add: at24cxx_read_def at24cxx_write_def case_prod_beta)
qed

subsection \<open>Properties\<close>

text \<open>
  Over a bus that works the driver is the memory of the chip: in every sequence of writes and
  reads each write returns 2, each read returns 1 and delivers the byte that the last write to its
  address stored, or the one the chip held at first.
\<close>

theorem eeprom_is_memory:
  assumes "chip_ok xfer caddr mem"
  shows "fst (eeprom_run xfer caddr junk ops m) = eeprom_spec ops (mem m)"
proof (induction ops arbitrary: m)
  case (Cons op ops)
  show ?case
  proof (cases op)
    case (Store a d)
    obtain m' where m': "xfer [\<lparr>addr = caddr, is_rd = False, buf = [a, d]\<rparr>] m
        = (1, [\<lparr>addr = caddr, is_rd = False, buf = [a, d]\<rparr>], m')" "mem m' = (mem m)(a := d)"
      using assms unfolding chip_ok_def by blast
    have "fst (eeprom_run xfer caddr junk ops m') = eeprom_spec ops ((mem m)(a := d))"
      using Cons [of m'] unfolding m'(2) .
    then show ?thesis using m'(1) Store
      by (simp add: at24cxx_write_def case_prod_beta)
  next
    case (Fetch a)
    obtain m' where "xfer [\<lparr>addr = caddr, is_rd = False, buf = [a]\<rparr>, \<lparr>addr = caddr, is_rd = True, buf = [junk]\<rparr>] m
        = (2, [\<lparr>addr = caddr, is_rd = False, buf = [a]\<rparr>, \<lparr>addr = caddr, is_rd = True, buf = [mem m a]\<rparr>], m')"
      "mem m' = mem m"
      using assms unfolding chip_ok_def by blast
    then show ?thesis using Cons [of m'] Fetch
      by (simp add: at24cxx_read_def case_prod_beta)
  qed
qed simp

theorem eeprom_is_memory_witness:
  "fst (eeprom_run plain_chip 0x50 0 [Store 3 9, Fetch 3, Fetch 4] (\<lambda>_. 0xff)) = [(2, []), (1, [9]), (1, [0xff])]"
  using eeprom_is_memory [OF chip_ok_plain, where caddr = "0x50" and junk = 0
      and ops = "[Store 3 9, Fetch 3, Fetch 4]" and m = "\<lambda>_. 0xff"]
  by simp

text \<open>
  The client structure is never given back: after chips were found and detached any number of
  times, everything is released but one client for each.
\<close>

theorem eeprom_client_leak:
  "held (concat (map (\<lambda>major. snd (at24cxx_detect major) @ snd (at24cxx_detach major)) majors))
     = replicate (length majors) (Memory ''at24cxx_client'')"
proof -
  have "held_from (replicate n (Memory ''at24cxx_client''))
      (concat (map (\<lambda>major. snd (at24cxx_detect major) @ snd (at24cxx_detach major)) majors))
     = replicate (n + length majors) (Memory ''at24cxx_client'')" for n
  proof (induction majors arbitrary: n)
    case (Cons major majors)
    have "held_from (replicate n (Memory ''at24cxx_client'')) (snd (at24cxx_detect major) @ snd (at24cxx_detach major))
        = replicate (Suc n) (Memory ''at24cxx_client'')"
      by (simp add: at24cxx_detect_def at24cxx_detach_def remove1_append replicate_append_same)
    then show ?case using Cons [of "Suc n"] by (simp del: replicate.simps)
  qed simp
  from this [of 0] show ?thesis by simp
qed

end
