(* ===== verification/Mtd.thy ===== *)
theory Mtd
  imports Kernel
begin

text \<open>
  The flash drivers: nand/s3c_nand_driver.c and nor/s3c_nor_driver.c of the 2.6.22 tree and
  nand/s3c_nand.c and nor/s3c_nor.c of the 3.4.2 tree (suffix \<^verbatim>\<open>_34\<close>). The NAND driver lends the
  kernel three functions to run the chip; the NOR driver only describes where the chip is.
\<close>

subsection \<open>The NAND controller\<close>

text \<open>
  \<^verbatim>\<open>cycles\<close> records the writes to \<^verbatim>\<open>NFCMD\<close> and \<^verbatim>\<open>NFADDR\<close>, each of which is one cycle on the bus to the
  chip. \<^verbatim>\<open>nfstat\<close> is read when the status is asked for, so it is an argument.
\<close>

datatype cycle = Cmd_cycle u32 | Addr_cycle u32

record nand = kstate +
  nfconf :: u32
  nfcont :: u32
  cycles :: "cycle list"

definition NAND_CLE :: u32 where "NAND_CLE = 0x02"

definition s3c2440_select_chip :: "int \<Rightarrow> nand \<Rightarrow> nand" where
  "s3c2440_select_chip chipnr s =
     (if chipnr = - 1 then s\<lparr>nfcont := set_mask (push_bit 1 1) (nfcont s)\<rparr>
      else s\<lparr>nfcont := clear_mask (push_bit 1 1) (nfcont s)\<rparr>)"

definition s3c2440_cmd_ctrl :: "int \<Rightarrow> u32 \<Rightarrow> nand \<Rightarrow> nand" where
  "s3c2440_cmd_ctrl dat ctrl s =
     (if ctrl AND NAND_CLE \<noteq> 0 then s\<lparr>cycles := cycles s @ [Cmd_cycle (of_int dat)]\<rparr>
      else s\<lparr>cycles := cycles s @ [Addr_cycle (of_int dat)]\<rparr>)"

definition s3c2440_dev_ready :: "u32 \<Rightarrow> int" where
  "s3c2440_dev_ready nfstat = uint (nfstat AND push_bit 0 1)"

definition s3c_nand_parts :: "(string \<times> nat option) list" where
  "s3c_nand_parts = [(''bootloader'', Some 0x00040000), (''params'', Some 0x00020000),
     (''kernel'', Some 0x00200000), (''root'', None)]"

definition s3c_nand_init :: "int \<times> nand" where
  "s3c_nand_init =
     (0, \<lparr>kt = [Kmalloc ''s3c_nand'' 0, Ioremap 0x4E000000 64, Other ''clk_enable nand'' 0,
                Kmalloc ''s3c_mtd'' 0, Other ''nand_scan'' 1, Add_mtd_partitions 4],
          nfconf = push_bit 12 0 OR push_bit 8 1 OR push_bit 4 0,
          nfcont = push_bit 1 1 OR push_bit 0 1, cycles = []\<rparr>)"

definition s3c_nand_exit :: "kcall list" where
  "s3c_nand_exit = [Del_mtd_partitions, Kfree ''s3c_mtd'', Iounmap 0x4E000000, Kfree ''s3c_nand'']"

interpretation nand_life: lifecycle "\<lambda>_. (fst s3c_nand_init, kt (snd s3c_nand_init))" "\<lambda>_. s3c_nand_exit"
  by unfold_locales (simp_all add: s3c_nand_init_def s3c_nand_exit_def)

text \<open>The copy of the 3.4.2 tree.\<close>

definition s3c2440_select_chip_34 :: "int \<Rightarrow> nand \<Rightarrow> nand" where
  "s3c2440_select_chip_34 chipnr s =
     (if chipnr = - 1 then s\<lparr>nfcont := set_mask (push_bit 1 1) (nfcont s)\<rparr>
      else s\<lparr>nfcont := clear_mask (push_bit 1 1) (nfcont s)\<rparr>)"

definition s3c2440_cmd_ctrl_34 :: "int \<Rightarrow> u32 \<Rightarrow> nand \<Rightarrow> nand" where
  "s3c2440_cmd_ctrl_34 dat ctrl s =
     (if ctrl AND NAND_CLE \<noteq> 0 then s\<lparr>cycles := cycles s @ [Cmd_cycle (of_int dat)]\<rparr>
      else s\<lparr>cycles := cycles s @ [Addr_cycle (of_int dat)]\<rparr>)"

definition s3c2440_dev_ready_34 :: "u32 \<Rightarrow> int" where
  "s3c2440_dev_ready_34 nfstat = uint (nfstat AND push_bit 0 1)"

definition s3c_nand_init_34 :: "int \<times> nand" where
  "s3c_nand_init_34 =
     (0, \<lparr>kt = [Kmalloc ''s3c_nand'' 0, Ioremap 0x4E000000 64, Other ''clk_enable nand'' 0,
                Kmalloc ''s3c_mtd'' 0, Other ''nand_scan'' 1, Add_mtd_partitions 4],
          nfconf = push_bit 12 0 OR push_bit 8 1 OR push_bit 4 0,
          nfcont = push_bit 1 1 OR push_bit 0 1, cycles = []\<rparr>)"

definition s3c_nand_exit_34 :: "kcall list" where
  "s3c_nand_exit_34 = [Del_mtd_partitions, Kfree ''s3c_mtd'', Iounmap 0x4E000000, Kfree ''s3c_nand'']"

interpretation nand_34_life: lifecycle "\<lambda>_. (fst s3c_nand_init_34, kt (snd s3c_nand_init_34))" "\<lambda>_. s3c_nand_exit_34"
  by unfold_locales (simp_all add: s3c_nand_init_34_def s3c_nand_exit_34_def)

subsection \<open>The NOR flash\<close>

text \<open>
  The arguments say which of the two probes finds a chip. The second is only made when the first
  fails.
\<close>

definition s3c_nor_parts :: "(string \<times> nat option) list" where
  "s3c_nor_parts = [(''bootloader_nor'', Some 0x00040000), (''root_nor'', None)]"

definition s3c_nor_init :: "bool \<times> bool \<Rightarrow> int \<times> kcall list" where
  "s3c_nor_init e = (case e of (cfi, jedec) \<Rightarrow>
     (let start = [Kmalloc ''s3c_nor_map'' 0, Ioremap 0 0x1000000, Other ''simple_map_init'' 0,
                   Other ''do_map_probe cfi_probe'' 0];
          start = (if cfi then start else start @ [Other ''do_map_probe jedec_probe'' 0])
      in if \<not> cfi \<and> \<not> jedec then (- EIO, start @ [Iounmap 0, Kfree ''s3c_nor_map''])
         else (0, start @ [Add_mtd_partitions 2])))"

definition s3c_nor_exit :: "kcall list" where
  "s3c_nor_exit = [Del_mtd_partitions, Iounmap 0, Kfree ''s3c_nor_map'']"

interpretation nor_life: lifecycle s3c_nor_init "\<lambda>_. s3c_nor_exit"
  by unfold_locales (auto simp: s3c_nor_init_def s3c_nor_exit_def Let_def split: if_splits)

definition s3c_nor_init_34 :: "bool \<times> bool \<Rightarrow> int \<times> kcall list" where
  "s3c_nor_init_34 e = (case e of (cfi, jedec) \<Rightarrow>
     (let start = [Kmalloc ''s3c_nor_map'' 0, Ioremap 0 0x1000000, Other ''simple_map_init'' 0,
                   Other ''do_map_probe cfi_probe'' 0];
          start = (if cfi then start else start @ [Other ''do_map_probe jedec_probe'' 0])
      in if \<not> cfi \<and> \<not> jedec then (- EIO, start @ [Iounmap 0, Kfree ''s3c_nor_map''])
         else (0, start @ [Add_mtd_partitions 2])))"

definition s3c_nor_exit_34 :: "kcall list" where
  "s3c_nor_exit_34 = [Del_mtd_partitions, Iounmap 0, Kfree ''s3c_nor_map'']"

interpretation nor_34_life: lifecycle s3c_nor_init_34 "\<lambda>_. s3c_nor_exit_34"
  by unfold_locales (auto simp: s3c_nor_init_34_def s3c_nor_exit_34_def Let_def split: if_splits)

subsection \<open>How the kernel uses the NAND functions\<close>

text \<open>
  The NAND layer calls the functions like this: it selects the chip, sends command and address bytes
  with \<^verbatim>\<open>cmd_ctrl\<close>, and ends the command with a call that has \<^verbatim>\<open>NAND_CMD_NONE\<close>, -1, as its data and
  neither \<^verbatim>\<open>CLE\<close> nor \<^verbatim>\<open>ALE\<close>; a driver should send nothing for it.
\<close>

datatype nand_op = Select int | Ctrl int u32

fun nand_step :: "nand_op \<Rightarrow> nand \<Rightarrow> nand" where
  "nand_step (Select c) s = s3c2440_select_chip c s"
| "nand_step (Ctrl d c) s = s3c2440_cmd_ctrl d c s"

fun nand_step_34 :: "nand_op \<Rightarrow> nand \<Rightarrow> nand" where
  "nand_step_34 (Select c) s = s3c2440_select_chip_34 c s"
| "nand_step_34 (Ctrl d c) s = s3c2440_cmd_ctrl_34 d c s"

definition NAND_CMD_NONE :: int where "NAND_CMD_NONE = - 1"

fun selected :: "bool \<Rightarrow> nand_op list \<Rightarrow> bool" where
  "selected b [] = b"
| "selected b (Select c # ops) = selected (c \<noteq> - 1) ops"
| "selected b (Ctrl d c # ops) = selected b ops"

definition sent :: "nand_op list \<Rightarrow> cycle list" where
  "sent ops = concat (map (\<lambda>op. case op of Select c \<Rightarrow> []
     | Ctrl d c \<Rightarrow> if bit c 1 then [Cmd_cycle (of_int d)] else [Addr_cycle (of_int d)]) ops)"

lemma cle_bit: "(ctrl AND NAND_CLE \<noteq> 0) = bit ctrl 1"
  using and_one_bit [of ctrl 1] by (simp add: NAND_CLE_def)

lemma bit_two: "bit (2 :: u32) n \<longleftrightarrow> n = 1"
proof -
  have two: "(2 :: u32) = push_bit 1 1" by simp
  show ?thesis unfolding two bit_push_bit_1 by auto
qed

lemma nand_steps:
  "nfconf (fold nand_step ops s) = nfconf s \<and> cycles (fold nand_step ops s) = cycles s @ sent ops
   \<and> (\<forall>n. bit (nfcont (fold nand_step ops s)) n \<longleftrightarrow>
        (if n = 1 then \<not> selected (\<not> bit (nfcont s) 1) ops else bit (nfcont s) n))"
proof (induction ops arbitrary: s)
  case (Cons op ops)
  show ?case
    using Cons [of "nand_step op s"]
    by (cases op)
       (auto simp: s3c2440_select_chip_def s3c2440_cmd_ctrl_def cle_bit sent_def bit_facts bit_two
         simp del: push_bit_of_1 bit_numeral_word_iff)
qed (simp add: sent_def)

subsection \<open>Properties\<close>

text \<open>
  From the load on, for every sequence of calls that the NAND layer makes, the controller stays
  enabled with its timing unchanged, the chip is selected exactly after a selection of a chip
  number, and every call of \<^verbatim>\<open>cmd_ctrl\<close> is one bus cycle, a command when \<^verbatim>\<open>CLE\<close> is set and an address
  otherwise. So the end of a command, \<^verbatim>\<open>NAND_CMD_NONE\<close>, is sent as an address cycle of all ones.
  Both versions of the driver do the same.
\<close>

theorem nand_cycles:
  "nfconf (fold nand_step ops (snd s3c_nand_init)) = 0x100
   \<and> bit (nfcont (fold nand_step ops (snd s3c_nand_init))) 0
   \<and> (bit (nfcont (fold nand_step ops (snd s3c_nand_init))) 1 \<longleftrightarrow> \<not> selected False ops)
   \<and> cycles (fold nand_step ops (snd s3c_nand_init)) = sent ops
   \<and> sent (ops @ [Ctrl NAND_CMD_NONE 0x81]) = sent ops @ [Addr_cycle 0xffffffff]
   \<and> fold nand_step_34 ops (snd s3c_nand_init_34) = fold nand_step ops (snd s3c_nand_init)"
proof -
  have e: "nand_step_34 = nand_step"
  proof (intro ext)
    fix op s show "nand_step_34 op s = nand_step op s"
      by (cases op) (simp_all add: s3c2440_select_chip_34_def s3c2440_select_chip_def
          s3c2440_cmd_ctrl_34_def s3c2440_cmd_ctrl_def)
  qed
  show ?thesis
    unfolding e
    using nand_steps [of ops "snd s3c_nand_init"]
    by (simp add: s3c_nand_init_def s3c_nand_init_34_def bit_numeral_rec)
       (simp add: sent_def NAND_CMD_NONE_def bit_numeral_rec)
qed

end
