(* ===== verification/Dm9000.thy ===== *)
theory Dm9000
  imports Kernel
begin

text \<open>
  The DM9000 network driver, dm9000_first/dm9dev9000c.c of the 3.4.2 tree, compiled without its
  optional macros. This theory has the state, the access to the chip, and the functions that set it
  up; transmission, reception and interrupts follow in Dm9000Net, probing and loading in Dm9000Load.
  The handlers of dm9000c/dm9000c_driver.c in the 2.6.22.6 tree have the same text and are modelled with
  them; \<^verbatim>\<open>linux\<close> says whose multicast function is called.
  The chip is reached through two ports. What they do is up to the hardware, so the accesses are a
  parameter that acts on a state of the chip of any type. A busy-wait loop that never ends gives None.
\<close>

subsection \<open>State\<close>

record 'm port =
  outb :: "u8 \<Rightarrow> u32 \<Rightarrow> 'm \<Rightarrow> 'm"
  outw :: "u16 \<Rightarrow> u32 \<Rightarrow> 'm \<Rightarrow> 'm"
  outl :: "u32 \<Rightarrow> u32 \<Rightarrow> 'm \<Rightarrow> 'm"
  inb :: "u32 \<Rightarrow> 'm \<Rightarrow> u8 \<times> 'm"
  inw :: "u32 \<Rightarrow> 'm \<Rightarrow> u16 \<times> 'm"
  inl :: "u32 \<Rightarrow> 'm \<Rightarrow> u32 \<times> 'm"

text \<open>
  \<^verbatim>\<open>struct board_info\<close>, with the fields of \<^verbatim>\<open>struct net_device\<close> that the driver uses: the address,
  the two flags, the checksum feature and the multicast list.
\<close>

record 'm dmfe = kstate +
  chip :: 'm
  io_addr :: u32
  io_data :: u32
  op_mode :: u8
  io_mode :: u8
  Speed :: u8
  chip_revision :: u8
  rx_csum :: int
  reset_counter :: u32
  reset_tx_timeout :: u32
  tx_pkt_cnt :: int
  cont_rx_pkt_cnt :: int
  srom :: "u16 list"
  tx_packets :: u32
  tx_bytes :: u32
  tx_errors :: u32
  rx_packets :: u32
  rx_bytes :: u32
  rx_fifo_errors :: u32
  rx_crc_errors :: u32
  rx_length_errors :: u32
  media_mode :: u8
  base_addr :: u32
  dev_addr :: "u8 list"
  promisc :: bool
  allmulti :: bool
  hw_csum :: bool
  mc_list :: "u8 list list"
  rx_queue :: "u8 list list"    \<comment> \<open>the packets handed to \<^verbatim>\<open>netif_rx\<close>, oldest first\<close>

subsection \<open>Registers\<close>

definition DM9KS_NCR :: u8 where "DM9KS_NCR = 0x00"
definition DM9KS_NSR :: u8 where "DM9KS_NSR = 0x01"
definition DM9KS_TCR :: u8 where "DM9KS_TCR = 0x02"
definition DM9KS_RXCR :: u8 where "DM9KS_RXCR = 0x05"
definition DM9KS_BPTR :: u8 where "DM9KS_BPTR = 0x08"
definition DM9KS_EPCR :: u8 where "DM9KS_EPCR = 0x0b"
definition DM9KS_EPAR :: u8 where "DM9KS_EPAR = 0x0c"
definition DM9KS_EPDRL :: u8 where "DM9KS_EPDRL = 0x0d"
definition DM9KS_EPDRH :: u8 where "DM9KS_EPDRH = 0x0e"
definition DM9KS_GPR :: u8 where "DM9KS_GPR = 0x1f"
definition DM9KS_CHIPR :: u8 where "DM9KS_CHIPR = 0x2c"
definition DM9KS_TCR2 :: u8 where "DM9KS_TCR2 = 0x2d"
definition DM9KS_SMCR :: u8 where "DM9KS_SMCR = 0x2f"
definition DM9KS_TCCR :: u8 where "DM9KS_TCCR = 0x31"
definition DM9KS_RCSR :: u8 where "DM9KS_RCSR = 0x32"
definition DM9KS_BUSCR :: u8 where "DM9KS_BUSCR = 0x38"
definition DM9KS_MRCMDX :: u8 where "DM9KS_MRCMDX = 0xf0"
definition DM9KS_MRCMD :: u8 where "DM9KS_MRCMD = 0xf2"
definition DM9KS_MDRAL :: u8 where "DM9KS_MDRAL = 0xf4"
definition DM9KS_MDRAH :: u8 where "DM9KS_MDRAH = 0xf5"
definition DM9KS_MWCMD :: u8 where "DM9KS_MWCMD = 0xf8"
definition DM9KS_MDWAL :: u8 where "DM9KS_MDWAL = 0xfa"
definition DM9KS_MDWAH :: u8 where "DM9KS_MDWAH = 0xfb"
definition DM9KS_TXPLL :: u8 where "DM9KS_TXPLL = 0xfc"
definition DM9KS_TXPLH :: u8 where "DM9KS_TXPLH = 0xfd"
definition DM9KS_ISR :: u8 where "DM9KS_ISR = 0xfe"
definition DM9KS_IMR :: u8 where "DM9KS_IMR = 0xff"
definition DM9KS_REG05 :: u8 where "DM9KS_REG05 = 0x30"
definition DM9KS_REGFF :: u8 where "DM9KS_REGFF = 0xA3"
definition DM9KS_DISINTR :: u8 where "DM9KS_DISINTR = 0x80"
definition DM9KS_PHY :: u8 where "DM9KS_PHY = 0x40"
definition DM9KS_AUTO :: u8 where "DM9KS_AUTO = 8"

lemmas DM9KS_regs = DM9KS_NCR_def DM9KS_NSR_def DM9KS_TCR_def DM9KS_RXCR_def DM9KS_BPTR_def
  DM9KS_EPCR_def DM9KS_EPAR_def DM9KS_EPDRL_def DM9KS_EPDRH_def DM9KS_GPR_def DM9KS_CHIPR_def
  DM9KS_TCR2_def DM9KS_SMCR_def DM9KS_TCCR_def DM9KS_RCSR_def DM9KS_BUSCR_def DM9KS_MRCMDX_def
  DM9KS_MRCMD_def DM9KS_MDRAL_def DM9KS_MDRAH_def DM9KS_MWCMD_def DM9KS_MDWAL_def DM9KS_MDWAH_def
  DM9KS_TXPLL_def DM9KS_TXPLH_def DM9KS_ISR_def DM9KS_IMR_def DM9KS_REG05_def DM9KS_REGFF_def
  DM9KS_DISINTR_def DM9KS_PHY_def DM9KS_AUTO_def

subsection \<open>Access\<close>

definition out8 :: "'m port \<Rightarrow> u8 \<Rightarrow> u32 \<Rightarrow> 'm dmfe \<Rightarrow> 'm dmfe" where
  "out8 p v a s = s\<lparr>chip := outb p v a (chip s)\<rparr>"

definition in8 :: "'m port \<Rightarrow> u32 \<Rightarrow> 'm dmfe \<Rightarrow> u8 \<times> 'm dmfe" where
  "in8 p a s = (case inb p a (chip s) of (v, m) \<Rightarrow> (v, s\<lparr>chip := m\<rparr>))"

definition ior :: "'m port \<Rightarrow> u8 \<Rightarrow> 'm dmfe \<Rightarrow> u8 \<times> 'm dmfe" where
  "ior p reg s = in8 p (io_data s) (out8 p reg (io_addr s) s)"

definition iow :: "'m port \<Rightarrow> u8 \<Rightarrow> u8 \<Rightarrow> 'm dmfe \<Rightarrow> 'm dmfe" where
  "iow p reg v s = (let s = out8 p reg (io_addr s) s in out8 p v (io_data s) s)"

text \<open>\<^verbatim>\<open>while(ior(db, reg) & 0x1);\<close>\<close>

partial_function (option) wait_clear :: "'m port \<Rightarrow> u8 \<Rightarrow> 'm dmfe \<Rightarrow> 'm dmfe option" where
  "wait_clear p reg s =
     (let vs = ior p reg s in if fst vs AND 0x1 \<noteq> 0 then wait_clear p reg (snd vs) else Some (snd vs))"

text \<open>
  The order in which C evaluates the two reads of a sum is not specified; here the left one is
  first. They read two registers that do not depend on each other.
\<close>

definition phy_read :: "'m port \<Rightarrow> u8 \<Rightarrow> 'm dmfe \<Rightarrow> (u16 \<times> 'm dmfe) option" where
  "phy_read p reg s =
     (let s = iow p DM9KS_EPAR (DM9KS_PHY OR reg) s;
          s = iow p DM9KS_EPCR 0xc s
      in map_option (\<lambda>s. let s = iow p DM9KS_EPCR 0x0 s;
                             (h, s) = ior p DM9KS_EPDRH s;
                             (l, s) = ior p DM9KS_EPDRL s
                         in (push_bit 8 (ucast h) OR ucast l, s)) (wait_clear p DM9KS_EPCR s))"

definition phy_write :: "'m port \<Rightarrow> u8 \<Rightarrow> u16 \<Rightarrow> 'm dmfe \<Rightarrow> 'm dmfe option" where
  "phy_write p reg val s =
     (let s = iow p DM9KS_EPAR (DM9KS_PHY OR reg) s;
          s = iow p DM9KS_EPDRL (ucast (val AND 0xff)) s;
          s = iow p DM9KS_EPDRH (ucast (drop_bit 8 val AND 0xff)) s;
          s = iow p DM9KS_EPCR 0xa s
      in map_option (iow p DM9KS_EPCR 0x0) (wait_clear p DM9KS_EPCR s))"

definition read_srom_word :: "'m port \<Rightarrow> u8 \<Rightarrow> 'm dmfe \<Rightarrow> (u16 \<times> 'm dmfe) option" where
  "read_srom_word p off s =
     (let s = iow p DM9KS_EPAR off s;
          s = iow p DM9KS_EPCR 0x4 s
      in map_option (\<lambda>s. let s = iow p DM9KS_EPCR 0x0 s;
                             (l, s) = ior p DM9KS_EPDRL s;
                             (h, s) = ior p DM9KS_EPDRH s
                         in (ucast l + push_bit 8 (ucast h), s)) (wait_clear p DM9KS_EPCR s))"

definition mdio_read :: "'m port \<Rightarrow> nat \<Rightarrow> u8 \<Rightarrow> 'm dmfe \<Rightarrow> (u16 \<times> 'm dmfe) option" where
  "mdio_read p phy_id location s = phy_read p location s"

definition mdio_write :: "'m port \<Rightarrow> nat \<Rightarrow> u8 \<Rightarrow> u16 \<Rightarrow> 'm dmfe \<Rightarrow> 'm dmfe option" where
  "mdio_write p phy_id location val s = phy_write p location val s"

text \<open>A sequence of writes, in the order of the list.\<close>

definition iows :: "'m port \<Rightarrow> (u8 \<times> u8) list \<Rightarrow> 'm dmfe \<Rightarrow> 'm dmfe" where
  "iows p ws s = fold (\<lambda>(r, v). iow p r v) ws s"

fun phy_writes :: "'m port \<Rightarrow> (u8 \<times> u16) list \<Rightarrow> 'm dmfe \<Rightarrow> 'm dmfe option" where
  "phy_writes p [] s = Some s"
| "phy_writes p ((r, v) # ws) s = Option.bind (phy_write p r v s) (phy_writes p ws)"

subsection \<open>Setting up the chip\<close>

definition harmonic_fix :: "(u8 \<times> u16) list" where
  "harmonic_fix = map (Pair 27)
     [0x0000, 0xaa00, 0x0017, 0xaa17, 0x002f, 0xaa2f, 0x0037, 0xaa37, 0x0040, 0xaa40, 0x0050, 0xaa50,
      0x006b, 0xaa6b, 0x007d, 0xaa7d, 0x008d, 0xaa8d, 0x009c, 0xaa9c, 0x00a3, 0xaaa3, 0x00b1, 0xaab1,
      0x00c0, 0xaac0, 0x00d2, 0xaad2, 0x00e0, 0xaae0, 0x0000]"

definition phy_regs :: "u8 \<Rightarrow> u16 \<times> u16" where
  "phy_regs mode =
     (if mode AND DM9KS_AUTO \<noteq> 0 then (0x1000, 0x01e1)
      else if mode = 0 then (0x1000, 0x21)
      else if mode = 4 then (0x1100, 0x41)
      else if mode = 1 then (0x3000, 0x81)
      else if mode = 5 then (0x3100, 0x101)
      else (0x1000, 0x01e1))"

definition set_PHY_mode :: "'m port \<Rightarrow> 'm dmfe \<Rightarrow> 'm dmfe option" where
  "set_PHY_mode p s =
     (case phy_regs (op_mode s) of (phy_reg0, phy_reg4) \<Rightarrow>
        Option.bind (phy_writes p [(4, phy_reg4), (0, phy_reg0 OR 0x200)] s) (\<lambda>s.
          if chip_revision s = 0x1A
          then Option.bind (phy_read p 20 s) (\<lambda>(v, s).
                 phy_writes p ((20, v OR push_bit 11 1 OR push_bit 10 1) # harmonic_fix) s)
          else Some s))"

text \<open>
  \<^verbatim>\<open>crc\<close> is \<^verbatim>\<open>ether_crc_le\<close> of the kernel on the six bytes of an address. The four words of the hash
  table start as zeros but for the broadcast bit.
\<close>

definition hash_bits :: "(u8 list \<Rightarrow> u32) \<Rightarrow> u8 list list \<Rightarrow> u16 list" where
  "hash_bits crc ms =
     fold (\<lambda>ha t. let hash_val = unat (crc ha AND 0x3f)
                  in t[hash_val div 16 := t ! (hash_val div 16) OR push_bit (hash_val mod 16) 1])
       ms [0, 0, 0, 0x8000]"

definition dm9000_hash_table :: "(u8 list \<Rightarrow> u32) \<Rightarrow> 'm port \<Rightarrow> 'm dmfe \<Rightarrow> 'm dmfe" where
  "dm9000_hash_table crc p s =
     (let t = hash_bits crc (mc_list s);
          rcr = 0x20 OR 0x10 OR 0x01;
          rcr = (if promisc s then rcr OR 0x02 else rcr);
          rcr = (if allmulti s then rcr OR 0x08 else rcr);
          s = emit [Other ''spin_lock_irqsave'' 0] s
      in emit [Other ''spin_unlock_irqrestore'' 0] (iows p (zip [0x10, 0x11, 0x12, 0x13, 0x14, 0x15] (dev_addr s)
                 @ concat (map (\<lambda>i. [(of_nat (0x16 + 2 * i), ucast (t ! i)),
                                     (of_nat (0x17 + 2 * i), ucast (drop_bit 8 (t ! i)))]) [0, 1, 2, 3])
                 @ [(DM9KS_RXCR, rcr)]) s))"

definition cal_CRC :: "(u8 list \<Rightarrow> u32) \<Rightarrow> u8 list \<Rightarrow> bool \<Rightarrow> u32" where
  "cal_CRC crc d flag = (if flag then NOT (crc d) else crc d)"

text \<open>The function of the 2.6.22.6 tree: it changes bits of the receive register and takes no lock.\<close>

definition change_rxcr :: "'m port \<Rightarrow> (u8 \<Rightarrow> u8) \<Rightarrow> 'm dmfe \<Rightarrow> 'm dmfe" where
  "change_rxcr p f s = (case ior p DM9KS_RXCR s of (v, s) \<Rightarrow> iow p DM9KS_RXCR (f v) s)"

definition hash_bits_26 :: "(u8 list \<Rightarrow> u32) \<Rightarrow> u8 list list \<Rightarrow> u16 list" where
  "hash_bits_26 crc ms =
     fold (\<lambda>m t. let hash_val = unat (cal_CRC crc m False AND 0x3f)
                 in t[hash_val div 16 := t ! (hash_val div 16) OR push_bit (hash_val mod 16) 1])
       ms [0, 0, 0, 0x8000]"

definition dm9000_hash_table_26 :: "(u8 list \<Rightarrow> u32) \<Rightarrow> 'm port \<Rightarrow> 'm dmfe \<Rightarrow> 'm dmfe" where
  "dm9000_hash_table_26 crc p s =
     (if promisc s then change_rxcr p (\<lambda>v. v OR push_bit 1 1) s
      else let s = change_rxcr p (\<lambda>v. v AND NOT (push_bit 1 1)) s;
               s = (if allmulti s then change_rxcr p (\<lambda>v. v OR push_bit 3 1) s
                    else change_rxcr p (\<lambda>v. v AND NOT (push_bit 3 1)) s);
               s = iows p (zip [0x10, 0x11, 0x12, 0x13, 0x14, 0x15] (dev_addr s)) s;
               t = hash_bits_26 crc (mc_list s)
           in iows p (concat (map (\<lambda>i. [(of_nat (0x16 + 2 * i), ucast (t ! i AND 0xff)),
                                       (of_nat (0x17 + 2 * i), ucast (drop_bit 8 (t ! i) AND 0xff))]) [0, 1, 2, 3])) s)"

text \<open>
  Both trees have the text of the functions that follow; only the multicast function they call differs.
\<close>

datatype linux = Linux_2_6 | Linux_3_4

definition set_rx_mode :: "linux \<Rightarrow> (u8 list \<Rightarrow> u32) \<Rightarrow> 'm port \<Rightarrow> 'm dmfe \<Rightarrow> 'm dmfe" where
  "set_rx_mode lx crc p s =
     (case lx of Linux_2_6 \<Rightarrow> dm9000_hash_table_26 crc p s | Linux_3_4 \<Rightarrow> dm9000_hash_table crc p s)"

definition dmfe_init_dm9000 :: "linux \<Rightarrow> (u8 list \<Rightarrow> u32) \<Rightarrow> 'm port \<Rightarrow> 'm dmfe \<Rightarrow> 'm dmfe option" where
  "dmfe_init_dm9000 lx crc p s =
     (let s = iow p DM9KS_GPR 0 (emit [Other ''spin_lock_init'' 0] s);
          s = iow p DM9KS_NCR 3 (emit [Delay_us 20000] s);
          s = iow p DM9KS_NCR 3 (emit [Delay_us 20] s);
          (isr, s) = ior p DM9KS_ISR (emit [Delay_us 20] s);
          s = s\<lparr>io_mode := drop_bit 6 isr, op_mode := media_mode s\<rparr>
      in Option.bind (set_PHY_mode p s) (\<lambda>s.
           let s = iows p [(DM9KS_NCR, 0), (DM9KS_TCR, 0), (DM9KS_BPTR, 0x3f), (DM9KS_SMCR, 0),
                     (DM9KS_NSR, 0x2c), (DM9KS_ISR, 0x0f), (DM9KS_TCR2, 0x80)] s;
               s = (if chip_revision s = 0x1A then iow p DM9KS_BUSCR 0x01 s else s);
               s = (if hw_csum s then iow p DM9KS_TCCR 0x07 s else s);
               s = (if rx_csum s \<noteq> 0 then iow p DM9KS_RCSR 0x02 s else s);
               s = set_rx_mode lx crc p s;
               s = iow p DM9KS_IMR DM9KS_REGFF s;
               s = iow p DM9KS_RXCR (DM9KS_REG05 OR 1) s
           in Some (emit [Other ''netif_carrier_on'' 0] (s\<lparr>tx_pkt_cnt := 0\<rparr>))))"


subsection \<open>The PHY registers behind the two ports\<close>

text \<open>
  What the data sheet of the chip documents of its EEPROM and PHY control registers: a write to the
  address port selects a register. Writing 0xa to EPCR stores EPDRH and EPDRL in the PHY register that
  EPAR names, writing 0xc fetches it, and bit 0 of EPCR reads as 1 for as long as this takes.
\<close>

record phychip =
  sel :: u8
  epar :: u8
  edl :: u8
  edh :: u8
  busy :: nat
  phys :: "u8 \<Rightarrow> u16"

definition chip_write :: "nat \<Rightarrow> u8 \<Rightarrow> phychip \<Rightarrow> phychip" where
  "chip_write n v c =
     (if sel c = DM9KS_EPAR then c\<lparr>epar := v\<rparr>
      else if sel c = DM9KS_EPDRL then c\<lparr>edl := v\<rparr>
      else if sel c = DM9KS_EPDRH then c\<lparr>edh := v\<rparr>
      else if sel c = DM9KS_EPCR \<and> v = 0xa
      then c\<lparr>phys := (phys c)(epar c := push_bit 8 (ucast (edh c)) OR ucast (edl c)), busy := n\<rparr>
      else if sel c = DM9KS_EPCR \<and> v = 0xc
      then c\<lparr>edl := ucast (phys c (epar c)), edh := ucast (drop_bit 8 (phys c (epar c))), busy := n\<rparr>
      else c)"

definition chip_reads :: "u8 \<Rightarrow> phychip \<Rightarrow> bool" where
  "chip_reads v c \<longleftrightarrow>
     (sel c = DM9KS_EPCR \<longrightarrow> (v AND 0x1 \<noteq> 0 \<longleftrightarrow> busy c \<noteq> 0))
     \<and> (sel c = DM9KS_EPDRL \<longrightarrow> v = edl c) \<and> (sel c = DM9KS_EPDRH \<longrightarrow> v = edh c)"

definition phy_chip_ok :: "'m port \<Rightarrow> u32 \<Rightarrow> u32 \<Rightarrow> ('m \<Rightarrow> phychip) \<Rightarrow> bool" where
  "phy_chip_ok p a d view \<longleftrightarrow>
     a \<noteq> d
     \<and> (\<forall>v m. view (outb p v a m) = (view m)\<lparr>sel := v\<rparr>)
     \<and> (\<forall>v m. \<exists>n. view (outb p v d m) = chip_write n v (view m))
     \<and> (\<forall>m. chip_reads (fst (inb p d m)) (view m)
            \<and> view (snd (inb p d m)) = (view m)\<lparr>busy := busy (view m) - 1\<rparr>)"

text \<open>A driver state with its chip: the view and the two addresses.\<close>

definition on_chip :: "('m \<Rightarrow> phychip) \<Rightarrow> u32 \<Rightarrow> u32 \<Rightarrow> 'm dmfe \<Rightarrow> phychip \<Rightarrow> bool" where
  "on_chip view a d s c \<longleftrightarrow> io_addr s = a \<and> io_data s = d \<and> view (chip s) = c"

lemma on_chip_iow:
  assumes "phy_chip_ok p a d view" "on_chip view a d s c"
  shows "\<exists>n. on_chip view a d (iow p r v s) (chip_write n v (c\<lparr>sel := r\<rparr>))"
proof -
  have "\<forall>v m. view (outb p v a m) = (view m)\<lparr>sel := v\<rparr>"
    and "\<forall>v m. \<exists>n. view (outb p v d m) = chip_write n v (view m)"
    using assms(1) by (simp_all add: phy_chip_ok_def)
  then have "\<exists>n. view (outb p v d (outb p r a (chip s))) = chip_write n v (c\<lparr>sel := r\<rparr>)"
    using assms(2) by (metis on_chip_def)
  then show ?thesis
    using assms(2) by (simp add: on_chip_def iow_def out8_def Let_def)
qed

lemma on_chip_ior:
  assumes "phy_chip_ok p a d view" "on_chip view a d s c"
  shows "chip_reads (fst (ior p r s)) (c\<lparr>sel := r\<rparr>)
    \<and> on_chip view a d (snd (ior p r s)) (c\<lparr>sel := r, busy := busy c - 1\<rparr>)"
proof -
  obtain v m where i: "inb p d (outb p r a (chip s)) = (v, m)" by fastforce
  have "view (outb p r a (chip s)) = c\<lparr>sel := r\<rparr>"
    using assms by (simp add: phy_chip_ok_def on_chip_def)
  moreover have "chip_reads (fst (inb p d (outb p r a (chip s)))) (view (outb p r a (chip s)))
    \<and> view (snd (inb p d (outb p r a (chip s)))) =
      (view (outb p r a (chip s)))\<lparr>busy := busy (view (outb p r a (chip s))) - 1\<rparr>"
    using assms(1) unfolding phy_chip_ok_def by blast
  ultimately show ?thesis
    using assms i by (simp add: on_chip_def ior_def in8_def out8_def)
qed

text \<open>The busy-wait ends: the chip counts its own work down, one poll at a time.\<close>

lemma wait_clear_ends:
  assumes "phy_chip_ok p a d view" "on_chip view a d s c"
  shows "\<exists>s'. wait_clear p DM9KS_EPCR s = Some s' \<and> on_chip view a d s' (c\<lparr>sel := DM9KS_EPCR, busy := 0\<rparr>)"
  using assms(2)
proof (induction "busy c" arbitrary: s c)
  case 0
  then show ?case
    using on_chip_ior [OF assms(1) 0(2), of DM9KS_EPCR]
    by (subst wait_clear.simps) (auto simp: chip_reads_def Let_def)
next
  case (Suc n)
  note r = on_chip_ior [OF assms(1) Suc(3), of DM9KS_EPCR]
  have "\<exists>s'. wait_clear p DM9KS_EPCR (snd (ior p DM9KS_EPCR s)) = Some s'
      \<and> on_chip view a d s' (c\<lparr>sel := DM9KS_EPCR, busy := busy c - 1, sel := DM9KS_EPCR, busy := 0\<rparr>)"
    by (rule Suc(1)) (use Suc(2) r in simp_all)
  moreover have "fst (ior p DM9KS_EPCR s) AND 1 \<noteq> 0"
    using r Suc(2) by (simp add: chip_reads_def)
  ultimately show ?case
    by (subst wait_clear.simps) (simp add: Let_def)
qed

lemma end_of_command:
  "chip_write m 0 (c\<lparr>sel := DM9KS_EPCR, busy := 0, sel := DM9KS_EPCR\<rparr>) = c\<lparr>sel := DM9KS_EPCR, busy := 0\<rparr>"
  by (cases c) (simp add: chip_write_def DM9KS_regs)

text \<open>One busy-wait command: the register, the command, the poll and the end of the command.\<close>

lemma command_ends:
  assumes "phy_chip_ok p a d view" "on_chip view a d s c"
  shows "\<exists>s' n. map_option (iow p DM9KS_EPCR 0x0) (wait_clear p DM9KS_EPCR (iow p DM9KS_EPCR v s)) = Some s'
    \<and> on_chip view a d s' ((chip_write n v (c\<lparr>sel := DM9KS_EPCR\<rparr>))\<lparr>sel := DM9KS_EPCR, busy := 0\<rparr>)"
proof -
  obtain n where n: "on_chip view a d (iow p DM9KS_EPCR v s) (chip_write n v (c\<lparr>sel := DM9KS_EPCR\<rparr>))"
    using on_chip_iow [OF assms] by blast
  obtain s' where s': "wait_clear p DM9KS_EPCR (iow p DM9KS_EPCR v s) = Some s'"
      "on_chip view a d s' ((chip_write n v (c\<lparr>sel := DM9KS_EPCR\<rparr>))\<lparr>sel := DM9KS_EPCR, busy := 0\<rparr>)"
    using wait_clear_ends [OF assms(1) n] by blast
  obtain m where "on_chip view a d (iow p DM9KS_EPCR 0 s')
      (chip_write m 0 ((chip_write n v (c\<lparr>sel := DM9KS_EPCR\<rparr>))\<lparr>sel := DM9KS_EPCR, busy := 0, sel := DM9KS_EPCR\<rparr>))"
    using on_chip_iow [OF assms(1) s'(2)] by blast
  then have "on_chip view a d (iow p DM9KS_EPCR 0 s')
      ((chip_write n v (c\<lparr>sel := DM9KS_EPCR\<rparr>))\<lparr>sel := DM9KS_EPCR, busy := 0\<rparr>)"
    by (simp only: end_of_command)
  then show ?thesis
    using s'(1) by auto
qed

lemma halves_of_word: "push_bit 8 (ucast (ucast (drop_bit 8 (v :: u16)) :: u8)) OR ucast (ucast v :: u8) = v"
  by (rule bit_word_eqI) (auto simp: bit_simps)

lemma ucast_low: "(ucast (v AND 0xff) :: u8) = ucast (v :: u16)"
proof -
  have m: "(0xff :: u16) = mask 8" by (simp add: mask_eq_exp_minus_1)
  show ?thesis unfolding m by (rule bit_word_eqI) (auto simp: bit_simps)
qed

lemma phy_write_stores:
  assumes "phy_chip_ok p a d view" "on_chip view a d s c"
  shows "\<exists>s' c'. phy_write p r v s = Some s' \<and> on_chip view a d s' c'
    \<and> phys c' = (phys c)(DM9KS_PHY OR r := v)"
proof -
  obtain n1 where 1: "on_chip view a d (iow p DM9KS_EPAR (DM9KS_PHY OR r) s)
      (chip_write n1 (DM9KS_PHY OR r) (c\<lparr>sel := DM9KS_EPAR\<rparr>))" (is "on_chip _ _ _ ?s1 ?c1")
    using on_chip_iow [OF assms] by blast
  obtain n2 where 2: "on_chip view a d (iow p DM9KS_EPDRL (ucast (v AND 0xff)) ?s1)
      (chip_write n2 (ucast (v AND 0xff)) (?c1\<lparr>sel := DM9KS_EPDRL\<rparr>))" (is "on_chip _ _ _ ?s2 ?c2")
    using on_chip_iow [OF assms(1) 1] by blast
  obtain n3 where 3: "on_chip view a d (iow p DM9KS_EPDRH (ucast (drop_bit 8 v AND 0xff)) ?s2)
      (chip_write n3 (ucast (drop_bit 8 v AND 0xff)) (?c2\<lparr>sel := DM9KS_EPDRH\<rparr>))" (is "on_chip _ _ _ ?s3 ?c3")
    using on_chip_iow [OF assms(1) 2] by blast
  have c3: "epar ?c3 = DM9KS_PHY OR r" "edl ?c3 = ucast v" "edh ?c3 = ucast (drop_bit 8 v)" "phys ?c3 = phys c"
    by (simp_all add: chip_write_def DM9KS_regs ucast_low)
  obtain s' n where "phy_write p r v s = Some s'"
      "on_chip view a d s' ((chip_write n 0xa (?c3\<lparr>sel := DM9KS_EPCR\<rparr>))\<lparr>sel := DM9KS_EPCR, busy := 0\<rparr>)"
    using command_ends [OF assms(1) 3, of "0xa"] by (auto simp: phy_write_def Let_def)
  moreover have "phys ((chip_write n 0xa (?c3\<lparr>sel := DM9KS_EPCR\<rparr>))\<lparr>sel := DM9KS_EPCR, busy := 0\<rparr>) =
      (phys c)(DM9KS_PHY OR r := v)"
    using c3 by (simp add: chip_write_def [of _ "0xa"] DM9KS_EPCR_def DM9KS_EPAR_def
        DM9KS_EPDRL_def DM9KS_EPDRH_def halves_of_word)
  ultimately show ?thesis by blast
qed

lemma phy_read_fetches:
  assumes "phy_chip_ok p a d view" "on_chip view a d s c"
  shows "\<exists>s' c'. phy_read p r s = Some (phys c (DM9KS_PHY OR r), s') \<and> on_chip view a d s' c' \<and> phys c' = phys c"
proof -
  let ?v = "phys c (DM9KS_PHY OR r)"
  obtain n1 where 1: "on_chip view a d (iow p DM9KS_EPAR (DM9KS_PHY OR r) s)
      (chip_write n1 (DM9KS_PHY OR r) (c\<lparr>sel := DM9KS_EPAR\<rparr>))" (is "on_chip _ _ _ ?s1 ?c1")
    using on_chip_iow [OF assms] by blast
  have c1: "epar ?c1 = DM9KS_PHY OR r" "phys ?c1 = phys c"
    by (simp_all add: chip_write_def DM9KS_regs)
  obtain s2 n where 2: "map_option (iow p DM9KS_EPCR 0x0) (wait_clear p DM9KS_EPCR (iow p DM9KS_EPCR 0xc ?s1)) = Some s2"
      "on_chip view a d s2 ((chip_write n 0xc (?c1\<lparr>sel := DM9KS_EPCR\<rparr>))\<lparr>sel := DM9KS_EPCR, busy := 0\<rparr>)"
      (is "on_chip _ _ _ _ ?c2")
    using command_ends [OF assms(1) 1] by blast
  have c2: "edl ?c2 = ucast ?v" "edh ?c2 = ucast (drop_bit 8 ?v)" "phys ?c2 = phys c"
    using c1 by (simp_all add: chip_write_def [of _ "0xc"] DM9KS_EPCR_def DM9KS_EPAR_def
        DM9KS_EPDRL_def DM9KS_EPDRH_def)
  obtain h s3 where 3: "ior p DM9KS_EPDRH s2 = (h, s3)" by fastforce
  obtain l s4 where 4: "ior p DM9KS_EPDRL s3 = (l, s4)" by fastforce
  have h: "h = ucast (drop_bit 8 ?v)" "on_chip view a d s3 (?c2\<lparr>sel := DM9KS_EPDRH, busy := busy ?c2 - 1\<rparr>)"
    using on_chip_ior [OF assms(1) 2(2), of DM9KS_EPDRH] 3 c2(2)
    by (simp_all add: chip_reads_def DM9KS_regs)
  have l: "l = ucast ?v \<and> (\<exists>c'. on_chip view a d s4 c' \<and> phys c' = phys c)"
    using on_chip_ior [OF assms(1) h(2), of DM9KS_EPDRL] 4 c2 by (auto simp: chip_reads_def DM9KS_regs)
  obtain s0 where s0: "wait_clear p DM9KS_EPCR (iow p DM9KS_EPCR 0xc ?s1) = Some s0" "s2 = iow p DM9KS_EPCR 0x0 s0"
    using 2(1) by auto
  have "phy_read p r s = Some (push_bit 8 (ucast h) OR ucast l, s4)"
    using s0 3 4 by (simp add: phy_read_def Let_def)
  then show ?thesis
    using h(1) l by (auto simp: halves_of_word)
qed

subsection \<open>Properties\<close>


text \<open>A chip that needs three polls for every command.\<close>

definition demo_port :: "phychip port" where
  "demo_port =
     \<lparr>outb = (\<lambda>v a c. if a = 0 then c\<lparr>sel := v\<rparr> else chip_write 3 v c),
      outw = (\<lambda>_ _ c. c), outl = (\<lambda>_ _ c. c),
      inb = (\<lambda>_ c. (if sel c = DM9KS_EPCR then (if busy c = 0 then 0 else 1)
                    else if sel c = DM9KS_EPDRL then edl c else edh c, c\<lparr>busy := busy c - 1\<rparr>)),
      inw = (\<lambda>_ c. (0, c)), inl = (\<lambda>_ c. (0, c))\<rparr>"

lemma phy_chip_ok_demo: "phy_chip_ok demo_port 0 4 (\<lambda>c. c)"
  by (auto simp: phy_chip_ok_def demo_port_def chip_reads_def DM9KS_regs)

definition idle_chip :: phychip where
  "idle_chip = \<lparr>sel = 0, epar = 0, edl = 0, edh = 0, busy = 0, phys = (\<lambda>_. 0)\<rparr>"

definition fresh_dmfe :: "'m \<Rightarrow> u32 \<Rightarrow> 'm dmfe" where
  "fresh_dmfe m a =
     \<lparr>kt = [], chip = m, io_addr = a, io_data = a + 4, op_mode = 0, io_mode = 0, Speed = 0,
      chip_revision = 0, rx_csum = 0, reset_counter = 0, reset_tx_timeout = 0, tx_pkt_cnt = 0,
      cont_rx_pkt_cnt = 0, srom = [], tx_packets = 0, tx_bytes = 0, tx_errors = 0, rx_packets = 0,
      rx_bytes = 0, rx_fifo_errors = 0, rx_crc_errors = 0, rx_length_errors = 0, media_mode = DM9KS_AUTO,
      base_addr = a, dev_addr = [], promisc = False, allmulti = False, hw_csum = False, mc_list = [], rx_queue = []\<rparr>"


end
