(* ===== verification/Dm9000Net.thy ===== *)
theory Dm9000Net
  imports Dm9000
begin

text \<open>
  The traffic of dm9000_first/dm9dev9000c.c: opening and closing the interface, transmission and its
  accounting, reception, the interrupt, the watchdog and the timer. What the kernel decides (whether
  an allocation or a copy succeeds, what lies behind the data of a packet in memory) is an argument.
  None stands for a busy-wait that never ends or for an access outside a buffer.
\<close>

subsection \<open>Transmission\<close>

definition tx_full :: "'m dmfe \<Rightarrow> bool" where
  "tx_full s = (if chip_revision s \<noteq> 0x1A
                then (if Speed s = 10 then tx_pkt_cnt s \<ge> 1 else tx_pkt_cnt s \<ge> 2)
                else tx_pkt_cnt s \<ge> 2)"

definition le16 :: "(nat \<Rightarrow> u8) \<Rightarrow> nat \<Rightarrow> u16" where
  "le16 f i = ucast (f i) OR push_bit 8 (ucast (f (i + 1)))"

definition le32 :: "(nat \<Rightarrow> u8) \<Rightarrow> nat \<Rightarrow> u32" where
  "le32 f i = ucast (le16 f i) OR push_bit 16 (ucast (le16 f (i + 2)))"

text \<open>
  The copy rounds the length up to whole accesses, so it may read up to three bytes that follow the
  data in memory: \<^verbatim>\<open>f\<close> gives the byte at each offset of the buffer.
\<close>

definition send_data :: "'m port \<Rightarrow> (nat \<Rightarrow> u8) \<Rightarrow> nat \<Rightarrow> 'm dmfe \<Rightarrow> 'm dmfe" where
  "send_data p f len s =
     (let a = io_data s;
          m = (if io_mode s = 2 then fold (\<lambda>i. outb p (f i) a) [0..<len] (chip s)
               else if io_mode s = 0 then fold (\<lambda>i. outw p (le16 f (2 * i)) a) [0..<(len + 1) div 2] (chip s)
               else if io_mode s = 1 then fold (\<lambda>i. outl p (le32 f (4 * i)) a) [0..<(len + 3) div 4] (chip s)
               else chip s)
      in s\<lparr>chip := m\<rparr>)"

definition dmfe_start_xmit :: "'m port \<Rightarrow> (nat \<Rightarrow> u8) \<Rightarrow> nat \<Rightarrow> 'm dmfe \<Rightarrow> int \<times> 'm dmfe" where
  "dmfe_start_xmit p f len s =
     (if tx_full s then (1, s)
      else let s = s\<lparr>tx_pkt_cnt := tx_pkt_cnt s + 1, tx_packets := tx_packets s + 1,
                     tx_bytes := tx_bytes s + of_nat len\<rparr>;
               s = (if tx_full s then emit [Other ''netif_stop_queue'' 0] s else s);
               s = iow p DM9KS_IMR DM9KS_DISINTR s;
               (MDWAH, s) = ior p DM9KS_MDWAH s;
               (MDWAL, s) = ior p DM9KS_MDWAL s;
               s = iow p DM9KS_TXPLL (of_nat len) s;
               s = iow p DM9KS_TXPLH (of_nat (len div 256)) s;
               s = out8 p DM9KS_MWCMD (io_addr s) s;
               s = send_data p f len s;
               s = iow p DM9KS_TCR 0x1 s;
               s = emit [Other ''trans_start = jiffies'' 0] s;
               s = s\<lparr>cont_rx_pkt_cnt := 0\<rparr>;
               s = emit [Other ''dev_kfree_skb'' 0] s
           in (0, iow p DM9KS_IMR DM9KS_REGFF s))"

definition dmfe_tx_done :: "'m port \<Rightarrow> 'm dmfe \<Rightarrow> 'm dmfe option" where
  "dmfe_tx_done p s =
     (let (nsr, s) = ior p DM9KS_NSR s
      in map_option (emit [Other ''netif_wake_queue'' 0])
           (if nsr AND 0x0c \<noteq> 0
            then let s = (if nsr AND 0x04 \<noteq> 0 then s\<lparr>tx_pkt_cnt := tx_pkt_cnt s - 1\<rparr> else s);
                     s = (if nsr AND 0x08 \<noteq> 0 then s\<lparr>tx_pkt_cnt := tx_pkt_cnt s - 1\<rparr> else s)
                 in if tx_pkt_cnt s < 0 then map_option (\<lambda>s. s\<lparr>tx_pkt_cnt := 0\<rparr>) (wait_clear p DM9KS_TCR s)
                    else Some s
            else map_option (\<lambda>s. s\<lparr>tx_pkt_cnt := 0\<rparr>) (wait_clear p DM9KS_TCR s)))"

subsection \<open>The link\<close>

definition link_speed :: "'m port \<Rightarrow> 'm dmfe \<Rightarrow> 'm dmfe option" where
  "link_speed p s =
     map_option (\<lambda>(v, s). s\<lparr>Speed := (if v AND 0x2000 \<noteq> 0 then 100 else 10)\<rparr>) (phy_read p 0 s)"

fun reset_wait_link :: "'m port \<Rightarrow> nat \<Rightarrow> 'm dmfe \<Rightarrow> 'm dmfe option" where
  "reset_wait_link p 0 s = Some s"
| "reset_wait_link p (Suc n) s =
     Option.bind (phy_read p 0x1 s) (\<lambda>(v, s).
       if v AND 0x4 \<noteq> 0 then link_speed p s
       else reset_wait_link p n (emit [Delay_us 1000] s))"

definition dmfe_reset :: "linux \<Rightarrow> (u8 list \<Rightarrow> u32) \<Rightarrow> 'm port \<Rightarrow> 'm dmfe \<Rightarrow> 'm dmfe option" where
  "dmfe_reset lx crc p s =
     (let (reg_save, s) = in8 p (io_addr s) s;
          s = emit [Other ''netif_stop_queue'' 0] s;
          s = s\<lparr>reset_counter := reset_counter s + 1\<rparr>
      in Option.bind (dmfe_init_dm9000 lx crc p s) (\<lambda>s.
           map_option (\<lambda>s. out8 p reg_save (io_addr s) (emit [Other ''netif_wake_queue'' 0] s))
             (reset_wait_link p 1000 (s\<lparr>Speed := 10\<rparr>))))"

fun intr_wait_link :: "'m port \<Rightarrow> nat \<Rightarrow> 'm dmfe \<Rightarrow> 'm dmfe option" where
  "intr_wait_link p 0 s = Some s"
| "intr_wait_link p (Suc n) s =
     Option.bind (phy_read p 0x1 s) (\<lambda>(_, s).
     Option.bind (phy_read p 0x1 s) (\<lambda>(v, s).
       if v AND 0x4 \<noteq> 0 then link_speed p (emit (replicate 200 (Delay_us 1000)) s)
       else intr_wait_link p n (emit [Delay_us 1000] s)))"

fun open_wait_link :: "'m port \<Rightarrow> nat \<Rightarrow> 'm dmfe \<Rightarrow> 'm dmfe" where
  "open_wait_link p 0 s = s"
| "open_wait_link p (Suc n) s =
     (let (reg_nsr, s) = ior p DM9KS_NSR s
      in if reg_nsr AND 0x40 \<noteq> 0
         then let (reg_nsr, s) = ior p DM9KS_NSR (emit [Delay_us 200000] s)
              in s\<lparr>Speed := (if reg_nsr AND 0x80 \<noteq> 0 then 10 else 100)\<rparr>
         else open_wait_link p n (emit [Delay_us 1000] s))"

subsection \<open>Opening, closing, the timer and the watchdog\<close>

definition dmfe_open :: "linux \<Rightarrow> (u8 list \<Rightarrow> u32) \<Rightarrow> bool \<Rightarrow> 'm port \<Rightarrow> 'm dmfe \<Rightarrow> (int \<times> 'm dmfe) option" where
  "dmfe_open lx crc irq_ok p s =
     (if \<not> irq_ok then Some (- EAGAIN, s)
      else map_option (\<lambda>s.
             let s = s\<lparr>reset_counter := 0, reset_tx_timeout := 0, cont_rx_pkt_cnt := 0, Speed := 10\<rparr>;
                 s = open_wait_link p 3000 s
             in (0, emit [Other ''init_timer'' 0, Add_timer ''dmfe_timer'', Other ''netif_start_queue'' 0] s))
           (dmfe_init_dm9000 lx crc p (emit [Request_irq ''dev->irq'' 0] s)))"

definition dmfe_stop :: "'m port \<Rightarrow> 'm dmfe \<Rightarrow> (int \<times> 'm dmfe) option" where
  "dmfe_stop p s =
     map_option (\<lambda>s. (0, iow p DM9KS_RXCR 0x00 (iow p DM9KS_IMR DM9KS_DISINTR s)))
       (phy_write p 0x00 0x8000
          (emit [Del_timer ''dmfe_timer'', Other ''netif_stop_queue'' 0, Free_irq ''dev->irq'' 0] s))"

text \<open>The value of \<^verbatim>\<open>i\<close> after \<^verbatim>\<open>while((i++<100)&&(ior(db,DM9KS_TCR) & 0x01))\<close>.\<close>

fun tx_poll :: "'m port \<Rightarrow> nat \<Rightarrow> 'm dmfe \<Rightarrow> nat \<times> 'm dmfe" where
  "tx_poll p 0 s = (101, s)"
| "tx_poll p (Suc n) s =
     (let (v, s) = ior p DM9KS_TCR s
      in if v AND 0x01 \<noteq> 0 then tx_poll p n (emit [Delay_us 30] s) else (100 - n, s))"

definition dmfe_timeout :: "linux \<Rightarrow> (u8 list \<Rightarrow> u32) \<Rightarrow> 'm port \<Rightarrow> 'm dmfe \<Rightarrow> 'm dmfe option" where
  "dmfe_timeout lx crc p s =
     (let s = s\<lparr>reset_tx_timeout := reset_tx_timeout s + 1, tx_errors := tx_errors s + 1\<rparr>;
          (i, s) = tx_poll p 100 s
      in if i < 100 then Some (emit [Other ''netif_wake_queue'' 0] (s\<lparr>tx_pkt_cnt := 0\<rparr>))
         else dmfe_reset lx crc p s)"

definition CONT_RX_PKT_CNT :: int where "CONT_RX_PKT_CNT = 0xFFFF"

definition dmfe_timer :: "'m port \<Rightarrow> 'm dmfe \<Rightarrow> 'm dmfe" where
  "dmfe_timer p s =
     (let s = (if cont_rx_pkt_cnt s \<ge> CONT_RX_PKT_CNT
               then iow p DM9KS_IMR DM9KS_REGFF (s\<lparr>cont_rx_pkt_cnt := 0\<rparr>) else s)
      in emit [Add_timer ''dmfe_timer''] s)"

subsection \<open>Reception\<close>

definition in16 :: "'m port \<Rightarrow> u32 \<Rightarrow> 'm dmfe \<Rightarrow> u16 \<times> 'm dmfe" where
  "in16 p a s = (case inw p a (chip s) of (v, m) \<Rightarrow> (v, s\<lparr>chip := m\<rparr>))"

definition in32 :: "'m port \<Rightarrow> u32 \<Rightarrow> 'm dmfe \<Rightarrow> u32 \<times> 'm dmfe" where
  "in32 p a s = (case inl p a (chip s) of (v, m) \<Rightarrow> (v, s\<lparr>chip := m\<rparr>))"

fun reads :: "('s \<Rightarrow> 'v \<times> 's) \<Rightarrow> nat \<Rightarrow> 's \<Rightarrow> 'v list \<times> 's" where
  "reads rd 0 s = ([], s)"
| "reads rd (Suc n) s = (let (v, s) = rd s; (vs, s) = reads rd n s in (v # vs, s))"

definition bytes16 :: "u16 \<Rightarrow> u8 list" where
  "bytes16 v = [ucast v, ucast (drop_bit 8 v)]"

definition bytes32 :: "u32 \<Rightarrow> u8 list" where
  "bytes32 v = [ucast v, ucast (drop_bit 8 v), ucast (drop_bit 16 v), ucast (drop_bit 24 v)]"

text \<open>
  The bytes that one pass over a packet of \<^verbatim>\<open>len\<close> bytes takes out of the chip, whole accesses at a
  time. The same accesses drop a bad packet.
\<close>

definition fetch :: "'m port \<Rightarrow> nat \<Rightarrow> 'm dmfe \<Rightarrow> u8 list \<times> 'm dmfe" where
  "fetch p len s =
     (let a = io_data s
      in if io_mode s = 2 then reads (in8 p a) len s
         else if io_mode s = 0
         then (case reads (in16 p a) ((len + 1) div 2) s of (vs, s) \<Rightarrow> (concat (map bytes16 vs), s))
         else if io_mode s = 1
         then (case reads (in32 p a) ((len + 3) div 4) s of (vs, s) \<Rightarrow> (concat (map bytes32 vs), s))
         else ([], s))"

text \<open>
  The four bytes in front of a packet, of which the second is the status and the last two are the
  length. In a mode the chip does not have, nothing is read and they are not initialised: None.
\<close>

definition rx_head :: "'m port \<Rightarrow> 'm dmfe \<Rightarrow> ((u8 \<times> u16) \<times> 'm dmfe) option" where
  "rx_head p s =
     (let a = io_data s
      in if io_mode s = 2
         then (case reads (in8 p a) 4 s of (vs, s) \<Rightarrow>
                 Some ((vs ! 1, ucast (vs ! 2) + push_bit 8 (ucast (vs ! 3))), s))
         else if io_mode s = 0
         then (case reads (in16 p a) 2 s of (vs, s) \<Rightarrow> Some ((ucast (drop_bit 8 (vs ! 0)), vs ! 1), s))
         else if io_mode s = 1
         then (case in32 p a s of (v, s) \<Rightarrow> Some ((ucast (drop_bit 8 v), ucast (drop_bit 16 v)), s))
         else None)"

definition count_errors :: "u8 \<Rightarrow> 'm dmfe \<Rightarrow> 'm dmfe" where
  "count_errors status s =
     (let s = (if status AND 0x01 \<noteq> 0 then s\<lparr>rx_fifo_errors := rx_fifo_errors s + 1\<rparr> else s);
          s = (if status AND 0x02 \<noteq> 0 then s\<lparr>rx_crc_errors := rx_crc_errors s + 1\<rparr> else s)
      in if status AND 0x80 \<noteq> 0 then s\<lparr>rx_length_errors := rx_length_errors s + 1\<rparr> else s)"

text \<open>
  The buffer has room for \<^verbatim>\<open>len + 4\<close> bytes, of which 2 are left free in front. \<^verbatim>\<open>skb_put\<close> claims
  \<^verbatim>\<open>len - 4\<close> of them, which for a shorter packet wraps around and panics; the copy then writes all
  that \<^verbatim>\<open>fetch\<close> reads.
\<close>

definition rx_deliver :: "'m port \<Rightarrow> u16 \<Rightarrow> 'm dmfe \<Rightarrow> 'm dmfe option" where
  "rx_deliver p len s =
     (if unat len < 4 then None
      else let (bs, s) = fetch p (unat len) s
           in if length bs > unat len + 4 - 2 then None
              else let s = emit [Other ''eth_type_trans'' 0, Other ''netif_rx'' (unat len - 4), Other ''last_rx = jiffies'' 0] s
                   in Some (s\<lparr>rx_queue := rx_queue s @ [take (unat len - 4) bs],
                              rx_packets := rx_packets s + 1,
                              rx_bytes := rx_bytes s + ucast len,
                              cont_rx_pkt_cnt := cont_rx_pkt_cnt s + 1\<rparr>))"

text \<open>
  One turn of the receive loop. \<^verbatim>\<open>Inl\<close> leaves the function, \<^verbatim>\<open>Inr\<close> goes on; the loop condition
  looks at a byte that is 1 whenever it is reached.
\<close>

definition rx_step ::
  "linux \<Rightarrow> (u8 list \<Rightarrow> u32) \<Rightarrow> 'm port \<Rightarrow> bool \<Rightarrow> 'm dmfe \<Rightarrow> ('m dmfe + 'm dmfe) option" where
  "rx_step lx crc p alloc_ok s =
     (let (MDRAH, s) = ior p DM9KS_MDRAH s;
          (MDRAL, s) = ior p DM9KS_MDRAL s;
          (_, s) = ior p DM9KS_MRCMDX s;
          (rxbyte, s) = in8 p (io_data s) s
      in if rxbyte = 0 then Some (Inl s)
         else if rxbyte > 1 then map_option Inl (dmfe_reset lx crc p s)
         else Option.bind (rx_head p (out8 p DM9KS_MRCMD (io_addr s) s)) (\<lambda>((status, len), s).
           if status AND 0xbf \<noteq> 0 then Some (Inr (snd (fetch p (unat len) (count_errors status s))))
           else if \<not> alloc_ok then Some (Inl (iow p DM9KS_MDRAL MDRAL (iow p DM9KS_MDRAH MDRAH s)))
           else Option.bind (rx_deliver p len (emit [Kmalloc ''rx_skb'' (unat len + 4)] s)) (\<lambda>s.
             if cont_rx_pkt_cnt s \<ge> CONT_RX_PKT_CNT then map_option Inl (dmfe_tx_done p s)
             else Some (Inr s))))"

partial_function (option) rx_loop ::
  "linux \<Rightarrow> (u8 list \<Rightarrow> u32) \<Rightarrow> 'm port \<Rightarrow> (nat \<Rightarrow> bool) \<Rightarrow> nat \<Rightarrow> 'm dmfe \<Rightarrow> 'm dmfe option" where
  "rx_loop lx crc p alloc_ok n s =
     Option.bind (rx_step lx crc p (alloc_ok n) s) (\<lambda>r.
       case r of Inl s \<Rightarrow> Some s | Inr s \<Rightarrow> rx_loop lx crc p alloc_ok (Suc n) s)"

definition dmfe_packet_receive ::
  "linux \<Rightarrow> (u8 list \<Rightarrow> u32) \<Rightarrow> 'm port \<Rightarrow> (nat \<Rightarrow> bool) \<Rightarrow> 'm dmfe \<Rightarrow> 'm dmfe option" where
  "dmfe_packet_receive lx crc p alloc_ok s = rx_loop lx crc p alloc_ok 0 (s\<lparr>cont_rx_pkt_cnt := 0\<rparr>)"

subsection \<open>The interrupt\<close>

definition dmfe_interrupt ::
  "linux \<Rightarrow> (u8 list \<Rightarrow> u32) \<Rightarrow> 'm port \<Rightarrow> (nat \<Rightarrow> bool) \<Rightarrow> 'm dmfe \<Rightarrow> 'm dmfe option" where
  "dmfe_interrupt lx crc p alloc_ok s =
     (let s = emit [Other ''spin_lock'' 0] s;
          (reg_save, s) = in8 p (io_addr s) s;
          s = iow p DM9KS_IMR DM9KS_DISINTR s;
          (int_status, s) = ior p DM9KS_ISR s;
          s = iow p DM9KS_ISR int_status s
      in Option.bind (if int_status AND 0x20 \<noteq> 0
                      then map_option (emit [Other ''netif_wake_queue'' 0])
                             (intr_wait_link p 500 (emit [Other ''netif_stop_queue'' 0] s))
                      else Some s) (\<lambda>s.
         Option.bind (if int_status AND 0x01 \<noteq> 0 then dmfe_packet_receive lx crc p alloc_ok s else Some s) (\<lambda>s.
         Option.bind (if int_status AND 0x02 \<noteq> 0 then dmfe_tx_done p s else Some s) (\<lambda>s.
           let s = iow p DM9KS_IMR (if cont_rx_pkt_cnt s \<ge> CONT_RX_PKT_CNT then 0xa2 else DM9KS_REGFF) s;
               s = out8 p reg_save (io_addr s) s
           in Some (emit [Other ''spin_unlock'' 0] s)))))"

subsection \<open>Controls\<close>

text \<open>
  The numbers 3 and 0x8946 are those of \<^verbatim>\<open>ETHTOOL_GDRVINFO\<close> and \<^verbatim>\<open>SIOCETHTOOL\<close>. \<^verbatim>\<open>mii\<close> is the MII
  layer of the kernel, which works through \<^verbatim>\<open>mdio_read\<close> and \<^verbatim>\<open>mdio_write\<close>.
\<close>

definition dmfe_ethtool_ioctl :: "u32 option \<Rightarrow> bool \<Rightarrow> int" where
  "dmfe_ethtool_ioctl ethcmd copy_ok =
     (case ethcmd of None \<Rightarrow> - EFAULT
      | Some c \<Rightarrow> if c = 3 then (if copy_ok then 0 else - EFAULT) else - EOPNOTSUPP)"

definition dmfe_do_ioctl ::
  "('m dmfe \<Rightarrow> (int \<times> 'm dmfe) option) \<Rightarrow> bool \<Rightarrow> u32 \<Rightarrow> u32 option \<Rightarrow> bool \<Rightarrow> 'm dmfe \<Rightarrow> (int \<times> 'm dmfe) option" where
  "dmfe_do_ioctl mii running cmd ethcmd copy_ok s =
     (if \<not> running then Some (- EINVAL, s)
      else if cmd = 0x8946 then Some (dmfe_ethtool_ioctl ethcmd copy_ok, s)
      else map_option (\<lambda>(rc, s). (rc, emit [Other ''spin_unlock_irq'' 0] s))
             (mii (emit [Other ''spin_lock_irq'' 0] s)))"

definition dmfe_set_settings ::
  "('m dmfe \<Rightarrow> (int \<times> 'm dmfe) option) \<Rightarrow> 'm dmfe \<Rightarrow> (int \<times> 'm dmfe) option" where
  "dmfe_set_settings mii s =
     map_option (\<lambda>(rc, s). (rc, emit [Other ''spin_unlock_irq'' 0] s))
       (mii (emit [Other ''spin_lock_irq'' 0] s))"

definition dmfe_get_settings ::
  "('m dmfe \<Rightarrow> (int \<times> 'm dmfe) option) \<Rightarrow> 'm dmfe \<Rightarrow> (int \<times> 'm dmfe) option" where
  "dmfe_get_settings mii s =
     map_option (\<lambda>(_, s). (0, emit [Other ''spin_unlock_irq'' 0] s))
       (mii (emit [Other ''spin_lock_irq'' 0] s))"

definition dmfe_get_rx_csum :: "'m dmfe \<Rightarrow> u32" where
  "dmfe_get_rx_csum s = word_of_int (rx_csum s)"

definition dmfe_get_tx_csum :: "'m dmfe \<Rightarrow> u32" where
  "dmfe_get_tx_csum s = (if hw_csum s then 1 else 0)"

subsection \<open>What the parts of a handler leave alone\<close>

text \<open>The calls on \<^verbatim>\<open>db->lock\<close>.\<close>

definition lock_call :: "kcall \<Rightarrow> bool" where
  "lock_call c =
     (case c of Other n _ \<Rightarrow> n = ''spin_lock_init'' \<or> n = ''spin_lock'' \<or> n = ''spin_unlock''
          \<or> n = ''spin_lock_irqsave'' \<or> n = ''spin_unlock_irqrestore''
          \<or> n = ''spin_lock_irq'' \<or> n = ''spin_unlock_irq''
      | _ \<Rightarrow> False)"

text \<open>
  Anything one may observe of the driver that depends neither on the chip nor on the link speed, and of
  the calls only on those on the lock. Every access to the chip leaves it alone.
\<close>

locale chip_obs =
  fixes obs :: "'m dmfe \<Rightarrow> 'v"
  assumes obs_chip [simp]: "obs (s\<lparr>chip := m\<rparr>) = obs s"
    and obs_Speed [simp]: "obs (s\<lparr>Speed := b\<rparr>) = obs s"
    and obs_emit [simp]: "list_all (\<lambda>c. \<not> lock_call c) cs \<Longrightarrow> obs (emit cs s) = obs s"
begin

lemma obs_out8 [simp]: "obs (out8 p v a s) = obs s"
  by (simp add: out8_def)

lemma obs_iow [simp]: "obs (iow p r v s) = obs s"
  by (simp add: iow_def Let_def)

lemma obs_iows [simp]: "obs (iows p ws s) = obs s"
  by (induction ws arbitrary: s) (auto simp: iows_def)

lemma obs_in8: "in8 p a s = (v, s') \<Longrightarrow> obs s' = obs s"
  by (auto simp: in8_def split: prod.splits)

lemma obs_in16: "in16 p a s = (v, s') \<Longrightarrow> obs s' = obs s"
  by (auto simp: in16_def split: prod.splits)

lemma obs_in32: "in32 p a s = (v, s') \<Longrightarrow> obs s' = obs s"
  by (auto simp: in32_def split: prod.splits)

lemma obs_ior: "ior p r s = (v, s') \<Longrightarrow> obs s' = obs s"
  by (auto simp: ior_def dest: obs_in8)

lemma obs_snd_ior [simp]: "obs (snd (ior p r s)) = obs s"
  by (metis obs_ior prod.collapse)

lemma obs_reads:
  "(\<And>s v s'. rd s = (v, s') \<Longrightarrow> obs s' = obs s) \<Longrightarrow> reads rd n s = (vs, s') \<Longrightarrow> obs s' = obs s"
  by (induction n arbitrary: s vs) (auto simp: Let_def split: prod.splits)

lemma obs_reads8: "reads (in8 p a) n s = (vs, s') \<Longrightarrow> obs s' = obs s"
  by (rule obs_reads [OF obs_in8])

lemma obs_reads16: "reads (in16 p a) n s = (vs, s') \<Longrightarrow> obs s' = obs s"
  by (rule obs_reads [OF obs_in16])

lemma obs_reads32: "reads (in32 p a) n s = (vs, s') \<Longrightarrow> obs s' = obs s"
  by (rule obs_reads [OF obs_in32])

lemma obs_wait_clear: "wait_clear p r s = Some s' \<Longrightarrow> obs s' = obs s"
  by (rule wait_clear.raw_induct [of "\<lambda>p r s s'. obs s' = obs s", rotated])
    (auto simp: Let_def split: if_splits)

lemma obs_phy_read: "phy_read p r s = Some (v, s') \<Longrightarrow> obs s' = obs s"
  by (auto simp: phy_read_def Let_def case_prod_beta dest!: obs_wait_clear)

lemma obs_phy_write: "phy_write p r v s = Some s' \<Longrightarrow> obs s' = obs s"
  by (auto simp: phy_write_def Let_def dest!: obs_wait_clear)

lemma obs_phy_writes: "phy_writes p ws s = Some s' \<Longrightarrow> obs s' = obs s"
  by (induction ws arbitrary: s) (auto simp: Option.bind_eq_Some_conv dest!: obs_phy_write)

lemma obs_set_PHY_mode: "set_PHY_mode p s = Some s' \<Longrightarrow> obs s' = obs s"
  by (auto simp: set_PHY_mode_def Option.bind_eq_Some_conv split: if_split_asm prod.split_asm
      simp del: phy_writes.simps dest!: obs_phy_writes obs_phy_read)

lemma obs_link_speed: "link_speed p s = Some s' \<Longrightarrow> obs s' = obs s"
  by (auto simp: link_speed_def dest!: obs_phy_read)

lemma obs_delays [simp]: "obs (emit (replicate n (Delay_us k)) s) = obs s" "obs (emit [Delay_us k] s) = obs s"
  by (simp_all add: lock_call_def list_all_iff)

lemma obs_reset_wait_link: "reset_wait_link p n s = Some s' \<Longrightarrow> obs s' = obs s"
proof (induction n arbitrary: s)
  case (Suc n)
  then obtain v t where t: "phy_read p 1 s = Some (v, t)"
      "(if v AND 0x4 \<noteq> 0 then link_speed p t else reset_wait_link p n (emit [Delay_us 1000] t)) = Some s'"
    by (cases "phy_read p 1 s") auto
  show ?case
    using obs_phy_read [OF t(1)] t(2) obs_link_speed [of p t s'] Suc.IH [of "emit [Delay_us 1000] t"]
    by (simp split: if_split_asm)
qed simp

lemma obs_intr_wait_link: "intr_wait_link p n s = Some s' \<Longrightarrow> obs s' = obs s"
proof (induction n arbitrary: s)
  case (Suc n)
  then obtain x r v t where r: "phy_read p 1 s = Some (x, r)" and t: "phy_read p 1 r = Some (v, t)"
      "(if v AND 0x4 \<noteq> 0 then link_speed p (emit (replicate 200 (Delay_us 1000)) t)
        else intr_wait_link p n (emit [Delay_us 1000] t)) = Some s'"
    by (auto simp: Option.bind_eq_Some_conv)
  show ?case
    using obs_phy_read [OF r] obs_phy_read [OF t(1)] t(2) Suc.IH [of "emit [Delay_us 1000] t"]
      obs_link_speed [of p "emit (replicate 200 (Delay_us 1000)) t" s']
    by (simp del: obs_emit split: if_split_asm)
qed simp

lemma obs_open_wait_link [simp]: "obs (open_wait_link p n s) = obs s"
  by (induction n arbitrary: s) (auto simp: Let_def lock_call_def dest!: obs_ior split: prod.splits)

lemma obs_tx_poll: "tx_poll p n s = (i, s') \<Longrightarrow> obs s' = obs s"
  by (induction n arbitrary: s) (auto simp: Let_def lock_call_def dest!: obs_ior split: prod.splits if_splits)

lemma obs_send_data [simp]: "obs (send_data p f len s) = obs s"
  by (simp add: send_data_def Let_def)

lemma obs_fetch: "fetch p len s = (bs, s') \<Longrightarrow> obs s' = obs s"
  by (auto simp: fetch_def Let_def split: prod.split_asm if_split_asm
      dest!: obs_reads8 obs_reads16 obs_reads32)

lemma obs_snd_fetch [simp]: "obs (snd (fetch p len s)) = obs s"
  by (metis obs_fetch prod.collapse)

lemma obs_rx_head: "rx_head p s = Some (h, s') \<Longrightarrow> obs s' = obs s"
  by (auto simp: rx_head_def Let_def split: prod.split_asm if_split_asm
      dest!: obs_reads8 obs_reads16 obs_in32 simp del: reads.simps)

end

text \<open>Where it does not depend on the counters either, so do the rest of the functions.\<close>

locale rx_obs = chip_obs +
  assumes obs_counters [simp]:
    "obs (s\<lparr>rx_fifo_errors := w\<rparr>) = obs s" "obs (s\<lparr>rx_crc_errors := w\<rparr>) = obs s"
    "obs (s\<lparr>rx_length_errors := w\<rparr>) = obs s" "obs (s\<lparr>rx_queue := q\<rparr>) = obs s"
    "obs (s\<lparr>rx_packets := w\<rparr>) = obs s" "obs (s\<lparr>rx_bytes := w\<rparr>) = obs s"
    "obs (s\<lparr>tx_errors := w\<rparr>) = obs s"
    "obs (s\<lparr>cont_rx_pkt_cnt := c\<rparr>) = obs s" "obs (s\<lparr>reset_counter := w\<rparr>) = obs s"
    "obs (s\<lparr>reset_tx_timeout := w\<rparr>) = obs s"
begin

lemma obs_count_errors [simp]: "obs (count_errors st s) = obs s"
  by (simp add: count_errors_def Let_def)

lemma obs_rx_deliver: "rx_deliver p len s = Some s' \<Longrightarrow> obs s' = obs s"
  by (auto simp: rx_deliver_def Let_def lock_call_def dest: obs_fetch split: prod.splits if_splits)

lemma obs_timer [simp]: "obs (dmfe_timer p s) = obs s"
  by (simp add: dmfe_timer_def Let_def lock_call_def)

lemma obs_stop: "dmfe_stop p s = Some (r, s') \<Longrightarrow> obs s' = obs s"
  by (auto simp: dmfe_stop_def lock_call_def dest!: obs_phy_write)

end

text \<open>
  A condition that also holds after the chip is set up anew and that the end of a transmission
  keeps is kept by reception, the watchdog, opening, and what the interrupt does under the lock.
\<close>

lemma byte_above_1: "(b :: u8) > 1 \<longleftrightarrow> b \<noteq> 0 \<and> b \<noteq> 1"
  by (auto simp: word_less_nat_alt word_unat_eq_iff)

locale dmfe_inv = rx_obs inv for inv :: "'m dmfe \<Rightarrow> bool" +
  fixes lx :: linux
  assumes inv_init: "dmfe_init_dm9000 lx crc p s = Some s' \<Longrightarrow> inv s \<Longrightarrow> inv s'"
    and inv_tx_done: "dmfe_tx_done p s = Some s' \<Longrightarrow> inv s \<Longrightarrow> inv s'"
    and inv_tx_none: "inv s \<Longrightarrow> inv (s\<lparr>tx_pkt_cnt := 0\<rparr>)"
begin

lemma inv_reset:
  assumes "dmfe_reset lx crc p s = Some s'" "inv s"
  shows "inv s'"
proof -
  obtain g s1 where 1: "in8 p (io_addr s) s = (g, s1)" by fastforce
  let ?s2 = "(emit [Other ''netif_stop_queue'' 0] s1)\<lparr>reset_counter := reset_counter (emit [Other ''netif_stop_queue'' 0] s1) + 1\<rparr>"
  obtain s3 s4 where 3: "dmfe_init_dm9000 lx crc p ?s2 = Some s3"
      "reset_wait_link p 1000 (s3\<lparr>Speed := 10\<rparr>) = Some s4"
      "s' = out8 p g (io_addr s4) (emit [Other ''netif_wake_queue'' 0] s4)"
    using assms(1) 1 by (auto simp: dmfe_reset_def Let_def Option.bind_eq_Some_conv)
  have "inv ?s2" using obs_in8 [OF 1] assms(2) by (simp add: lock_call_def)
  with 3 inv_init [OF 3(1)] obs_reset_wait_link [OF 3(2)] show ?thesis by (simp add: Let_def lock_call_def)
qed

lemma inv_rx_step:
  assumes "rx_step lx crc p ok s = Some r" "inv s"
  shows "inv (case r of Inl s \<Rightarrow> s | Inr s \<Rightarrow> s)"
proof -
  obtain h s1 where 1: "ior p DM9KS_MDRAH s = (h, s1)" by fastforce
  obtain l s2 where 2: "ior p DM9KS_MDRAL s1 = (l, s2)" by fastforce
  obtain x s3 where 3: "ior p DM9KS_MRCMDX s2 = (x, s3)" by fastforce
  obtain b s4 where 4: "in8 p (io_data s3) s3 = (b, s4)" by fastforce
  have s4: "inv s4"
    using obs_ior [OF 1] obs_ior [OF 2] obs_ior [OF 3] obs_in8 [OF 4] assms(2) by simp
  show ?thesis
  proof (cases "b = 1")
    case False
    then show ?thesis
      using assms(1) 1 2 3 4 s4 inv_reset [of crc p s4]
      by (auto simp: rx_step_def byte_above_1 split: if_split_asm)
  next
    case True
    with assms(1) 1 2 3 4 obtain st len s5 where 5: "rx_head p (out8 p DM9KS_MRCMD (io_addr s4) s4) = Some ((st, len), s5)"
        "(if st AND 0xbf \<noteq> 0 then Some (Inr (snd (fetch p (unat len) (count_errors st s5))))
          else if \<not> ok then Some (Inl (iow p DM9KS_MDRAL l (iow p DM9KS_MDRAH h s5)))
          else Option.bind (rx_deliver p len (emit [Kmalloc ''rx_skb'' (unat len + 4)] s5)) (\<lambda>s.
            if cont_rx_pkt_cnt s \<ge> CONT_RX_PKT_CNT then map_option Inl (dmfe_tx_done p s)
            else Some (Inr s))) = Some r"
      by (auto simp: rx_step_def Option.bind_eq_Some_conv)
    have "inv s5" using obs_rx_head [OF 5(1)] s4 by simp
    then show ?thesis
      using 5(2) by (auto simp: Option.bind_eq_Some_conv lock_call_def split: if_splits
          dest!: obs_rx_deliver inv_tx_done)
  qed
qed

lemma inv_rx_loop: "rx_loop k crc p ok n s = Some s' \<Longrightarrow> k = lx \<longrightarrow> inv s \<longrightarrow> inv s'"
proof (rule rx_loop.raw_induct [of "\<lambda>k crc p ok n s s'. k = lx \<longrightarrow> inv s \<longrightarrow> inv s'", rotated])
  fix rx :: "linux \<Rightarrow> (u8 list \<Rightarrow> u32) \<Rightarrow> 'm port \<Rightarrow> (nat \<Rightarrow> bool) \<Rightarrow> nat \<Rightarrow> 'm dmfe \<Rightarrow> 'm dmfe option"
    and k crc p ok n s s'
  assume IH: "\<And>k crc p ok n s s'. rx k crc p ok n s = Some s' \<Longrightarrow> k = lx \<longrightarrow> inv s \<longrightarrow> inv s'"
    and "Option.bind (rx_step k crc p (ok n) s) (\<lambda>r. case r of Inl s \<Rightarrow> Some s | Inr s \<Rightarrow> rx k crc p ok (Suc n) s) = Some s'"
  then obtain r where r: "rx_step k crc p (ok n) s = Some r"
      "(case r of Inl s \<Rightarrow> Some s | Inr s \<Rightarrow> rx k crc p ok (Suc n) s) = Some s'"
    by (auto simp: Option.bind_eq_Some_conv)
  show "k = lx \<longrightarrow> inv s \<longrightarrow> inv s'"
    using inv_rx_step [of crc p "ok n" s r] r IH by (cases r) auto
qed

lemma inv_receive: "dmfe_packet_receive lx crc p ok s = Some s' \<Longrightarrow> inv s \<Longrightarrow> inv s'"
  using inv_rx_loop [of lx crc p ok 0 "s\<lparr>cont_rx_pkt_cnt := 0\<rparr>" s'] by (simp add: dmfe_packet_receive_def)

lemma inv_interrupt:
  assumes "dmfe_interrupt lx crc p ok s = Some s'" "inv (emit [Other ''spin_lock'' 0] s)"
  shows "\<exists>t. inv t \<and> s' = emit [Other ''spin_unlock'' 0] t"
proof -
  let ?s = "emit [Other ''spin_lock'' 0] s"
  obtain g s1 where 1: "in8 p (io_addr ?s) ?s = (g, s1)" by fastforce
  obtain st s2 where 2: "ior p DM9KS_ISR (iow p DM9KS_IMR DM9KS_DISINTR s1) = (st, s2)" by fastforce
  obtain s3 s4 s5 where 3: "(if st AND 0x20 \<noteq> 0
        then map_option (emit [Other ''netif_wake_queue'' 0])
          (intr_wait_link p 500 (emit [Other ''netif_stop_queue'' 0] (iow p DM9KS_ISR st s2)))
        else Some (iow p DM9KS_ISR st s2)) = Some s3"
      and 4: "(if st AND 0x01 \<noteq> 0 then dmfe_packet_receive lx crc p ok s3 else Some s3) = Some s4"
      and 5: "(if st AND 0x02 \<noteq> 0 then dmfe_tx_done p s4 else Some s4) = Some s5"
      and s': "s' = emit [Other ''spin_unlock'' 0] (let s = iow p DM9KS_IMR (if cont_rx_pkt_cnt s5 \<ge> CONT_RX_PKT_CNT
          then 0xa2 else DM9KS_REGFF) s5 in out8 p g (io_addr s) s)"
    using assms(1) 1 2 by (auto simp: dmfe_interrupt_def Let_def Option.bind_eq_Some_conv split del: if_split)
  have "inv s2" using obs_in8 [OF 1] obs_ior [OF 2] assms(2) by simp
  then have "inv s3"
    using 3 by (auto simp: lock_call_def dest!: obs_intr_wait_link split: if_split_asm)
  then have "inv s4" using 4 inv_receive by (auto split: if_split_asm)
  then have "inv s5" using 5 inv_tx_done by (auto split: if_split_asm)
  then have "inv (let s = iow p DM9KS_IMR v s5 in out8 p g (io_addr s) s)" for v by (simp add: Let_def)
  with s' show ?thesis by blast
qed

lemma inv_timeout: "dmfe_timeout lx crc p s = Some s' \<Longrightarrow> inv s \<Longrightarrow> inv s'"
  by (auto simp: dmfe_timeout_def Let_def lock_call_def intro: inv_reset inv_tx_none
      dest!: obs_tx_poll split: prod.split_asm if_split_asm)

lemma inv_open: "dmfe_open lx crc ok p s = Some (r, s') \<Longrightarrow> inv s \<Longrightarrow> inv s'"
  by (auto simp: dmfe_open_def Let_def lock_call_def dest!: inv_init split: if_split_asm)

end

subsection \<open>The packets in flight\<close>

definition tx_ok :: "'m dmfe \<Rightarrow> bool" where
  "tx_ok s \<longleftrightarrow> 0 \<le> tx_pkt_cnt s \<and> tx_pkt_cnt s \<le> 2"

interpretation txc: rx_obs tx_pkt_cnt
  by unfold_locales (simp_all add: emit_def)

text \<open>Initialising the chip empties it.\<close>

lemma init_empties: "dmfe_init_dm9000 lx crc p s = Some s' \<Longrightarrow> tx_pkt_cnt s' = 0"
  by (auto simp: dmfe_init_dm9000_def Let_def emit_def Option.bind_eq_Some_conv split: prod.splits)

lemma tx_done_ok:
  assumes "dmfe_tx_done p s = Some s'" "tx_ok s"
  shows "tx_ok s'"
proof -
  obtain nsr t where t: "ior p DM9KS_NSR s = (nsr, t)" by fastforce
  have "tx_pkt_cnt t = tx_pkt_cnt s" using t by (rule txc.obs_ior)
  with assms t show ?thesis
    by (auto simp: dmfe_tx_done_def tx_ok_def Let_def lock_call_def split: if_splits)
qed

interpretation tx: dmfe_inv tx_ok lx for lx
  by unfold_locales (use tx_done_ok in \<open>auto simp: tx_ok_def emit_def init_empties\<close>)

subsection \<open>What the receive memory holds\<close>

text \<open>
  The documented behaviour of the receive memory in 16-bit mode, seen as the selected register and the
  bytes from the read pointer on: through MRCMDX the next byte is seen and stays, through MRCMD a word is
  taken out, and no other register moves the pointer.
\<close>

definition rx_chip_ok :: "'m port \<Rightarrow> u32 \<Rightarrow> u32 \<Rightarrow> ('m \<Rightarrow> u8 \<times> u8 list) \<Rightarrow> bool" where
  "rx_chip_ok p a d view \<longleftrightarrow>
     a \<noteq> d
     \<and> (\<forall>v m. view (outb p v a m) = (v, snd (view m)))
     \<and> (\<forall>m. fst (view m) \<noteq> DM9KS_MRCMD \<longrightarrow> view (snd (inb p d m)) = view m)
     \<and> (\<forall>m x xs. view m = (DM9KS_MRCMDX, x # xs) \<longrightarrow> fst (inb p d m) = x)
     \<and> (\<forall>m x y xs. view m = (DM9KS_MRCMD, x # y # xs) \<longrightarrow>
          fst (inw p d m) = ucast x OR push_bit 8 (ucast y) \<and> view (snd (inw p d m)) = (DM9KS_MRCMD, xs))"

text \<open>A frame as the chip stores it: its status and its bytes with the checksum of the link at the end.\<close>

definition stored :: "u8 \<times> u8 list \<Rightarrow> u8 list" where
  "stored f = (case f of (st, bs) \<Rightarrow>
     [1, st] @ bytes16 (of_nat (length bs)) @ bs @ replicate (length bs mod 2) 0)"

definition good :: "u8 \<times> u8 list \<Rightarrow> bool" where
  "good f \<longleftrightarrow> fst f AND 0xbf = 0"

definition frame_ok :: "u8 \<times> u8 list \<Rightarrow> bool" where
  "frame_ok f \<longleftrightarrow> 4 \<le> length (snd f) \<and> length (snd f) < 65536"

definition payload :: "u8 \<times> u8 list \<Rightarrow> u8 list" where
  "payload f = take (length (snd f) - 4) (snd f)"

lemma bytes16_le: "bytes16 (ucast x OR push_bit 8 (ucast y)) = [x, y]"
proof -
  have "ucast (ucast x OR push_bit 8 (ucast y) :: u16) = x"
    by (rule bit_word_eqI) (simp add: bit_simps)
  moreover have "ucast (drop_bit 8 (ucast x OR push_bit 8 (ucast y) :: u16)) = y"
    by (rule bit_word_eqI) (auto simp: bit_simps dest: bit_imp_le_length)
  ultimately show ?thesis by (simp add: bytes16_def)
qed

lemma le_bytes16: "ucast (ucast (v :: u16) :: u8) OR push_bit 8 (ucast (ucast (drop_bit 8 v) :: u8)) = v"
  by (rule bit_word_eqI) (auto simp: bit_simps)

lemma reads_words:
  assumes ok: "rx_chip_ok p a d view"
  shows "view (chip s) = (DM9KS_MRCMD, xs @ rest) \<Longrightarrow> length xs = 2 * k \<Longrightarrow>
    \<exists>vs m. reads (in16 p d) k s = (vs, s\<lparr>chip := m\<rparr>) \<and> concat (map bytes16 vs) = xs
      \<and> view m = (DM9KS_MRCMD, rest)"
proof (induction k arbitrary: s xs)
  case 0
  then show ?case by (auto intro!: exI [of _ "chip s"])
next
  case (Suc k)
  then obtain x y ys where xs: "xs = x # y # ys" "length ys = 2 * k"
    by (cases xs; cases "tl xs") auto
  obtain v m where v: "inw p d (chip s) = (v, m)" by fastforce
  have v': "v = ucast x OR push_bit 8 (ucast y)" "view m = (DM9KS_MRCMD, ys @ rest)"
  proof -
    have "fst (inw p d (chip s)) = ucast x OR push_bit 8 (ucast y)
        \<and> view (snd (inw p d (chip s))) = (DM9KS_MRCMD, ys @ rest)"
      using ok Suc.prems(1) xs(1) unfolding rx_chip_ok_def by simp
    then show "v = ucast x OR push_bit 8 (ucast y)" "view m = (DM9KS_MRCMD, ys @ rest)"
      using v by auto
  qed
  obtain vs m' where "reads (in16 p d) k (s\<lparr>chip := m\<rparr>) = (vs, s\<lparr>chip := m, chip := m'\<rparr>)"
      "concat (map bytes16 vs) = ys" "view m' = (DM9KS_MRCMD, rest)"
    using Suc.IH [of "s\<lparr>chip := m\<rparr>" ys] v'(2) xs(2) by auto
  moreover have "in16 p d s = (v, s\<lparr>chip := m\<rparr>)"
    using v by (simp add: in16_def)
  ultimately show ?case
    using v'(1) xs(1) by (auto simp: bytes16_le intro!: exI [of _ "v # vs"] exI [of _ m'])
qed

lemma select_reg:
  assumes "rx_chip_ok p a d view" "r \<noteq> DM9KS_MRCMD" "io_addr s = a" "io_data s = d"
  shows "\<exists>v m. ior p r s = (v, s\<lparr>chip := m\<rparr>) \<and> view m = (r, snd (view (chip s)))"
proof -
  obtain v m where v: "inb p d (outb p r a (chip s)) = (v, m)" by fastforce
  have "view (outb p r a (chip s)) = (r, snd (view (chip s)))"
    using assms(1) by (simp add: rx_chip_ok_def)
  moreover have "view (snd (inb p d (outb p r a (chip s)))) = view (outb p r a (chip s))"
    using assms(1,2) calculation unfolding rx_chip_ok_def by simp
  ultimately show ?thesis
    using assms(3,4) v by (auto simp: ior_def out8_def in8_def intro!: exI [of _ m])
qed

text \<open>The part of a turn before the packet: the byte in front is seen and the memory read selected.\<close>

lemma rx_front:
  assumes ok: "rx_chip_ok p a d view" and s: "io_addr s = a" "io_data s = d"
    and mem: "snd (view (chip s)) = x # xs"
  shows "\<exists>h l y m m1 m2 m3 m4. ior p DM9KS_MDRAH s = (h, s\<lparr>chip := m1\<rparr>)
    \<and> ior p DM9KS_MDRAL (s\<lparr>chip := m1\<rparr>) = (l, s\<lparr>chip := m2\<rparr>)
    \<and> ior p DM9KS_MRCMDX (s\<lparr>chip := m2\<rparr>) = (y, s\<lparr>chip := m3\<rparr>)
    \<and> in8 p d (s\<lparr>chip := m3\<rparr>) = (x, s\<lparr>chip := m4\<rparr>) \<and> snd (view m4) = x # xs
    \<and> out8 p DM9KS_MRCMD a (s\<lparr>chip := m4\<rparr>) = s\<lparr>chip := m\<rparr> \<and> view m = (DM9KS_MRCMD, x # xs)"
proof -
  obtain h m1 where 1: "ior p DM9KS_MDRAH s = (h, s\<lparr>chip := m1\<rparr>)" "snd (view m1) = x # xs"
    using select_reg [OF ok, of DM9KS_MDRAH s] s mem by (auto simp: DM9KS_regs)
  obtain l m2 where 2: "ior p DM9KS_MDRAL (s\<lparr>chip := m1\<rparr>) = (l, s\<lparr>chip := m2\<rparr>)" "snd (view m2) = x # xs"
    using select_reg [OF ok, of DM9KS_MDRAL "s\<lparr>chip := m1\<rparr>"] s 1(2) by (auto simp: DM9KS_regs)
  obtain y m3 where 3: "ior p DM9KS_MRCMDX (s\<lparr>chip := m2\<rparr>) = (y, s\<lparr>chip := m3\<rparr>)"
      "view m3 = (DM9KS_MRCMDX, x # xs)"
    using select_reg [OF ok, of DM9KS_MRCMDX "s\<lparr>chip := m2\<rparr>"] s 2(2) by (auto simp: DM9KS_MRCMD_def DM9KS_MRCMDX_def)
  have "fst (inb p d m3) = x" using ok 3(2) unfolding rx_chip_ok_def by blast
  moreover have "view (snd (inb p d m3)) = view m3"
    using ok 3(2) unfolding rx_chip_ok_def by (simp add: DM9KS_MRCMD_def DM9KS_MRCMDX_def)
  ultimately obtain m4 where 4: "inb p d m3 = (x, m4)" "view m4 = (DM9KS_MRCMDX, x # xs)"
    using 3(2) by (cases "inb p d m3") auto
  have "view (outb p DM9KS_MRCMD a m4) = (DM9KS_MRCMD, x # xs)"
    using ok 4(2) unfolding rx_chip_ok_def by simp
  then show ?thesis
    using 1 2 3 4 by (auto simp: in8_def out8_def intro!: exI)
qed

lemma length_bytes16 [simp]: "length (bytes16 v) = 2"
  by (simp add: bytes16_def)

lemma stored_length: "unat (of_nat n :: u16) = n" if "n < 65536"
  using that by (simp add: unsigned_of_nat take_bit_eq_mod)

lemma bytes16_inject: "bytes16 v = bytes16 w \<Longrightarrow> v = w"
  unfolding bytes16_def by (metis le_bytes16 list.inject)

lemma round_up_2: "n + n mod 2 = 2 * ((n + 1) div (2 :: nat))"
  by presburger

text \<open>The head and the body of one stored frame.\<close>

lemma rx_head_ok:
  assumes ok: "rx_chip_ok p a d view" and s: "io_data s = d" "io_mode s = 0"
    and mem: "view (chip s) = (DM9KS_MRCMD, [1, st] @ bytes16 len @ rest)"
  shows "\<exists>m. rx_head p s = Some ((st, len), s\<lparr>chip := m\<rparr>) \<and> view m = (DM9KS_MRCMD, rest)"
proof -
  let ?hd = "[1, st] @ bytes16 len"
  have "view (chip s) = (DM9KS_MRCMD, ?hd @ rest)" using mem by simp
  moreover have "length ?hd = 2 * 2" by simp
  ultimately obtain vs m where h: "reads (in16 p d) 2 s = (vs, s\<lparr>chip := m\<rparr>)" "concat (map bytes16 vs) = ?hd"
      "view m = (DM9KS_MRCMD, rest)"
    using reads_words [OF ok] by blast
  obtain v w where vw: "vs = [v, w]"
  proof -
    have "length (concat (map bytes16 vs)) = 2 * length vs"
      by (induction vs) simp_all
    then have "length vs = 2" using h(2) by simp
    then show ?thesis using that by (cases vs; cases "tl vs") auto
  qed
  have "bytes16 v = [1, st] \<and> bytes16 w = bytes16 len"
    using h(2) vw by (simp add: bytes16_def)
  then have "ucast (drop_bit 8 v) = st" "w = len"
    using bytes16_inject [of w len] by (simp_all add: bytes16_def [of v])
  then show ?thesis
    using s h vw by (auto simp: rx_head_def intro!: exI [of _ m] simp del: reads.simps)
qed

lemma fetch_ok:
  assumes ok: "rx_chip_ok p a d view" and s: "io_data s = d" "io_mode s = 0"
    and mem: "view (chip s) = (DM9KS_MRCMD, bs @ replicate (length bs mod 2) 0 @ rest)"
  shows "\<exists>m. fetch p (length bs) s = (bs @ replicate (length bs mod 2) 0, s\<lparr>chip := m\<rparr>)
    \<and> view m = (DM9KS_MRCMD, rest)"
proof -
  let ?b = "bs @ replicate (length bs mod 2) 0" and ?k = "(length bs + 1) div 2"
  have "view (chip s) = (DM9KS_MRCMD, ?b @ rest)" using mem by simp
  moreover have "length ?b = 2 * ?k" using round_up_2 [of "length bs"] by simp
  ultimately obtain ws m where "reads (in16 p d) ?k s = (ws, s\<lparr>chip := m\<rparr>)"
      "concat (map bytes16 ws) = ?b" "view m = (DM9KS_MRCMD, rest)"
    using reads_words [OF ok] by blast
  then show ?thesis using s by (auto simp: fetch_def intro!: exI [of _ m])
qed

lemma emit_chip [simp]: "(emit cs s)\<lparr>chip := m\<rparr> = emit cs (s\<lparr>chip := m\<rparr>)" "chip (emit cs s) = chip s"
  "io_data (emit cs s) = io_data s" "io_addr (emit cs s) = io_addr s" "io_mode (emit cs s) = io_mode s"
  by (simp_all add: emit_def)

lemma count_errors_chip [simp]: "chip (count_errors st s) = chip s"
  "io_data (count_errors st s) = io_data s" "io_addr (count_errors st s) = io_addr s"
  "io_mode (count_errors st s) = io_mode s" "rx_queue (count_errors st s) = rx_queue s"
  "rx_packets (count_errors st s) = rx_packets s" "cont_rx_pkt_cnt (count_errors st s) = cont_rx_pkt_cnt s"
  "count_errors st (s\<lparr>chip := m\<rparr>) = (count_errors st s)\<lparr>chip := m\<rparr>"
  by (simp_all add: count_errors_def Let_def)

text \<open>The three kinds of turns: no packet, a packet with an error, a good packet.\<close>

lemma stored_Cons: "stored f = 1 # tl (stored f)"
  by (cases f) (simp add: stored_def)

lemma rx_turn:
  assumes ok: "rx_chip_ok p (io_addr s) (io_data s) view" and mode: "io_mode s = 0"
    and f: "frame_ok f" and mem: "snd (view (chip s)) = stored f @ rest"
  shows "\<exists>m m' h l. snd (view m') = rest
    \<and> rx_step lx crc p alloc_ok s =
       (if fst f AND 0xbf \<noteq> 0 then Some (Inr ((count_errors (fst f) s)\<lparr>chip := m'\<rparr>))
        else if \<not> alloc_ok then Some (Inl (iow p DM9KS_MDRAL l (iow p DM9KS_MDRAH h (s\<lparr>chip := m\<rparr>))))
        else let t = emit [Kmalloc ''rx_skb'' (length (snd f) + 4), Other ''eth_type_trans'' 0,
                     Other ''netif_rx'' (length (snd f) - 4), Other ''last_rx = jiffies'' 0] (s\<lparr>chip := m'\<rparr>);
                 t = t\<lparr>rx_queue := rx_queue t @ [payload f], rx_packets := rx_packets t + 1,
                       rx_bytes := rx_bytes t + of_nat (length (snd f)),
                       cont_rx_pkt_cnt := cont_rx_pkt_cnt t + 1\<rparr>
             in if cont_rx_pkt_cnt t \<ge> CONT_RX_PKT_CNT then map_option Inl (dmfe_tx_done p t) else Some (Inr t))"
proof -
  let ?n = "length (snd f)" and ?pad = "replicate (length (snd f) mod 2) (0 :: u8)"
  have n: "4 \<le> ?n" "unat (of_nat ?n :: u16) = ?n"
    using f by (simp_all add: frame_ok_def stored_length)
  have "snd (view (chip s)) = 1 # tl (stored f) @ rest" using mem stored_Cons [of f] by simp
  from rx_front [OF ok refl refl this]
  obtain h l y m m1 m2 m3 m4 where front: "ior p DM9KS_MDRAH s = (h, s\<lparr>chip := m1\<rparr>)"
      "ior p DM9KS_MDRAL (s\<lparr>chip := m1\<rparr>) = (l, s\<lparr>chip := m2\<rparr>)"
      "ior p DM9KS_MRCMDX (s\<lparr>chip := m2\<rparr>) = (y, s\<lparr>chip := m3\<rparr>)"
      "in8 p (io_data s) (s\<lparr>chip := m3\<rparr>) = (1, s\<lparr>chip := m4\<rparr>)"
      "out8 p DM9KS_MRCMD (io_addr s) (s\<lparr>chip := m4\<rparr>) = s\<lparr>chip := m\<rparr>"
      "view m = (DM9KS_MRCMD, 1 # tl (stored f) @ rest)"
    by blast
  have "view (chip (s\<lparr>chip := m\<rparr>)) = (DM9KS_MRCMD, [1, fst f] @ bytes16 (of_nat ?n) @ snd f @ ?pad @ rest)"
    using front(6) by (cases f) (simp add: stored_def)
  then obtain m5 where hd: "rx_head p (s\<lparr>chip := m\<rparr>) = Some ((fst f, of_nat ?n), s\<lparr>chip := m5\<rparr>)"
      "view m5 = (DM9KS_MRCMD, snd f @ ?pad @ rest)"
    using rx_head_ok [OF ok, of "s\<lparr>chip := m\<rparr>"] mode by auto
  have body: "\<exists>m'. fetch p ?n t = (snd f @ ?pad, t\<lparr>chip := m'\<rparr>) \<and> snd (view m') = rest"
    if "chip t = m5" "io_data t = io_data s" "io_mode t = 0" for t
    using fetch_ok [OF ok that(2,3), of "snd f" rest] hd(2) that(1) by auto
  have step: "rx_step lx crc p alloc_ok s =
    (if fst f AND 0xbf \<noteq> 0 then Some (Inr (snd (fetch p ?n (count_errors (fst f) (s\<lparr>chip := m5\<rparr>)))))
     else if \<not> alloc_ok then Some (Inl (iow p DM9KS_MDRAL l (iow p DM9KS_MDRAH h (s\<lparr>chip := m5\<rparr>))))
     else Option.bind (rx_deliver p (of_nat ?n) (emit [Kmalloc ''rx_skb'' (?n + 4)] (s\<lparr>chip := m5\<rparr>))) (\<lambda>s.
       if cont_rx_pkt_cnt s \<ge> CONT_RX_PKT_CNT then map_option Inl (dmfe_tx_done p s) else Some (Inr s)))"
    using front hd(1) n(2) by (simp add: rx_step_def)
  obtain m6 where m6: "fetch p ?n (count_errors (fst f) (s\<lparr>chip := m5\<rparr>)) =
      (snd f @ ?pad, (count_errors (fst f) (s\<lparr>chip := m5\<rparr>))\<lparr>chip := m6\<rparr>)" "snd (view m6) = rest"
    using body [of "count_errors (fst f) (s\<lparr>chip := m5\<rparr>)"] mode by auto
  obtain m7 where m7: "fetch p ?n (emit [Kmalloc ''rx_skb'' (?n + 4)] (s\<lparr>chip := m5\<rparr>)) =
      (snd f @ ?pad, (emit [Kmalloc ''rx_skb'' (?n + 4)] (s\<lparr>chip := m5\<rparr>))\<lparr>chip := m7\<rparr>)" "snd (view m7) = rest"
    using body [of "emit [Kmalloc ''rx_skb'' (?n + 4)] (s\<lparr>chip := m5\<rparr>)"] mode by auto
  have deliver: "rx_deliver p (of_nat ?n) (emit [Kmalloc ''rx_skb'' (?n + 4)] (s\<lparr>chip := m5\<rparr>)) =
      Some (let t = emit [Kmalloc ''rx_skb'' (?n + 4), Other ''eth_type_trans'' 0, Other ''netif_rx'' (?n - 4),
                  Other ''last_rx = jiffies'' 0] (s\<lparr>chip := m7\<rparr>)
            in t\<lparr>rx_queue := rx_queue t @ [payload f], rx_packets := rx_packets t + 1,
                 rx_bytes := rx_bytes t + of_nat ?n, cont_rx_pkt_cnt := cont_rx_pkt_cnt t + 1\<rparr>)"
  proof -
    have "ucast (of_nat ?n :: u16) = (of_nat ?n :: u32)" using n(2) by (metis of_nat_unat)
    moreover have "\<not> 2 < ?n mod 2" by (simp add: not_less)
    ultimately show ?thesis
      using n m7(1) by (simp add: rx_deliver_def Let_def payload_def emit_def)
  qed
  show ?thesis
  proof (cases "fst f AND 0xbf = 0")
    case True
    show ?thesis
      unfolding step deliver using True m7(2)
      by (intro exI [of _ m5] exI [of _ m7] exI [of _ h] exI [of _ l]) (simp add: Let_def)
  next
    case False
    show ?thesis
      unfolding step m6(1) using False m6(2)
      by (intro exI [of _ m5] exI [of _ m6] exI [of _ h] exI [of _ l]) simp
  qed
qed

text \<open>The end of the memory: a byte that is 0.\<close>

lemma rx_end:
  assumes ok: "rx_chip_ok p (io_addr s) (io_data s) view" and mem: "snd (view (chip s)) = 0 # rest"
  shows "\<exists>m. snd (view m) = 0 # rest \<and> rx_step lx crc p alloc_ok s = Some (Inl (s\<lparr>chip := m\<rparr>))"
proof -
  obtain h l y m1 m2 m3 m4 where "ior p DM9KS_MDRAH s = (h, s\<lparr>chip := m1\<rparr>)"
      "ior p DM9KS_MDRAL (s\<lparr>chip := m1\<rparr>) = (l, s\<lparr>chip := m2\<rparr>)"
      "ior p DM9KS_MRCMDX (s\<lparr>chip := m2\<rparr>) = (y, s\<lparr>chip := m3\<rparr>)"
      "in8 p (io_data s) (s\<lparr>chip := m3\<rparr>) = (0, s\<lparr>chip := m4\<rparr>)" "snd (view m4) = 0 # rest"
    using rx_front [OF ok refl refl mem] by blast
  then show ?thesis by (auto simp: rx_step_def intro!: exI [of _ m4])
qed

lemma rx_loop_delivers:
  assumes "rx_chip_ok p (io_addr s) (io_data s) view" "io_mode s = 0"
    and "list_all frame_ok fs" "snd (view (chip s)) = concat (map stored fs) @ 0 # rest"
    and "0 \<le> cont_rx_pkt_cnt s" "cont_rx_pkt_cnt s + int (length fs) < CONT_RX_PKT_CNT"
  shows "\<exists>s'. rx_loop lx crc p (\<lambda>_. True) n s = Some s'
    \<and> rx_queue s' = rx_queue s @ map payload (filter good fs)
    \<and> rx_packets s' = rx_packets s + of_nat (length (filter good fs))
    \<and> snd (view (chip s')) = 0 # rest"
  using assms
proof (induction fs arbitrary: s n)
  case Nil
  then obtain m where m: "snd (view m) = 0 # rest" "rx_step lx crc p True s = Some (Inl (s\<lparr>chip := m\<rparr>))"
    using rx_end [of p s view rest lx crc True] by auto
  then show ?case by (subst rx_loop.simps) simp
next
  case (Cons f fs)
  have f: "frame_ok f" and mem: "snd (view (chip s)) = stored f @ concat (map stored fs) @ 0 # rest"
    using Cons.prems(3,4) by simp_all
  define next' where "next' m = (if good f then
      (let t = emit [Kmalloc ''rx_skb'' (length (snd f) + 4), Other ''eth_type_trans'' 0,
               Other ''netif_rx'' (length (snd f) - 4), Other ''last_rx = jiffies'' 0] (s\<lparr>chip := m\<rparr>)
       in t\<lparr>rx_queue := rx_queue t @ [payload f], rx_packets := rx_packets t + 1,
            rx_bytes := rx_bytes t + of_nat (length (snd f)), cont_rx_pkt_cnt := cont_rx_pkt_cnt t + 1\<rparr>)
      else (count_errors (fst f) s)\<lparr>chip := m\<rparr>)" for m
  obtain m where m: "snd (view m) = concat (map stored fs) @ 0 # rest"
      "rx_step lx crc p True s = Some (Inr (next' m))"
    using rx_turn [OF Cons.prems(1,2) f mem, of lx crc True] Cons.prems(5,6)
    by (auto simp: good_def next'_def Let_def emit_def split: if_split_asm)
  have fields: "io_addr (next' m) = io_addr s" "io_data (next' m) = io_data s" "io_mode (next' m) = io_mode s"
    "chip (next' m) = m" "cont_rx_pkt_cnt (next' m) = cont_rx_pkt_cnt s + (if good f then 1 else 0)"
    "rx_queue (next' m) = rx_queue s @ (if good f then [payload f] else [])"
    "rx_packets (next' m) = rx_packets s + (if good f then 1 else 0)"
    by (simp_all add: next'_def Let_def emit_def)
  have lt: "0 \<le> cont_rx_pkt_cnt (next' m)" "cont_rx_pkt_cnt (next' m) + int (length fs) < CONT_RX_PKT_CNT"
    using Cons.prems(5,6) fields(5) by auto
  obtain s' where "rx_loop lx crc p (\<lambda>_. True) (Suc n) (next' m) = Some s'"
      "rx_queue s' = rx_queue (next' m) @ map payload (filter good fs)"
      "rx_packets s' = rx_packets (next' m) + of_nat (length (filter good fs))"
      "snd (view (chip s')) = 0 # rest"
    using Cons.IH [of "next' m" "Suc n", OF _ _ _ _ lt] Cons.prems(1-3) m(1) fields(1-4) by auto
  then show ?case
    using m(2) fields by (subst rx_loop.simps) auto
qed

subsection \<open>Runs of the driver\<close>

datatype event =
    Ev_xmit "nat \<Rightarrow> u8" nat | Ev_interrupt "nat \<Rightarrow> bool" | Ev_timeout | Ev_timer | Ev_open bool | Ev_stop
  | Ev_rx_mode bool bool "u8 list list"

text \<open>The kernel changes the two flags or the multicast list, and then calls the driver.\<close>

definition kernel_sets_rx_mode ::
  "linux \<Rightarrow> (u8 list \<Rightarrow> u32) \<Rightarrow> 'm port \<Rightarrow> bool \<Rightarrow> bool \<Rightarrow> u8 list list \<Rightarrow> 'm dmfe \<Rightarrow> 'm dmfe" where
  "kernel_sets_rx_mode lx crc p pr am ms s =
     set_rx_mode lx crc p (s\<lparr>promisc := pr, allmulti := am, mc_list := ms\<rparr>)"

definition dmfe_step :: "linux \<Rightarrow> (u8 list \<Rightarrow> u32) \<Rightarrow> 'm port \<Rightarrow> event \<Rightarrow> 'm dmfe \<Rightarrow> 'm dmfe option" where
  "dmfe_step lx crc p e s =
     (case e of
        Ev_xmit f len \<Rightarrow> Some (snd (dmfe_start_xmit p f len s))
      | Ev_interrupt ok \<Rightarrow> dmfe_interrupt lx crc p ok s
      | Ev_timeout \<Rightarrow> dmfe_timeout lx crc p s
      | Ev_timer \<Rightarrow> Some (dmfe_timer p s)
      | Ev_open ok \<Rightarrow> map_option snd (dmfe_open lx crc ok p s)
      | Ev_stop \<Rightarrow> map_option snd (dmfe_stop p s)
      | Ev_rx_mode pr am ms \<Rightarrow> Some (kernel_sets_rx_mode lx crc p pr am ms s))"

fun dmfe_run :: "linux \<Rightarrow> (u8 list \<Rightarrow> u32) \<Rightarrow> 'm port \<Rightarrow> event list \<Rightarrow> 'm dmfe \<Rightarrow> 'm dmfe option" where
  "dmfe_run lx crc p [] s = Some s"
| "dmfe_run lx crc p (e # es) s = Option.bind (dmfe_step lx crc p e s) (dmfe_run lx crc p es)"

lemma xmit_ok: "tx_ok s \<Longrightarrow> tx_ok (snd (dmfe_start_xmit p f len s))"
  by (auto simp: dmfe_start_xmit_def tx_ok_def tx_full_def Let_def lock_call_def case_prod_beta)

lemma tx_set_rx_mode [simp]: "tx_pkt_cnt (set_rx_mode lx crc p s) = tx_pkt_cnt s"
  by (cases lx) (simp_all add: set_rx_mode_def dm9000_hash_table_def dm9000_hash_table_26_def change_rxcr_def
      Let_def emit_def case_prod_beta)

lemma rx_mode_ok: "tx_ok (kernel_sets_rx_mode lx crc p pr am ms s) = tx_ok s"
  by (simp add: kernel_sets_rx_mode_def tx_ok_def)

lemma step_ok:
  assumes "dmfe_step lx crc p e s = Some s'" "tx_ok s"
  shows "tx_ok s'"
proof (cases e)
  case (Ev_interrupt ok)
  have "tx_ok (emit [Other ''spin_lock'' 0] s)" using assms(2) by (simp add: tx_ok_def emit_def)
  with Ev_interrupt assms(1) show ?thesis
    using tx.inv_interrupt [of lx crc p ok s s'] by (auto simp: dmfe_step_def tx_ok_def emit_def)
qed (use assms in \<open>auto simp: dmfe_step_def rx_mode_ok
      intro: xmit_ok tx.inv_timeout tx.inv_open dest: tx.obs_stop\<close>)

lemma run_ok: "dmfe_run lx crc p es s = Some s' \<Longrightarrow> tx_ok s \<Longrightarrow> tx_ok s'"
  by (induction es arbitrary: s) (auto simp: Option.bind_eq_Some_conv dest: step_ok)

subsection \<open>Properties\<close>


definition fifo_port :: "(u8 \<times> u8 list) port" where
  "fifo_port =
     \<lparr>outb = (\<lambda>v a m. (v, snd m)), outw = (\<lambda>_ _ m. m), outl = (\<lambda>_ _ m. m),
      inb = (\<lambda>_ m. (case snd m of [] \<Rightarrow> 0 | x # xs \<Rightarrow> x, m)),
      inw = (\<lambda>_ m. (case snd m of x # y # xs \<Rightarrow> (ucast x OR push_bit 8 (ucast y), (fst m, xs)) | _ \<Rightarrow> (0, m))),
      inl = (\<lambda>_ m. (0, m))\<rparr>"

lemma rx_chip_ok_fifo: "rx_chip_ok fifo_port 0 4 (\<lambda>m. m)"
  by (auto simp: rx_chip_ok_def fifo_port_def)


text \<open>
  C2. Whatever the chip answers and in whatever order packets are sent, interrupts arrive, the
  watchdog and the timer fire, the interface is opened and closed and the kernel changes its
  filter, in both trees, the count of packets in flight stays between 0 and 2: the chip has room
  for two, and a third is never handed to it.
\<close>

theorem tx_count_bounded:
  assumes "0 \<le> tx_pkt_cnt s" "tx_pkt_cnt s \<le> 2" "dmfe_run lx crc p es s = Some s'"
  shows "0 \<le> tx_pkt_cnt s' \<and> tx_pkt_cnt s' \<le> 2"
  using run_ok [OF assms(3)] assms(1,2) by (simp add: tx_ok_def)

theorem tx_count_bounded_witness:
  "0 \<le> tx_pkt_cnt (snd (dmfe_start_xmit fifo_port (\<lambda>_. 0) 60 (fresh_dmfe (0, []) 0)))
    \<and> tx_pkt_cnt (snd (dmfe_start_xmit fifo_port (\<lambda>_. 0) 60 (fresh_dmfe (0, []) 0))) \<le> 2"
  using tx_count_bounded [of "fresh_dmfe (0 :: u8, [] :: u8 list) 0" Linux_2_6 "\<lambda>_. 0" fifo_port "[Ev_xmit (\<lambda>_. 0) 60]"]
  by (simp add: fresh_dmfe_def dmfe_step_def)

end
