(* ===== verification/Dm9000Load.thy ===== *)
theory Dm9000Load
  imports Dm9000Net
begin

text \<open>
  Loading and unloading the DM9000 driver, dm9000_first/dm9dev9000c.c: mapping the chip, setting up
  the bus, searching for the chip and registering the interface. The module variable \<^verbatim>\<open>iobase\<close> is
  first the address that \<^verbatim>\<open>ioremap\<close> gave and is then moved by the search, so a mapping is named here
  by its virtual address. An access outside the mapped 1024 bytes, or a busy-wait without end, is None.
\<close>

subsection \<open>The search\<close>

text \<open>
  The driver's module variables, the two registers of the memory controller that loading sets, and
  the device. \<^verbatim>\<open>iobase\<close> is a signed \<^verbatim>\<open>int\<close>, which matters where the search compares it with its bound.
\<close>

record 'm dmmod =
  dev :: "'m dmfe"
  iobase :: u32
  mode :: int
  bwscon :: u32
  bankcon4 :: u32

definition DM9KS_ID :: u32 where "DM9KS_ID = 0x90000A46"
definition DM9010_ID :: u32 where "DM9010_ID = 0x90100A46"

definition read_id :: "'m port \<Rightarrow> u32 \<Rightarrow> 'm \<Rightarrow> u32 \<times> 'm" where
  "read_id p a m =
     (let m = outb p 0x28 a m; (v0, m) = inb p (a + 4) m;
          m = outb p 0x29 a m; (v1, m) = inb p (a + 4) m;
          m = outb p 0x2A a m; (v2, m) = inb p (a + 4) m;
          m = outb p 0x2B a m; (v3, m) = inb p (a + 4) m
      in (ucast v0 OR push_bit 8 (ucast v1) OR push_bit 16 (ucast v2) OR push_bit 24 (ucast v3), m))"

text \<open>\<^verbatim>\<open>sz\<close> is the size of the mapping.\<close>

definition mapped :: "nat \<Rightarrow> u32 \<Rightarrow> u32 \<Rightarrow> bool" where
  "mapped sz va a \<longleftrightarrow> unat va \<le> unat a \<and> unat a + 4 < unat va + sz"

fun read_srom :: "'m port \<Rightarrow> nat \<Rightarrow> nat \<Rightarrow> 'm dmfe \<Rightarrow> 'm dmfe option" where
  "read_srom p 0 i s = Some s"
| "read_srom p (Suc n) i s =
     Option.bind (read_srom_word p (of_nat i) s) (\<lambda>(w, s). read_srom p n (Suc i) (s\<lparr>srom := srom s @ [w]\<rparr>))"

text \<open>\<^verbatim>\<open>memset(db, 0, sizeof(struct board_info))\<close>\<close>

definition clear_board :: "'m dmfe \<Rightarrow> 'm dmfe" where
  "clear_board s = s\<lparr>io_addr := 0, io_data := 0, op_mode := 0, io_mode := 0, Speed := 0, chip_revision := 0,
     rx_csum := 0, reset_counter := 0, reset_tx_timeout := 0, tx_pkt_cnt := 0, cont_rx_pkt_cnt := 0, srom := [],
     tx_packets := 0, tx_bytes := 0, tx_errors := 0, rx_packets := 0, rx_bytes := 0, rx_fifo_errors := 0,
     rx_crc_errors := 0, rx_length_errors := 0\<rparr>"

definition chip_found :: "'m port \<Rightarrow> u32 \<Rightarrow> 'm dmfe \<Rightarrow> 'm dmfe option" where
  "chip_found p a s =
     (let s = (clear_board s)\<lparr>io_addr := a, io_data := a + 4\<rparr>;
          (rev, s) = ior p DM9KS_CHIPR s;
          s = s\<lparr>chip_revision := rev\<rparr>;
          (chip_info, s) = ior p 0x43 s;
          s = s\<lparr>base_addr := a\<rparr>
      in map_option (\<lambda>s.
           let id_val = ucast (srom s ! 4) OR push_bit 16 (ucast (srom s ! 5)) :: u32;
               HasEEPROM = (id_val = DM9KS_ID \<or> id_val = DM9010_ID)
           in s\<lparr>dev_addr := (if HasEEPROM then take 6 (concat (map bytes16 (srom s)))
                             else [0x00, 0x60, 0x6E, 0x33, 0x44, 0x55])\<rparr>) (read_srom p 64 0 s))"

partial_function (option) dmfe_probe1 :: "'m port \<Rightarrow> bool \<Rightarrow> nat \<Rightarrow> u32 \<Rightarrow> 'm dmmod \<Rightarrow> (int \<times> 'm dmmod) option" where
  "dmfe_probe1 p region_ok sz va m =
     (if \<not> mapped sz va (iobase m) then None
      else let a = iobase m;
               ic = read_id p a (chip (dev m));
               m = m\<lparr>dev := (dev m)\<lparr>chip := snd ic\<rparr>\<rparr>;
               m' = m\<lparr>iobase := a + 0x10\<rparr>
           in if fst ic = DM9KS_ID \<or> fst ic = DM9010_ID
              then (if \<not> region_ok then Some (- ENODEV, m)
                    else map_option (\<lambda>d. (0, m'\<lparr>dev := d\<rparr>))
                           (chip_found p a (emit [Request_region (uint a) 2] (dev m))))
              else if sint (iobase m') \<le> 0x370 then dmfe_probe1 p region_ok sz va m'
              else Some (- ENODEV, m'))"

definition on_dev :: "('m dmfe \<Rightarrow> 'm dmfe) \<Rightarrow> 'm dmmod \<Rightarrow> 'm dmmod" where
  "on_dev f m = m\<lparr>dev := f (dev m)\<rparr>"

definition dmfe_probe :: "'m port \<Rightarrow> bool \<Rightarrow> bool \<Rightarrow> int \<Rightarrow> u32 \<Rightarrow> 'm dmmod \<Rightarrow> (int \<times> 'm dmmod) option" where
  "dmfe_probe p alloc_ok region_ok register_err va m =
     (if \<not> alloc_ok then Some (- ENOMEM, m)
      else map_option (\<lambda>(err, m).
             if err \<noteq> 0 then (err, on_dev (emit [Free_netdev ''dm9000'']) m)
             else if register_err \<noteq> 0
             then (register_err, on_dev (emit [Release_region (uint (base_addr (dev m))), Free_netdev ''dm9000'']) m)
             else (0, on_dev (emit [Register_netdev ''dm9000'']) m))
           (dmfe_probe1 p region_ok 1024 va (on_dev (emit [Alloc_netdev ''dm9000'']) m)))"

subsection \<open>Loading and unloading\<close>

text \<open>\<^verbatim>\<open>va\<close>, \<^verbatim>\<open>vb\<close> and \<^verbatim>\<open>vk\<close> are the addresses \<^verbatim>\<open>ioremap\<close> returns for the chip and the two registers.\<close>

definition dm9000c_init ::
  "'m port \<Rightarrow> bool \<Rightarrow> bool \<Rightarrow> int \<Rightarrow> u32 \<Rightarrow> u32 \<Rightarrow> u32 \<Rightarrow> 'm dmmod \<Rightarrow> (int \<times> 'm dmmod) option" where
  "dm9000c_init p alloc_ok region_ok register_err va vb vk m =
     (let m = on_dev (emit [Ioremap va 1024, Ioremap vb 4, Ioremap vk 4]) (m\<lparr>iobase := va\<rparr>);
          m = m\<lparr>bwscon := set_mask (push_bit 16 1) (clear_mask (push_bit 16 0xf) (bwscon m))\<rparr>;
          m = m\<lparr>bankcon4 := push_bit 8 7 OR push_bit 6 1\<rparr>;
          m = on_dev (emit [Iounmap vb, Iounmap vk]) m;
          m = on_dev (\<lambda>s. s\<lparr>media_mode := (if mode m = 0 \<or> mode m = 1 \<or> mode m = 4 \<or> mode m = 5
                                              then word_of_int (mode m) else DM9KS_AUTO)\<rparr>) m
      in dmfe_probe p alloc_ok region_ok register_err va m)"

definition dm9000c_exit :: "'m dmmod \<Rightarrow> 'm dmmod" where
  "dm9000c_exit m =
     on_dev (emit [Unregister_netdev ''dm9000'', Release_region (uint (base_addr (dev m))),
                   Free_netdev ''dm9000'', Iounmap (iobase m)]) m"

subsection \<open>What loading leaves in the kernel\<close>

text \<open>Access to the chip calls nothing else.\<close>

lemma kt_ior [simp]: "kt (snd (ior p r s)) = kt s" "base_addr (snd (ior p r s)) = base_addr s"
  by (auto simp: ior_def in8_def out8_def split: prod.splits)

lemma kt_iow [simp]: "kt (iow p r v s) = kt s" "base_addr (iow p r v s) = base_addr s"
  by (simp_all add: iow_def out8_def Let_def)

lemma kt_wait_clear:
  "wait_clear p r s = Some s' \<Longrightarrow> kt s' = kt s \<and> base_addr s' = base_addr s"
  by (rule wait_clear.raw_induct [of "\<lambda>p r s s'. kt s' = kt s \<and> base_addr s' = base_addr s", rotated])
    (auto simp: Let_def split: if_split_asm)

lemma kt_read_srom_word:
  "read_srom_word p i s = Some (w, s') \<Longrightarrow> kt s' = kt s \<and> base_addr s' = base_addr s"
  by (auto simp: read_srom_word_def Let_def case_prod_beta dest!: kt_wait_clear)

lemma kt_read_srom:
  "read_srom p n i s = Some s' \<Longrightarrow> kt s' = kt s \<and> base_addr s' = base_addr s"
proof (induction n arbitrary: i s)
  case (Suc n)
  then obtain w t where "read_srom_word p (of_nat i) s = Some (w, t)"
      "read_srom p n (Suc i) (t\<lparr>srom := srom t @ [w]\<rparr>) = Some s'"
    by (auto simp: Option.bind_eq_Some_conv)
  with Suc.IH [of "Suc i" "t\<lparr>srom := srom t @ [w]\<rparr>"] show ?case by (simp add: kt_read_srom_word)
qed simp

lemma kt_chip_found:
  "chip_found p a s = Some s' \<Longrightarrow> kt s' = kt s \<and> base_addr s' = a"
  by (auto simp: chip_found_def clear_board_def Let_def case_prod_beta dest!: kt_read_srom)

definition probe_result :: "nat \<Rightarrow> u32 \<Rightarrow> 'm dmmod \<Rightarrow> int \<times> 'm dmmod \<Rightarrow> bool" where
  "probe_result sz va m r \<longleftrightarrow>
     (if fst r = 0
      then mapped sz va (base_addr (dev (snd r))) \<and> iobase (snd r) = base_addr (dev (snd r)) + 0x10
           \<and> kt (dev (snd r)) = kt (dev m) @ [Request_region (uint (base_addr (dev (snd r)))) 2]
      else fst r = - ENODEV \<and> kt (dev (snd r)) = kt (dev m))"

lemma probe1_result: "dmfe_probe1 p ok sz va m = Some r \<Longrightarrow> probe_result sz va m r"
proof (rule dmfe_probe1.raw_induct [of "\<lambda>p ok sz va m r. probe_result sz va m r", rotated])
  fix rec :: "'a port \<Rightarrow> bool \<Rightarrow> nat \<Rightarrow> u32 \<Rightarrow> 'a dmmod \<Rightarrow> (int \<times> 'a dmmod) option"
    and p :: "'a port" and ok sz va and m :: "'a dmmod" and r
  let ?a = "iobase m" and ?ic = "read_id p (iobase m) (chip (dev m))"
  let ?m = "m\<lparr>dev := (dev m)\<lparr>chip := snd ?ic\<rparr>\<rparr>"
  assume IH: "\<And>p ok sz va m r. rec p ok sz va m = Some r \<Longrightarrow> probe_result sz va m r"
    and r: "(if \<not> mapped sz va (iobase m) then None
      else let a = iobase m; ic = read_id p a (chip (dev m)); m = m\<lparr>dev := (dev m)\<lparr>chip := snd ic\<rparr>\<rparr>;
               m' = m\<lparr>iobase := a + 0x10\<rparr>
           in if fst ic = DM9KS_ID \<or> fst ic = DM9010_ID
              then (if \<not> ok then Some (- ENODEV, m)
                    else map_option (\<lambda>d. (0, m'\<lparr>dev := d\<rparr>))
                           (chip_found p a (emit [Request_region (uint a) 2] (dev m))))
              else if sint (iobase m') \<le> 0x370 then rec p ok sz va m' else Some (- ENODEV, m')) = Some r"
  show "probe_result sz va m r"
  proof (cases "fst ?ic = DM9KS_ID \<or> fst ?ic = DM9010_ID")
    case True
    with r show ?thesis
      by (auto simp: Let_def probe_result_def split: if_split_asm dest!: kt_chip_found)
  next
    case False
    with r IH [of p ok sz va "?m\<lparr>iobase := ?a + 0x10\<rparr>" r] show ?thesis
      by (auto simp: Let_def probe_result_def split: if_split_asm)
  qed
qed

lemma mapped_moves: "mapped sz va a \<Longrightarrow> sz \<le> 4096 \<Longrightarrow> a + 0x10 \<noteq> va"
proof
  assume m: "mapped sz va a" "sz \<le> 4096" "a + 0x10 = va"
  then have "a = va - 0x10" by (simp add: algebra_simps)
  then show False
    using m(1,2) by (cases "unat va < 16") (auto simp: mapped_def unat_sub_if_size word_le_nat_alt word_size)
qed

subsection \<open>A search without a chip\<close>

lemma sint_high:
  assumes "2 ^ 31 \<le> unat (w :: u32)"
  shows "sint w < 0"
proof -
  have "unat w < 2 ^ 32" using unsigned_less [of w, where 'a = nat] by simp
  with assms have "unat w div 2 ^ 31 = 1" by simp
  then have "bit (unat w) 31" by (simp add: bit_iff_odd)
  then have "bit w 31" by (simp add: bit_unsigned_iff)
  then show ?thesis using bit_last_iff [of w] by simp
qed

text \<open>
  The bound of the search was meant for port numbers. A kernel address is negative as an \<^verbatim>\<open>int\<close>, so
  the bound never ends the search, and it runs past the end of the mapping.
\<close>

lemma search_overruns:
  assumes "\<And>a c. fst (read_id p a c) \<noteq> DM9KS_ID \<and> fst (read_id p a c) \<noteq> DM9010_ID"
    and va: "2 ^ 31 \<le> unat va" "unat va + 2048 < 2 ^ 32"
  shows "unat va \<le> unat (iobase m) \<Longrightarrow> unat (iobase m) < unat va + 1040 \<Longrightarrow> dmfe_probe1 p ok 1024 va m = None"
proof (induction "unat va + 1040 - unat (iobase m)" arbitrary: m rule: less_induct)
  case less
  let ?m = "m\<lparr>dev := (dev m)\<lparr>chip := snd (read_id p (iobase m) (chip (dev m)))\<rparr>, iobase := iobase m + 0x10\<rparr>"
  show ?case
  proof (cases "mapped 1024 va (iobase m)")
    case False
    then show ?thesis by (subst dmfe_probe1.simps) simp
  next
    case True
    then have 1: "unat (iobase m + 0x10) = unat (iobase m) + 16"
      using va by (subst unat_add_lem [THEN iffD1]) (simp_all add: mapped_def)
    then have "sint (iobase m + 0x10) < 0" using less.prems va by (intro sint_high) simp
    moreover have "dmfe_probe1 p ok 1024 va ?m = None"
      using less.hyps [of ?m] less.prems 1 True by (simp add: mapped_def)
    ultimately show ?thesis
      using True assms(1) [of "iobase m" "chip (dev m)"] by (subst dmfe_probe1.simps) (simp add: Let_def)
  qed
qed

subsection \<open>Properties\<close>

text \<open>
  The mapping of the chip is never given back at the address it was made at: a load that fails
  leaves it behind, and after a load that succeeds the unload gives back everything else but passes
  \<^verbatim>\<open>iounmap\<close> the address that the search has moved on.
\<close>

theorem unload_unmaps_elsewhere:
  assumes "dm9000c_init p alloc_ok region_ok register_err va vb vk m = Some (r, m')"
    and "kt (dev m) = []" "va \<noteq> vb" "va \<noteq> vk" "vb \<noteq> vk"
  shows "if r = 0
    then (\<exists>a. held (kt (dev m')) = [Io_map va, Netdev ''dm9000'', Io_region a, Netdev_reg ''dm9000''])
         \<and> held (kt (dev (dm9000c_exit m'))) = [Io_map va]
    else held (kt (dev m')) = [Io_map va]"
proof -
  obtain m0 where "dm9000c_init p alloc_ok region_ok register_err va vb vk m =
        dmfe_probe p alloc_ok region_ok register_err va m0"
      and kt0: "kt (dev m0) = [Ioremap va 1024, Ioremap vb 4, Ioremap vk 4, Iounmap vb, Iounmap vk]"
    using that [OF dm9000c_init_def [of p alloc_ok region_ok register_err va vb vk m, unfolded Let_def]] assms(2)
    by (simp add: on_dev_def)
  then have init: "dmfe_probe p alloc_ok region_ok register_err va m0 = Some (r, m')"
    using assms(1) by simp
  show ?thesis
  proof (cases alloc_ok)
    case False
    with init kt0 assms(3-5) show ?thesis by (auto simp: dmfe_probe_def)
  next
    case True
    let ?m1 = "on_dev (emit [Alloc_netdev ''dm9000'']) m0"
    obtain e m2 where m2: "dmfe_probe1 p region_ok 1024 va ?m1 = Some (e, m2)"
        "(r, m') = (if e \<noteq> 0 then (e, on_dev (emit [Free_netdev ''dm9000'']) m2)
          else if register_err \<noteq> 0
          then (register_err, on_dev (emit [Release_region (uint (base_addr (dev m2))), Free_netdev ''dm9000'']) m2)
          else (0, on_dev (emit [Register_netdev ''dm9000'']) m2))"
      using init True by (auto simp: dmfe_probe_def)
    have "probe_result 1024 va ?m1 (e, m2)" using m2(1) by (rule probe1_result)
    then show ?thesis
      using m2(2) kt0 assms(3-5) mapped_moves [of 1024 va "base_addr (dev m2)"]
      by (auto simp: probe_result_def dm9000c_exit_def on_dev_def emit_def split: if_split_asm)
  qed
qed

text \<open>A chip that answers with its identification and has an empty EEPROM.\<close>

definition id_byte :: "u8 \<Rightarrow> u8" where
  "id_byte r = (if r = 0x28 then 0x46 else if r = 0x29 then 0x0A else if r = 0x2B then 0x90 else 0)"

definition id_port :: "u8 port" where
  "id_port = \<lparr>outb = (\<lambda>v _ _. v), outw = (\<lambda>_ _ m. m), outl = (\<lambda>_ _ m. m),
     inb = (\<lambda>_ m. (id_byte m, m)), inw = (\<lambda>_ m. (0, m)), inl = (\<lambda>_ m. (0, m))\<rparr>"

definition unloaded :: "u8 dmmod" where
  "unloaded = \<lparr>dev = fresh_dmfe 0 0, iobase = 0x300, mode = 8, bwscon = 0, bankcon4 = 0\<rparr>"

lemma id_ior: "ior id_port r s = (id_byte r, s\<lparr>chip := r\<rparr>)"
  by (simp add: ior_def in8_def out8_def id_port_def)

lemma id_read_srom: "\<exists>s'. read_srom id_port n i s = Some s'"
proof (induction n arbitrary: i s)
  case (Suc n)
  have "wait_clear id_port DM9KS_EPCR t = Some (t\<lparr>chip := DM9KS_EPCR\<rparr>)" for t :: "u8 dmfe"
    by (subst wait_clear.simps) (simp add: id_ior id_byte_def DM9KS_EPCR_def)
  with Suc.IH show ?case by (simp add: read_srom_word_def id_ior Let_def)
qed simp

lemma id_loads: "\<exists>m'. dm9000c_init id_port True True 0 0xd0000000 0xd0001000 0xd0002000 unloaded = Some (0, m')"
proof -
  have id: "fst (read_id id_port a c) = DM9KS_ID" for a c
    by (simp add: read_id_def id_port_def id_byte_def DM9KS_ID_def)
  have found: "\<exists>s'. chip_found id_port a s = Some s'" for a s
    using id_read_srom by (simp add: chip_found_def Let_def id_ior split: prod.split)
  have "mapped 1024 0xd0000000 0xd0000000" by (simp add: mapped_def)
  then have "\<exists>m'. dmfe_probe1 id_port True 1024 0xd0000000 m = Some (0, m')" if "iobase m = 0xd0000000" for m
    using that id found by (subst dmfe_probe1.simps) (simp add: Let_def)
  moreover have "iobase (on_dev f m) = iobase m" for f and m :: "u8 dmmod" by (simp add: on_dev_def)
  ultimately show ?thesis
    by (simp add: dm9000c_init_def dmfe_probe_def Let_def)
qed

theorem unload_unmaps_elsewhere_witness:
  "\<exists>m'. dm9000c_init id_port True True 0 0xd0000000 0xd0001000 0xd0002000 unloaded = Some (0, m')
    \<and> held (kt (dev (dm9000c_exit m'))) = [Io_map 0xd0000000]"
proof -
  obtain m' where m': "dm9000c_init id_port True True 0 0xd0000000 0xd0001000 0xd0002000 unloaded = Some (0, m')"
    using id_loads by blast
  have "kt (dev unloaded) = []" by (simp add: unloaded_def fresh_dmfe_def)
  from unload_unmaps_elsewhere [OF m' this] m' show ?thesis by simp
qed

end
