(* ===== verification/Dm9000Old.thy ===== *)
theory Dm9000Old
  imports Dm9000Load
begin

text \<open>
  The DM9000 drivers of the 2.6.22.6 tree: dm9000c/dm9000c_driver.c, the intermediate version
  dm9dev9000c_100ask.c, and the one the maker of the chip supplied. Their text is that of the 3.4.2
  driver but for the multicast function, which is in Dm9000, a check in the search, and loading; those
  are here, together with the filter of the chip that both multicast functions program.
\<close>

subsection \<open>The filter of the chip\<close>

text \<open>
  What the data sheet documents: registers 0x05 and 0x10 to 0x1d store what is written. A frame is
  taken when bit 1 of register 5 is set, when it is for the station address in 0x10 to 0x15, when it is
  for a group and bit 3 is set or its bit in the table at 0x16 to 0x1d, and when it is broadcast and the
  last bit of the table is set. The chip finds the bit by the low six bits of the same checksum. Nothing
  is said of what a write to register 0 does to them, which may reset the chip.
\<close>

record filt =
  fsel :: u8
  fregs :: "u8 \<Rightarrow> u8"

definition filter_reg :: "u8 \<Rightarrow> bool" where
  "filter_reg r \<longleftrightarrow> r = DM9KS_RXCR \<or> 0x10 \<le> r \<and> r \<le> 0x1d"

definition filter_chip_ok :: "'m port \<Rightarrow> u32 \<Rightarrow> u32 \<Rightarrow> ('m \<Rightarrow> filt) \<Rightarrow> bool" where
  "filter_chip_ok p a d view \<longleftrightarrow>
     a \<noteq> d
     \<and> (\<forall>v m. view (outb p v a m) = (view m)\<lparr>fsel := v\<rparr>)
     \<and> (\<forall>v m. fsel (view m) \<noteq> DM9KS_NCR \<longrightarrow> view (outb p v d m) =
           (if filter_reg (fsel (view m)) then (view m)\<lparr>fregs := (fregs (view m))(fsel (view m) := v)\<rparr> else view m))
     \<and> (\<forall>m. (filter_reg (fsel (view m)) \<longrightarrow> fst (inb p d m) = fregs (view m) (fsel (view m)))
            \<and> view (snd (inb p d m)) = view m)"

definition hash_of :: "(u8 list \<Rightarrow> u32) \<Rightarrow> u8 list \<Rightarrow> nat" where
  "hash_of crc a = unat (crc a AND 0x3f)"

definition accepts :: "(u8 list \<Rightarrow> u32) \<Rightarrow> (u8 \<Rightarrow> u8) \<Rightarrow> u8 list \<Rightarrow> bool" where
  "accepts crc f dst \<longleftrightarrow>
     bit (f DM9KS_RXCR) 1 \<or> dst = map f [0x10, 0x11, 0x12, 0x13, 0x14, 0x15]
     \<or> bit (dst ! 0) 0 \<and> (bit (f DM9KS_RXCR) 3
           \<or> bit (f (of_nat (0x16 + hash_of crc dst div 8))) (hash_of crc dst mod 8))
     \<or> dst = replicate 6 0xff \<and> bit (f 0x1d) 7"

definition regs :: "('m \<Rightarrow> filt) \<Rightarrow> 'm dmfe \<Rightarrow> u8 \<Rightarrow> u8" where
  "regs view s = fregs (view (chip s))"

lemma regs_emit [simp]: "regs view (emit cs s) = regs view s"
  by (simp add: regs_def emit_def)

lemma ncr_not_in_filter: "filter_reg r \<Longrightarrow> r \<noteq> DM9KS_NCR"
  by (auto simp: filter_reg_def DM9KS_regs)

lemma regs_iow:
  assumes "filter_chip_ok p (io_addr s) (io_data s) view" "filter_reg r"
  shows "regs view (iow p r v s) = (regs view s)(r := v)"
  using assms ncr_not_in_filter [of r] by (simp add: regs_def iow_def out8_def filter_chip_ok_def Let_def)

lemma frame_iow [simp]:
  "io_addr (iow p r v s) = io_addr s" "io_data (iow p r v s) = io_data s" "mc_list (iow p r v s) = mc_list s"
  "dev_addr (iow p r v s) = dev_addr s" "promisc (iow p r v s) = promisc s" "allmulti (iow p r v s) = allmulti s"
  by (simp_all add: iow_def out8_def Let_def)

lemma regs_iows:
  assumes "filter_chip_ok p (io_addr s) (io_data s) view" "\<forall>(r, v)\<in>set ws. filter_reg r"
  shows "regs view (iows p ws s) = fold (\<lambda>(r, v) f. f(r := v)) ws (regs view s)
    \<and> io_addr (iows p ws s) = io_addr s \<and> io_data (iows p ws s) = io_data s \<and> mc_list (iows p ws s) = mc_list s"
  using assms
proof (induction ws arbitrary: s)
  case (Cons w ws)
  obtain r v where w: "w = (r, v)" by (cases w)
  have "iows p (w # ws) s = iows p ws (iow p r v s)" by (simp add: iows_def w)
  then show ?case
    using Cons.IH [of "iow p r v s"] Cons.prems regs_iow [of p s view r v] by (simp add: w fun_upd_def)
qed (simp add: iows_def)

lemma regs_ior:
  assumes "filter_chip_ok p (io_addr s) (io_data s) view" "filter_reg r" "ior p r s = (v, t)"
  shows "v = regs view s r \<and> regs view t = regs view s \<and> io_addr t = io_addr s \<and> io_data t = io_data s
    \<and> mc_list t = mc_list s \<and> dev_addr t = dev_addr s \<and> promisc t = promisc s \<and> allmulti t = allmulti s"
  using assms unfolding filter_chip_ok_def
  by (auto simp: regs_def ior_def in8_def out8_def split: prod.split_asm)
   (metis filt.select_convs(1,2) filt.surjective filt.update_convs(1) fst_conv snd_conv)+

lemma rxcr_in_filter: "filter_reg DM9KS_RXCR"
  by (simp add: filter_reg_def)

lemma regs_change_rxcr:
  assumes "filter_chip_ok p (io_addr s) (io_data s) view"
  shows "regs view (change_rxcr p g s) = (regs view s)(DM9KS_RXCR := g (regs view s DM9KS_RXCR))
    \<and> io_addr (change_rxcr p g s) = io_addr s \<and> io_data (change_rxcr p g s) = io_data s
    \<and> mc_list (change_rxcr p g s) = mc_list s \<and> dev_addr (change_rxcr p g s) = dev_addr s
    \<and> allmulti (change_rxcr p g s) = allmulti s"
proof -
  obtain v t where t: "ior p DM9KS_RXCR s = (v, t)" by fastforce
  note r = rxcr_in_filter
  from regs_ior [OF assms r t] regs_iow [of p t view DM9KS_RXCR "g v"] assms r show ?thesis
    by (simp add: change_rxcr_def t)
qed

text \<open>The table has the bits of the listed addresses, and the broadcast bit.\<close>

lemma hash_of_less: "hash_of crc a < 64"
proof -
  have "(0x3f :: u32) = mask 6" by (simp add: mask_eq_exp_minus_1)
  then have "crc a AND 0x3f = take_bit 6 (crc a)" by (simp add: take_bit_eq_mask)
  then have "hash_of crc a = take_bit 6 (unat (crc a))" by (simp add: hash_of_def unsigned_take_bit_eq)
  then show ?thesis using take_bit_nat_less_exp [of 6 "unat (crc a)"] by simp
qed

lemma hash_fold:
  assumes "length t = 4" "h < 64"
  shows "length (fold (\<lambda>a t. let k = hash_of crc a
             in t[k div 16 := t ! (k div 16) OR push_bit (k mod 16) 1]) ms t) = 4
    \<and> (bit (fold (\<lambda>a t. let k = hash_of crc a
             in t[k div 16 := t ! (k div 16) OR push_bit (k mod 16) 1]) ms t ! (h div 16) :: u16) (h mod 16)
       \<longleftrightarrow> bit (t ! (h div 16)) (h mod 16) \<or> h \<in> hash_of crc ` set ms)"
  using assms(1)
proof (induction ms arbitrary: t)
  case (Cons a ms)
  let ?k = "hash_of crc a"
  let ?t = "t[?k div 16 := t ! (?k div 16) OR push_bit (?k mod 16) 1]"
  have "?k < 64" by (rule hash_of_less)
  then have "?k div 16 < length t" using Cons.prems by simp
  moreover have "bit (push_bit (?k mod 16) (1 :: u16)) (h mod 16) \<longleftrightarrow> h mod 16 = ?k mod 16"
    unfolding bit_push_bit_iff by (auto simp: bit_1_iff)
  moreover have "h = ?k \<longleftrightarrow> h div 16 = ?k div 16 \<and> h mod 16 = ?k mod 16" by (metis div_mult_mod_eq)
  ultimately have "bit (?t ! (h div 16)) (h mod 16) \<longleftrightarrow> bit (t ! (h div 16)) (h mod 16) \<or> h = ?k"
    by (auto simp: nth_list_update bit_or_iff)
  with Cons.IH [of ?t] Cons.prems show ?case by (auto simp: Let_def)
qed simp

text \<open>What the registers must hold, and what the chip then takes.\<close>

definition takes :: "(u8 list \<Rightarrow> u32) \<Rightarrow> 'm dmfe \<Rightarrow> u8 list \<Rightarrow> bool" where
  "takes crc s dst \<longleftrightarrow>
     promisc s \<or> dst = dev_addr s
     \<or> bit (dst ! 0) 0 \<and> (allmulti s \<or> hash_of crc dst \<in> hash_of crc ` set (mc_list s) \<or> hash_of crc dst = 63)
     \<or> dst = replicate 6 0xff"

definition programmed :: "u16 list \<Rightarrow> 'm dmfe \<Rightarrow> (u8 \<Rightarrow> u8) \<Rightarrow> bool" where
  "programmed t s f \<longleftrightarrow>
     (bit (f DM9KS_RXCR) 1 \<longleftrightarrow> promisc s) \<and> (bit (f DM9KS_RXCR) 3 \<longleftrightarrow> allmulti s)
     \<and> map f [0x10, 0x11, 0x12, 0x13, 0x14, 0x15] = dev_addr s
     \<and> (\<forall>i<4. f (of_nat (0x16 + 2 * i)) = ucast (t ! i) \<and> f (of_nat (0x17 + 2 * i)) = ucast (drop_bit 8 (t ! i)))"

lemma bit_low_byte: "bit (ucast (w :: u16) :: u8) n \<longleftrightarrow> n < 8 \<and> bit w n"
  by (simp add: bit_ucast_iff numeral_eq_Suc)

lemma half_index:
  "h div 16 = h div 8 div 2" "h mod 16 = 8 * (h div 8 mod 2) + h mod 8" for h :: nat
  using div_mult2_eq [of h 8 2] mod_mult2_eq [of h 8 2] by simp_all

lemma bits_of_table:
  assumes "\<forall>i<4. f (of_nat (0x16 + 2 * i)) = ucast (t ! i) \<and> f (of_nat (0x17 + 2 * i)) = ucast (drop_bit 8 (t ! i))"
    and "h < 64"
  shows "bit (f (of_nat (0x16 + h div 8)) :: u8) (h mod 8) \<longleftrightarrow> bit (t ! (h div 16) :: u16) (h mod 16)"
proof (cases "even (h div 8)")
  case True
  then have "h div 8 = 2 * (h div 16)" "h mod 16 = h mod 8" using half_index [of h] by auto
  moreover have "f (of_nat (0x16 + 2 * (h div 16))) = ucast (t ! (h div 16))" using assms by simp
  ultimately show ?thesis by (simp add: bit_low_byte)
next
  case False
  then have "h div 8 = 2 * (h div 16) + 1" "h mod 16 = h mod 8 + 8"
    using half_index [of h] by (auto simp: odd_iff_mod_2_eq_one)
  moreover have "f (of_nat (0x17 + 2 * (h div 16))) = ucast (drop_bit 8 (t ! (h div 16)))" using assms by simp
  ultimately show ?thesis by (simp add: bit_low_byte bit_drop_bit_eq add.commute)
qed

lemma programmed_takes:
  assumes "programmed (hash_bits crc (mc_list s)) s f"
  shows "accepts crc f dst \<longleftrightarrow> takes crc s dst"
proof -
  let ?t = "hash_bits crc (mc_list s)"
  have t: "bit (?t ! (h div 16)) (h mod 16) \<longleftrightarrow> h = 63 \<or> h \<in> hash_of crc ` set (mc_list s)" if "h < 64" for h
  proof -
    have "bit ([0, 0, 0, 0x8000 :: u16] ! (h div 16)) (h mod 16) \<longleftrightarrow> h = 63"
    proof (cases "h div 16 = 3")
      case True
      have "(0x8000 :: u16) = push_bit 15 1" by simp
      then have "bit (0x8000 :: u16) (h mod 16) \<longleftrightarrow> h mod 16 = 15"
        by (auto simp only: bit_push_bit_iff bit_1_iff) auto
      with True show ?thesis by (auto, presburger)
    next
      case False
      then have "h div 16 \<in> {0, 1, 2}" using that by auto
      then show ?thesis using that by (auto simp: numeral_2_eq_2)
    qed
    with hash_fold [of "[0, 0, 0, 0x8000]" h crc "mc_list s"] that show ?thesis
      by (simp add: hash_bits_def hash_of_def Let_def)
  qed
  have f: "bit (f (of_nat (0x16 + h div 8))) (h mod 8) \<longleftrightarrow> h = 63 \<or> h \<in> hash_of crc ` set (mc_list s)" if "h < 64" for h
    using bits_of_table [of f ?t h] t [OF that] that assms by (simp add: programmed_def)
  have "bit (f 0x1d) 7" using f [of 63] by simp
  then show ?thesis
    using f [OF hash_of_less [of crc dst]] assms by (auto simp: accepts_def takes_def programmed_def)
qed

text \<open>The writes of both versions.\<close>

definition addr_writes :: "u8 list \<Rightarrow> (u8 \<times> u8) list" where
  "addr_writes da = zip [0x10, 0x11, 0x12, 0x13, 0x14, 0x15] da"

definition table_writes :: "u16 list \<Rightarrow> (u8 \<times> u8) list" where
  "table_writes t = [(0x16, ucast (t ! 0)), (0x17, ucast (drop_bit 8 (t ! 0))),
     (0x18, ucast (t ! 1)), (0x19, ucast (drop_bit 8 (t ! 1))), (0x1a, ucast (t ! 2)), (0x1b, ucast (drop_bit 8 (t ! 2))),
     (0x1c, ucast (t ! 3)), (0x1d, ucast (drop_bit 8 (t ! 3)))]"

lemma writes_in_filter:
  "\<forall>(r, v)\<in>set (addr_writes da). filter_reg r" "\<forall>(r, v)\<in>set (table_writes t). filter_reg r"
proof -
  have "\<forall>r\<in>set [0x10, 0x11, 0x12, 0x13, 0x14, 0x15]. filter_reg r" by (simp add: filter_reg_def)
  then show "\<forall>(r, v)\<in>set (addr_writes da). filter_reg r" by (auto simp: addr_writes_def dest: set_zip_leftD)
qed (simp add: table_writes_def filter_reg_def)

lemma all_less_4: "(\<forall>i < (4 :: nat). P i) \<longleftrightarrow> P 0 \<and> P 1 \<and> P 2 \<and> P 3"
  by (auto simp: less_Suc_eq numeral_eq_Suc)

lemma writes_result:
  assumes "length da = 6" and f': "f' = fold (\<lambda>(r, v) f. f(r := v)) (addr_writes da @ table_writes t) f"
  shows "map f' [0x10, 0x11, 0x12, 0x13, 0x14, 0x15] = da" "f' DM9KS_RXCR = f DM9KS_RXCR"
    "\<forall>i<4. f' (of_nat (0x16 + 2 * i)) = ucast (t ! i) \<and> f' (of_nat (0x17 + 2 * i)) = ucast (drop_bit 8 (t ! i))"
proof -
  obtain a0 a1 a2 a3 a4 a5 where a: "da = [a0, a1, a2, a3, a4, a5]"
    using assms(1) by (auto simp: length_Suc_conv numeral_eq_Suc)
  note simps = f' a addr_writes_def table_writes_def
  show "map f' [0x10, 0x11, 0x12, 0x13, 0x14, 0x15] = da" by (simp add: simps)
  show "f' DM9KS_RXCR = f DM9KS_RXCR" by (simp add: simps DM9KS_RXCR_def)
  show "\<forall>i<4. f' (of_nat (0x16 + 2 * i)) = ucast (t ! i) \<and> f' (of_nat (0x17 + 2 * i)) = ucast (drop_bit 8 (t ! i))"
    unfolding all_less_4 by (simp add: simps)
qed

lemma frame_emit [simp]:
  "io_addr (emit cs s) = io_addr s" "io_data (emit cs s) = io_data s" "mc_list (emit cs s) = mc_list s"
  "dev_addr (emit cs s) = dev_addr s" "promisc (emit cs s) = promisc s" "allmulti (emit cs s) = allmulti s"
  by (simp_all add: emit_def)

lemma hash_table_programs:
  assumes "filter_chip_ok p (io_addr s) (io_data s) view" "length (dev_addr s) = 6"
  shows "programmed (hash_bits crc (mc_list s)) s (regs view (dm9000_hash_table crc p s))"
proof -
  let ?t = "hash_bits crc (mc_list s)"
  define rcr :: u8 where "rcr = (let rcr = 0x20 OR 0x10 OR 0x01; rcr = (if promisc s then rcr OR 0x02 else rcr)
      in if allmulti s then rcr OR 0x08 else rcr)"
  define f where "f = fold (\<lambda>(r, v) f. f(r := v)) (addr_writes (dev_addr s) @ table_writes ?t) (regs view s)"
  have "\<forall>(r, v)\<in>set (addr_writes (dev_addr s) @ table_writes ?t @ [(DM9KS_RXCR, rcr)]). filter_reg r"
    unfolding set_append ball_Un using writes_in_filter rxcr_in_filter by simp
  moreover have "dm9000_hash_table crc p s = emit [Other ''spin_unlock_irqrestore'' 0]
      (iows p (addr_writes (dev_addr s) @ table_writes ?t @ [(DM9KS_RXCR, rcr)]) (emit [Other ''spin_lock_irqsave'' 0] s))"
    by (simp add: dm9000_hash_table_def addr_writes_def table_writes_def rcr_def Let_def)
  ultimately have "regs view (dm9000_hash_table crc p s) = f(DM9KS_RXCR := rcr)"
    using regs_iows [of p "emit [Other ''spin_lock_irqsave'' 0] s" view "addr_writes (dev_addr s) @ table_writes ?t @ [(DM9KS_RXCR, rcr)]"]
      assms(1) by (simp add: f_def)
  moreover have "(bit rcr 1 \<longleftrightarrow> promisc s) \<and> (bit rcr 3 \<longleftrightarrow> allmulti s)"
    by (auto simp: rcr_def Let_def)
  ultimately show ?thesis
    using writes_result [OF assms(2) f_def] by (simp add: programmed_def all_less_4 DM9KS_RXCR_def)
qed

lemma low_byte: "ucast (w AND 0xff :: u16) = (ucast w :: u8)"
proof -
  have "(0xff :: u16) = mask 8" by (simp add: mask_eq_exp_minus_1)
  then have "w AND 0xff = take_bit 8 w" by (simp add: take_bit_eq_mask)
  then show ?thesis by (intro bit_eqI) (auto simp: bit_ucast_iff bit_take_bit_iff)
qed

lemma hash_table_26_programs:
  assumes "filter_chip_ok p (io_addr s) (io_data s) view" "length (dev_addr s) = 6"
  shows "if promisc s then bit (regs view (dm9000_hash_table_26 crc p s) DM9KS_RXCR) 1
    else programmed (hash_bits crc (mc_list s)) s (regs view (dm9000_hash_table_26 crc p s))"
proof (cases "promisc s")
  case True
  then show ?thesis
    using regs_change_rxcr [OF assms(1), of "\<lambda>v. v OR push_bit 1 1"]
    by (simp add: dm9000_hash_table_26_def bit_or_iff bit_push_bit_iff)
next
  case False
  let ?t = "hash_bits crc (mc_list s)"
  define g where "g = (\<lambda>v :: u8. if allmulti s then v OR push_bit 3 1 else v AND NOT (push_bit 3 1))"
  define s1 where "s1 = change_rxcr p (\<lambda>v. v AND NOT (push_bit 1 1)) s"
  define s2 where "s2 = change_rxcr p g s1"
  note c1 = regs_change_rxcr [OF assms(1), of "\<lambda>v. v AND NOT (push_bit 1 1)", folded s1_def]
  have ok1: "filter_chip_ok p (io_addr s1) (io_data s1) view" using assms(1) c1 by simp
  note c2 = regs_change_rxcr [OF ok1, of g, folded s2_def]
  have ok2: "filter_chip_ok p (io_addr s2) (io_data s2) view" using ok1 c2 by simp
  define rcr where "rcr = g (regs view s DM9KS_RXCR AND NOT (push_bit 1 1))"
  have r2: "regs view s2 = (regs view s)(DM9KS_RXCR := rcr)" using c1 c2 by (simp add: rcr_def)
  have br: "(if allmulti s1 then change_rxcr p (\<lambda>v. v OR push_bit 3 1) s1
      else change_rxcr p (\<lambda>v. v AND NOT (push_bit 3 1)) s1) = s2"
    unfolding s2_def g_def using c1 by simp
  let ?s3 = "iows p (addr_writes (dev_addr s)) s2"
  have lists: "mc_list ?s3 = mc_list s" "dev_addr s2 = dev_addr s"
    using c1 c2 regs_iows [OF ok2 writes_in_filter(1)] by simp_all
  have bits: "hash_bits_26 crc (mc_list s) = ?t"
    by (simp add: hash_bits_def hash_bits_26_def cal_CRC_def)
  have run: "dm9000_hash_table_26 crc p s = iows p (table_writes ?t) ?s3"
    unfolding dm9000_hash_table_26_def Let_def s1_def [symmetric] br addr_writes_def [symmetric] lists bits low_byte
    using False by (simp add: table_writes_def)
  define f where "f = fold (\<lambda>(r, v) f. f(r := v)) (addr_writes (dev_addr s) @ table_writes ?t) (regs view s2)"
  have "regs view (dm9000_hash_table_26 crc p s) = f"
    using regs_iows [OF ok2 writes_in_filter(1), of "dev_addr s"]
      regs_iows [of p "iows p (addr_writes (dev_addr s)) s2" view "table_writes ?t"] ok2 writes_in_filter(2) [of ?t]
    by (simp add: run f_def)
  moreover have "(bit rcr 1 \<longleftrightarrow> promisc s) \<and> (bit rcr 3 \<longleftrightarrow> allmulti s)"
    using False by (simp add: rcr_def g_def bit_or_iff bit_and_iff bit_not_iff bit_push_bit_iff)
  ultimately show ?thesis
    using writes_result [OF assms(2) f_def] False by (simp add: programmed_def r2)
qed

subsection \<open>Searching and loading\<close>

text \<open>The maker's driver asks for a revision and two bits of register 0x43, after it took the ports.\<close>

definition wrong_version :: "u8 \<Rightarrow> u8 \<Rightarrow> bool" where
  "wrong_version rv chip_info \<longleftrightarrow>
     rv \<noteq> 0x1A \<or> chip_info AND push_bit 5 1 \<noteq> 0 \<or> chip_info AND push_bit 2 1 \<noteq> 1"

definition chip_version :: "'m port \<Rightarrow> u32 \<Rightarrow> 'm dmfe \<Rightarrow> (u8 \<times> u8) \<times> 'm dmfe" where
  "chip_version p a s =
     (let s = (clear_board s)\<lparr>io_addr := a, io_data := a + 4\<rparr>;
          (rv, s) = ior p DM9KS_CHIPR s;
          (chip_info, s) = ior p 0x43 (s\<lparr>chip_revision := rv\<rparr>)
      in ((rv, chip_info), s))"

partial_function (option) dmfe_probe1_vendor :: "'m port \<Rightarrow> bool \<Rightarrow> 'm dmmod \<Rightarrow> (int \<times> 'm dmmod) option" where
  "dmfe_probe1_vendor p region_ok m =
     (let a = iobase m;
          ic = read_id p a (chip (dev m));
          m = m\<lparr>dev := (dev m)\<lparr>chip := snd ic\<rparr>\<rparr>;
          m' = m\<lparr>iobase := a + 0x10\<rparr>
      in if fst ic = DM9KS_ID \<or> fst ic = DM9010_ID
         then (if \<not> region_ok then Some (- ENODEV, m)
               else (case chip_version p a (emit [Request_region (uint a) 2] (dev m)) of ((rv, info), d) \<Rightarrow>
                      if wrong_version rv info then Some (- ENODEV, m\<lparr>dev := d\<rparr>)
                      else map_option (\<lambda>d. (0, m'\<lparr>dev := d\<rparr>))
                             (chip_found p a (emit [Request_region (uint a) 2] (dev m)))))
         else if sint (iobase m') \<le> 0x370 then dmfe_probe1_vendor p region_ok m'
         else Some (- ENODEV, m'))"

text \<open>The frame around the search is the same; \<^verbatim>\<open>probe1\<close> is the search.\<close>

definition dmfe_probe_26 ::
  "('m dmmod \<Rightarrow> (int \<times> 'm dmmod) option) \<Rightarrow> bool \<Rightarrow> int \<Rightarrow> 'm dmmod \<Rightarrow> (int \<times> 'm dmmod) option" where
  "dmfe_probe_26 probe1 alloc_ok register_err m =
     (if \<not> alloc_ok then Some (- ENOMEM, m)
      else map_option (\<lambda>(err, m).
             if err \<noteq> 0 then (err, on_dev (emit [Free_netdev ''dm9000'']) m)
             else if register_err \<noteq> 0
             then (register_err, on_dev (emit [Release_region (uint (base_addr (dev m))), Free_netdev ''dm9000'']) m)
             else (0, on_dev (emit [Register_netdev ''dm9000'']) m))
           (probe1 (on_dev (emit [Alloc_netdev ''dm9000'']) m)))"

definition choose_media :: "'m dmmod \<Rightarrow> 'm dmmod" where
  "choose_media m = on_dev (\<lambda>s. s\<lparr>media_mode := (if mode m = 0 \<or> mode m = 1 \<or> mode m = 4 \<or> mode m = 5
                                                 then word_of_int (mode m) else DM9KS_AUTO)\<rparr>) m"

text \<open>dm9000c_driver.c: the bus is set up as in the 3.4.2 driver, in another order and with a shorter access time.\<close>

definition dm9000c_init_26 ::
  "'m port \<Rightarrow> bool \<Rightarrow> bool \<Rightarrow> int \<Rightarrow> u32 \<Rightarrow> u32 \<Rightarrow> u32 \<Rightarrow> 'm dmmod \<Rightarrow> (int \<times> 'm dmmod) option" where
  "dm9000c_init_26 p alloc_ok region_ok register_err va vb vk m =
     (let m = on_dev (emit [Ioremap va 1024, Ioremap vk 4, Ioremap vb 4]) (m\<lparr>iobase := va\<rparr>);
          m = m\<lparr>bwscon := set_mask (push_bit 16 1) (clear_mask (push_bit 16 0xf) (bwscon m))\<rparr>;
          m = m\<lparr>bankcon4 := push_bit 8 1 OR push_bit 6 1\<rparr>;
          m = on_dev (emit [Iounmap vb, Iounmap vk]) m
      in dmfe_probe_26 (dmfe_probe1 p region_ok 1024 va) alloc_ok register_err (choose_media m))"

definition dm9000c_exit_26 :: "'m dmmod \<Rightarrow> 'm dmmod" where
  "dm9000c_exit_26 m =
     on_dev (emit [Unregister_netdev ''dm9000'', Release_region (uint (base_addr (dev m))),
                   Free_netdev ''dm9000'', Iounmap (iobase m)]) m"

text \<open>
  dm9dev9000c_100ask.c, on the way from the maker's driver to the one above: it maps the chip, prints the
  version where the maker's driver refuses it, and relies on the boot loader for the bus.
\<close>

definition dm9dev9000c_init ::
  "'m port \<Rightarrow> bool \<Rightarrow> bool \<Rightarrow> int \<Rightarrow> u32 \<Rightarrow> 'm dmmod \<Rightarrow> (int \<times> 'm dmmod) option" where
  "dm9dev9000c_init p alloc_ok region_ok register_err va m =
     (let m = on_dev (emit [Ioremap va 4096]) (m\<lparr>iobase := va\<rparr>)
      in dmfe_probe_26 (dmfe_probe1 p region_ok 4096 va) alloc_ok register_err (choose_media m))"

definition dm9dev9000c_exit :: "'m dmmod \<Rightarrow> 'm dmmod" where
  "dm9dev9000c_exit m =
     on_dev (emit [Unregister_netdev ''dm9000'', Release_region (uint (base_addr (dev m))),
                   Free_netdev ''dm9000'', Iounmap (iobase m)]) m"

text \<open>The maker's driver looks for the chip at the port numbers 0x300 to 0x370 and sets up no bus.\<close>

definition init_module :: "'m port \<Rightarrow> bool \<Rightarrow> bool \<Rightarrow> int \<Rightarrow> 'm dmmod \<Rightarrow> (int \<times> 'm dmmod) option" where
  "init_module p alloc_ok region_ok register_err m =
     dmfe_probe_26 (dmfe_probe1_vendor p region_ok) alloc_ok register_err (choose_media m)"

definition cleanup_module :: "'m dmmod \<Rightarrow> 'm dmmod" where
  "cleanup_module m =
     on_dev (emit [Unregister_netdev ''dm9000'', Release_region (uint (base_addr (dev m))), Free_netdev ''dm9000'']) m"

subsection \<open>The maker's driver does not load\<close>

lemma always_wrong: "wrong_version rv info"
proof -
  have "info AND push_bit 2 1 \<noteq> 1"
  proof
    assume "info AND push_bit 2 1 = (1 :: u8)"
    then have "bit (info AND push_bit 2 1) 0 = bit (1 :: u8) 0" by simp
    then show False by (simp add: bit_simps)
  qed
  then show ?thesis by (simp add: wrong_version_def)
qed

lemma vendor_search_fails: "dmfe_probe1_vendor p ok m = Some r \<Longrightarrow> fst r = - ENODEV"
  by (rule dmfe_probe1_vendor.raw_induct [of "\<lambda>p ok m r. fst r = - ENODEV", rotated])
    (auto simp: Let_def always_wrong split: if_split_asm prod.split_asm)

lemma kt_chip_version: "kt (snd (chip_version p a s)) = kt s"
  by (simp add: chip_version_def Let_def case_prod_beta clear_board_def)



subsection \<open>Both filters\<close>

text \<open>
  C14. The chip takes, after the filter is programmed: everything in promiscuous mode, frames for the
  station, broadcast, and of the groups those on the list, all if so asked, and those whose checksum
  has the same low six bits.
\<close>

theorem hash_table_filters:
  assumes "filter_chip_ok p (io_addr s) (io_data s) view" "length (dev_addr s) = 6"
  shows "accepts crc (regs view (dm9000_hash_table crc p s)) dst \<longleftrightarrow> takes crc s dst"
  by (rule programmed_takes [OF hash_table_programs [OF assms]])


text \<open>A chip that is just its filter, at the ports 0 and 4, and a driver that listens to one group.\<close>

definition filt_port :: "filt port" where
  "filt_port = \<lparr>outb = (\<lambda>v a m. if a = 0 then m\<lparr>fsel := v\<rparr>
        else if filter_reg (fsel m) then m\<lparr>fregs := (fregs m)(fsel m := v)\<rparr> else m),
     outw = (\<lambda>_ _ m. m), outl = (\<lambda>_ _ m. m),
     inb = (\<lambda>_ m. (fregs m (fsel m), m)), inw = (\<lambda>_ m. (0, m)), inl = (\<lambda>_ m. (0, m))\<rparr>"

definition listener :: "filt dmfe" where
  "listener = (fresh_dmfe \<lparr>fsel = 0, fregs = (\<lambda>_. 0)\<rparr> 0)\<lparr>io_addr := 0, io_data := 4,
     dev_addr := [0, 1, 2, 3, 4, 5], promisc := False, allmulti := False, mc_list := [[1, 0, 94, 0, 0, 1]]\<rparr>"

lemma filt_port_ok: "filter_chip_ok filt_port (io_addr listener) (io_data listener) id"
  by (simp add: filter_chip_ok_def filt_port_def listener_def)

lemma listener_addr: "length (dev_addr listener) = 6"
  by (simp add: listener_def)

text \<open>With a checksum that is the last byte, group 1 is taken and group 2 is not.\<close>

theorem hash_table_filters_witness:
  "accepts (\<lambda>a. ucast (last a)) (regs id (dm9000_hash_table (\<lambda>a. ucast (last a)) filt_port listener)) [1, 0, 94, 0, 0, 1]
   \<and> \<not> accepts (\<lambda>a. ucast (last a)) (regs id (dm9000_hash_table (\<lambda>a. ucast (last a)) filt_port listener)) [1, 0, 94, 0, 0, 2]"
proof -
  have "replicate 6 (0xff :: u8) = [0xff, 0xff, 0xff, 0xff, 0xff, 0xff]" by code_simp
  then show ?thesis
    unfolding hash_table_filters [OF filt_port_ok listener_addr]
    by (simp add: takes_def listener_def hash_of_def)
qed


end
