(* ===== verification/Dm9000Reset.thy ===== *)
theory Dm9000Reset
  imports Dm9000Old
begin

text \<open>
  What setting the chip up anew does, in both trees: to the filter that was programmed, and to the lock
  that the interrupt holds when it resets the chip.
\<close>

subsection \<open>The set-up returns\<close>

text \<open>The fields that say where the chip is and what the filter should be.\<close>

definition config :: "'m dmfe \<Rightarrow> (u32 \<times> u32) \<times> u8 list list \<times> u8 list \<times> bool \<times> bool" where
  "config s = ((io_addr s, io_data s), mc_list s, dev_addr s, promisc s, allmulti s)"

interpretation cfg: rx_obs config
  by unfold_locales (simp_all add: config_def emit_def)

lemma config_kt [simp]: "config (emit cs s) = config s"
  by (simp add: config_def emit_def)

definition settles :: "'m port \<Rightarrow> u32 \<times> u32 \<Rightarrow> bool" where
  "settles p ad \<longleftrightarrow> (\<forall>s. fst (config s) = ad \<longrightarrow> (\<exists>s'. wait_clear p DM9KS_EPCR s = Some s'))"

lemma settlesD:
  "settles p (fst (config s)) \<Longrightarrow> config t = config s \<Longrightarrow> \<exists>s'. wait_clear p DM9KS_EPCR t = Some s'"
  by (simp add: settles_def)

lemma phy_chip_settles: "phy_chip_ok p (io_addr s) (io_data s) view \<Longrightarrow> settles p (fst (config s))"
  unfolding settles_def config_def by (auto simp: on_chip_def dest!: wait_clear_ends)

lemma settles_phy_read:
  assumes "settles p (fst (config s))"
  shows "\<exists>v s'. phy_read p r s = Some (v, s') \<and> config s' = config s"
proof -
  let ?s = "iow p DM9KS_EPCR 0xc (iow p DM9KS_EPAR (DM9KS_PHY OR r) s)"
  obtain t where "wait_clear p DM9KS_EPCR ?s = Some t" using settlesD [OF assms, of ?s] by auto
  then obtain v s' where "phy_read p r s = Some (v, s')" by (simp add: phy_read_def Let_def case_prod_beta)
  with cfg.obs_phy_read [OF this] show ?thesis by blast
qed

lemma settles_phy_write:
  assumes "settles p (fst (config s))"
  shows "\<exists>s'. phy_write p r v s = Some s' \<and> config s' = config s"
proof -
  obtain s' where "phy_write p r v s = Some s'"
    using assms by (simp add: phy_write_def settles_def Let_def) fastforce
  with cfg.obs_phy_write [OF this] show ?thesis by blast
qed

lemma settles_phy_writes: "settles p (fst (config s)) \<Longrightarrow> \<exists>s'. phy_writes p ws s = Some s' \<and> config s' = config s"
proof (induction ws arbitrary: s)
  case (Cons w ws)
  obtain r v where w: "w = (r, v)" by fastforce
  obtain t where "phy_write p r v s = Some t" "config t = config s"
    using settles_phy_write [OF Cons.prems] by blast
  moreover obtain s' where "phy_writes p ws t = Some s'" "config s' = config t"
    using Cons.IH [of t] Cons.prems \<open>config t = config s\<close> by auto
  ultimately show ?case by (simp add: w)
qed simp

lemma settles_set_PHY_mode:
  assumes "settles p (fst (config s))"
  shows "\<exists>s'. set_PHY_mode p s = Some s' \<and> config s' = config s"
proof -
  obtain r0 r4 where r: "phy_regs (op_mode s) = (r0, r4)" by fastforce
  obtain t where t: "phy_writes p [(4, r4), (0, r0 OR 0x200)] s = Some t" "config t = config s"
    using settles_phy_writes [OF assms] by blast
  obtain v u where u: "phy_read p 20 t = Some (v, u)" "config u = config s"
    using settles_phy_read [of p t 20] t assms by auto
  obtain w where "phy_writes p ((20, v OR push_bit 11 1 OR push_bit 10 1) # harmonic_fix) u = Some w" "config w = config s"
    using settles_phy_writes [of p u] u assms by metis
  with r t u show ?thesis by (simp add: set_PHY_mode_def del: phy_writes.simps)
qed

text \<open>The set-up up to the multicast function, and the writes after it.\<close>

definition init_head :: "'m port \<Rightarrow> 'm dmfe \<Rightarrow> 'm dmfe" where
  "init_head p s =
     (let s = iow p DM9KS_GPR 0 (emit [Other ''spin_lock_init'' 0] s);
          s = iow p DM9KS_NCR 3 (emit [Delay_us 20000] s);
          s = iow p DM9KS_NCR 3 (emit [Delay_us 20] s);
          (isr, s) = ior p DM9KS_ISR (emit [Delay_us 20] s)
      in s\<lparr>io_mode := drop_bit 6 isr, op_mode := media_mode s\<rparr>)"

definition init_regs :: "'m port \<Rightarrow> 'm dmfe \<Rightarrow> 'm dmfe" where
  "init_regs p s =
     (let s = iows p [(DM9KS_NCR, 0), (DM9KS_TCR, 0), (DM9KS_BPTR, 0x3f), (DM9KS_SMCR, 0),
                (DM9KS_NSR, 0x2c), (DM9KS_ISR, 0x0f), (DM9KS_TCR2, 0x80)] s;
          s = (if chip_revision s = 0x1A then iow p DM9KS_BUSCR 0x01 s else s);
          s = (if hw_csum s then iow p DM9KS_TCCR 0x07 s else s)
      in if rx_csum s \<noteq> 0 then iow p DM9KS_RCSR 0x02 s else s)"

definition init_tail :: "'m port \<Rightarrow> 'm dmfe \<Rightarrow> 'm dmfe" where
  "init_tail p s =
     emit [Other ''netif_carrier_on'' 0]
       ((iow p DM9KS_RXCR (DM9KS_REG05 OR 1) (iow p DM9KS_IMR DM9KS_REGFF s))\<lparr>tx_pkt_cnt := 0\<rparr>)"

lemma init_parts:
  "dmfe_init_dm9000 lx crc p s =
     map_option (\<lambda>s. init_tail p (set_rx_mode lx crc p (init_regs p s))) (set_PHY_mode p (init_head p s))"
proof -
  have "Option.bind x (\<lambda>s. Some (f s)) = map_option f x" for x :: "'a dmfe option" and f
    by (cases x) simp_all
  then show ?thesis
    by (simp only: dmfe_init_dm9000_def init_head_def init_regs_def init_tail_def Let_def case_prod_beta)
qed

lemma config_parts:
  "config (init_head p s) = config s" "config (init_regs p s) = config s" "config (init_tail p s) = config s"
proof -
  have [simp]: "config (t\<lparr>io_mode := a, op_mode := b\<rparr>) = config t" "config (t\<lparr>tx_pkt_cnt := c\<rparr>) = config t"
    for t :: "'a dmfe" and a b c by (simp_all add: config_def)
  show "config (init_head p s) = config s" "config (init_regs p s) = config s" "config (init_tail p s) = config s"
    by (simp_all add: init_head_def init_regs_def init_tail_def Let_def case_prod_beta)
qed

lemma config_change_rxcr: "config (change_rxcr p f s) = config s"
  by (simp add: change_rxcr_def case_prod_beta)

lemma config_hash_table: "config (dm9000_hash_table crc p s) = config s"
  unfolding dm9000_hash_table_def Let_def config_kt cfg.obs_iows ..

lemma config_hash_table_26: "config (dm9000_hash_table_26 crc p s) = config s"
proof (cases "promisc s")
  case True
  then show ?thesis by (simp only: dm9000_hash_table_26_def if_True config_change_rxcr)
next
  case False
  have "config (if b then change_rxcr p f t else change_rxcr p g t) = config t" for b f g t
    by (simp add: config_change_rxcr)
  with False show ?thesis
    by (simp only: dm9000_hash_table_26_def Let_def if_False cfg.obs_iows config_change_rxcr)
qed

lemma config_set_rx_mode [simp]: "config (set_rx_mode lx crc p s) = config s"
  by (cases lx) (simp_all only: set_rx_mode_def linux.case config_hash_table config_hash_table_26)

subsection \<open>What becomes of the filter\<close>

text \<open>Access to a register that is neither in the filter nor the reset leaves the filter alone.\<close>

definition same_filter :: "'m port \<Rightarrow> ('m \<Rightarrow> filt) \<Rightarrow> 'm dmfe \<Rightarrow> 'm dmfe \<Rightarrow> bool" where
  "same_filter p view s t \<longleftrightarrow>
     config t = config s \<and> (filter_chip_ok p (io_addr s) (io_data s) view \<longrightarrow> regs view t = regs view s)"

lemma same_filter_trans:
  "same_filter p view s t \<Longrightarrow> same_filter p view t u \<Longrightarrow> same_filter p view s u"
  by (auto simp: same_filter_def config_def)

lemma same_filter_outside:
  "config t = config s \<Longrightarrow> chip t = chip s \<Longrightarrow> same_filter p view s t"
  by (simp add: same_filter_def regs_def)

lemma same_filter_emit: "same_filter p view s (emit cs s)"
  by (simp add: same_filter_def)

lemma same_filter_iow:
  assumes "\<not> filter_reg r" "r \<noteq> DM9KS_NCR"
  shows "same_filter p view s (iow p r v s)"
proof -
  have "regs view (iow p r v s) = regs view s" if "filter_chip_ok p (io_addr s) (io_data s) view"
    using that assms by (simp add: regs_def iow_def out8_def filter_chip_ok_def Let_def)
  then show ?thesis by (simp add: same_filter_def)
qed

lemma same_filter_ior:
  assumes "ior p r s = (v, t)"
  shows "same_filter p view s t"
proof -
  have "regs view t = regs view s" if "filter_chip_ok p (io_addr s) (io_data s) view"
    using that assms unfolding filter_chip_ok_def
    by (auto simp: regs_def ior_def in8_def out8_def split: prod.split_asm)
      (metis filt.select_convs(2) filt.surjective filt.update_convs(1) snd_conv)
  then show ?thesis using cfg.obs_ior [OF assms] by (simp add: same_filter_def)
qed

lemma same_filter_wait_clear: "wait_clear p r s = Some t \<Longrightarrow> same_filter p view s t"
proof (rule wait_clear.raw_induct [of "\<lambda>p r s t. same_filter p view s t", rotated])
  fix wait p r s t
  assume IH: "\<And>p r s t. wait p r s = Some t \<Longrightarrow> same_filter p view s t"
    and run: "(let vs = ior p r s in if fst vs AND 1 \<noteq> 0 then wait p r (snd vs) else Some (snd vs)) = Some t"
  obtain v u where u: "ior p r s = (v, u)" by fastforce
  show "same_filter p view s t"
    using run u same_filter_trans [OF same_filter_ior [OF u] IH [of p r u t]] same_filter_ior [OF u]
    by (auto simp: Let_def split: if_split_asm)
qed

lemma phy_regs_outside:
  "\<not> filter_reg DM9KS_EPAR" "\<not> filter_reg DM9KS_EPCR" "\<not> filter_reg DM9KS_IMR"
  "DM9KS_EPAR \<noteq> DM9KS_NCR" "DM9KS_EPCR \<noteq> DM9KS_NCR" "DM9KS_IMR \<noteq> DM9KS_NCR"
  by (simp_all add: filter_reg_def DM9KS_regs)

lemma same_filter_phy_read:
  assumes "phy_read p r s = Some (v, t)"
  shows "same_filter p view s t"
proof -
  let ?s1 = "iow p DM9KS_EPAR (DM9KS_PHY OR r) s"
  let ?s2 = "iow p DM9KS_EPCR 0xc ?s1"
  obtain s3 where 3: "wait_clear p DM9KS_EPCR ?s2 = Some s3"
    using assms by (auto simp: phy_read_def Let_def)
  let ?s4 = "iow p DM9KS_EPCR 0 s3"
  obtain h s5 where 5: "ior p DM9KS_EPDRH ?s4 = (h, s5)" by fastforce
  obtain l s6 where 6: "ior p DM9KS_EPDRL s5 = (l, s6)" by fastforce
  have "t = s6" using assms 3 5 6 by (simp add: phy_read_def Let_def)
  moreover have "same_filter p view s ?s1" "same_filter p view ?s1 ?s2" "same_filter p view s3 ?s4"
    by (simp_all add: same_filter_iow phy_regs_outside)
  ultimately show ?thesis
    using same_filter_wait_clear [OF 3] same_filter_ior [OF 5] same_filter_ior [OF 6] same_filter_trans by metis
qed

lemma same_filter_link_speed: "link_speed p s = Some t \<Longrightarrow> same_filter p view s t"
  by (auto simp: link_speed_def intro: same_filter_trans [OF same_filter_phy_read same_filter_outside])

lemma reset_wait_link_returns:
  "settles p (fst (config s)) \<Longrightarrow> \<exists>t. reset_wait_link p n s = Some t \<and> same_filter p view s t"
proof (induction n arbitrary: s)
  case (Suc n)
  obtain v u where u: "phy_read p 1 s = Some (v, u)" "config u = config s"
    using settles_phy_read [OF Suc.prems] by blast
  note su = same_filter_phy_read [OF u(1)]
  show ?case
  proof (cases "v AND 0x4 = 0")
    case True
    obtain t where "reset_wait_link p n (emit [Delay_us 1000] u) = Some t"
        "same_filter p view (emit [Delay_us 1000] u) t"
      using Suc.IH [of "emit [Delay_us 1000] u"] Suc.prems u(2) by auto
    with True u(1) su show ?thesis
      using same_filter_trans [OF same_filter_trans [OF su same_filter_emit]] by auto
  next
    case False
    obtain w t where "phy_read p 0 u = Some (w, t)" using settles_phy_read [of p u 0] Suc.prems u(2) by auto
    then obtain t where "link_speed p u = Some t" by (simp add: link_speed_def)
    with False u(1) show ?thesis using same_filter_trans [OF su same_filter_link_speed] by auto
  qed
qed (simp add: same_filter_def)

lemma reset_returns:
  assumes "settles p (fst (config s))"
  shows "\<exists>s'. dmfe_reset lx crc p s = Some s'"
proof -
  obtain g s1 where 1: "in8 p (io_addr s) s = (g, s1)" by fastforce
  let ?s2 = "(emit [Other ''netif_stop_queue'' 0] s1)\<lparr>reset_counter := reset_counter (emit [Other ''netif_stop_queue'' 0] s1) + 1\<rparr>"
  have c2: "config ?s2 = config s" using cfg.obs_in8 [OF 1] by simp
  obtain t where t: "set_PHY_mode p (init_head p ?s2) = Some t" "config t = config s"
    using settles_set_PHY_mode [of p "init_head p ?s2"] assms c2 by (auto simp: config_parts)
  let ?s3 = "(init_tail p (set_rx_mode lx crc p (init_regs p t)))\<lparr>Speed := 10\<rparr>"
  obtain s4 where "reset_wait_link p 1000 ?s3 = Some s4"
    using reset_wait_link_returns [of p ?s3] assms t(2) by (auto simp: config_parts)
  then show ?thesis using 1 t(1) by (simp add: dmfe_reset_def Let_def init_parts)
qed

text \<open>After the multicast function, the set-up starts reception, and with that forgets the two bits.\<close>

lemma init_tail_regs:
  assumes "filter_chip_ok p (io_addr s) (io_data s) view"
  shows "regs view (init_tail p s) = (regs view s)(DM9KS_RXCR := 0x31)"
proof -
  have "same_filter p view s (iow p DM9KS_IMR DM9KS_REGFF s)" by (simp add: same_filter_iow phy_regs_outside)
  then have "regs view (iow p DM9KS_IMR DM9KS_REGFF s) = regs view s" using assms by (simp add: same_filter_def)
  moreover have "regs view (t\<lparr>tx_pkt_cnt := c\<rparr>) = regs view t" for t :: "'a dmfe" and c by (simp add: regs_def)
  ultimately show ?thesis
    using assms by (simp add: init_tail_def regs_iow rxcr_in_filter DM9KS_REG05_def)
qed

lemma set_rx_mode_programs:
  assumes "filter_chip_ok p (io_addr s) (io_data s) view" "length (dev_addr s) = 6" "lx = Linux_3_4 \<or> \<not> promisc s"
  shows "programmed (hash_bits crc (mc_list s)) s (regs view (set_rx_mode lx crc p s))"
  using hash_table_programs [OF assms(1,2), of crc] hash_table_26_programs [OF assms(1,2), of crc] assms(3)
  by (cases lx) (auto simp: set_rx_mode_def)

lemma programmed_without_modes:
  assumes "programmed t s f"
  shows "programmed t (s\<lparr>promisc := False, allmulti := False\<rparr>) (f(DM9KS_RXCR := 0x31))"
proof -
  have "\<not> bit (0x31 :: u8) 1" "\<not> bit (0x31 :: u8) 3" by code_simp+
  with assms show ?thesis by (simp add: programmed_def DM9KS_RXCR_def all_less_4)
qed

definition plain :: "'m dmfe \<Rightarrow> 'm dmfe" where
  "plain s = s\<lparr>promisc := False, allmulti := False\<rparr>"

lemma programmed_cong:
  "config t = config s \<Longrightarrow> programmed h (plain t) f = programmed h (plain s) f"
  by (simp add: programmed_def config_def plain_def)

lemma init_filter:
  assumes "settles p (fst (config s))" "filter_chip_ok p (io_addr s) (io_data s) view"
    and "length (dev_addr s) = 6" "lx = Linux_3_4 \<or> \<not> promisc s"
  shows "\<exists>s'. dmfe_init_dm9000 lx crc p s = Some s' \<and> config s' = config s
    \<and> programmed (hash_bits crc (mc_list s)) (plain s) (regs view s')"
proof -
  obtain t where t: "set_PHY_mode p (init_head p s) = Some t" "config t = config s"
    using settles_set_PHY_mode [of p "init_head p s"] assms(1) by (auto simp: config_parts)
  let ?u = "init_regs p t"
  have c: "config ?u = config s" using t(2) by (simp add: config_parts)
  have u: "filter_chip_ok p (io_addr ?u) (io_data ?u) view" "length (dev_addr ?u) = 6"
      "lx = Linux_3_4 \<or> \<not> promisc ?u" "mc_list ?u = mc_list s"
    using assms c by (simp_all add: config_def)
  let ?w = "set_rx_mode lx crc p ?u"
  have w: "filter_chip_ok p (io_addr ?w) (io_data ?w) view"
    using u(1) config_set_rx_mode [of lx crc p ?u] by (simp add: config_def)
  have "programmed (hash_bits crc (mc_list s)) (plain ?u) (regs view (init_tail p ?w))"
    using programmed_without_modes [OF set_rx_mode_programs [OF u(1-3)], of crc] u(4)
    by (simp add: init_tail_regs [OF w] plain_def)
  then show ?thesis
    using t(1) c programmed_cong [OF c] by (simp add: init_parts config_parts)
qed

lemma reset_filter:
  assumes "settles p (fst (config s))" "filter_chip_ok p (io_addr s) (io_data s) view"
    and "length (dev_addr s) = 6" "lx = Linux_3_4 \<or> \<not> promisc s"
  shows "\<exists>s'. dmfe_reset lx crc p s = Some s' \<and> config s' = config s
    \<and> programmed (hash_bits crc (mc_list s)) (plain s) (regs view s')"
proof -
  obtain g s1 where 1: "in8 p (io_addr s) s = (g, s1)" by fastforce
  let ?s2 = "(emit [Other ''netif_stop_queue'' 0] s1)\<lparr>reset_counter := reset_counter (emit [Other ''netif_stop_queue'' 0] s1) + 1\<rparr>"
  have c2: "config ?s2 = config s" using cfg.obs_in8 [OF 1] by simp
  then have a2: "filter_chip_ok p (io_addr ?s2) (io_data ?s2) view" "length (dev_addr ?s2) = 6"
      "lx = Linux_3_4 \<or> \<not> promisc ?s2" "mc_list ?s2 = mc_list s"
    using assms by (simp_all add: config_def)
  obtain s3 where 3: "dmfe_init_dm9000 lx crc p ?s2 = Some s3" "config s3 = config s"
      "programmed (hash_bits crc (mc_list s)) (plain s) (regs view s3)"
    using init_filter [OF _ a2(1-3), of crc] assms(1) c2 a2(4) programmed_cong [OF c2] by auto
  let ?s3 = "s3\<lparr>Speed := 10\<rparr>"
  obtain s4 where 4: "reset_wait_link p 1000 ?s3 = Some s4" "same_filter p view ?s3 s4"
    using reset_wait_link_returns [of p ?s3] assms(1) 3(2) by auto
  have ok: "filter_chip_ok p (io_addr s3) (io_data s3) view" using assms(2) 3(2) by (simp add: config_def)
  let ?s' = "out8 p g (io_addr s4) (emit [Other ''netif_wake_queue'' 0] s4)"
  have c4: "config s4 = config s" "regs view s4 = regs view s3"
    using 4(2) 3(2) ok by (simp_all add: same_filter_def regs_def)
  have "filter_chip_ok p (io_addr s4) (io_data s4) view" using assms(2) c4(1) by (simp add: config_def)
  then have "regs view ?s' = regs view s3" using c4(2) by (simp add: regs_def out8_def filter_chip_ok_def emit_def)
  moreover have "dmfe_reset lx crc p s = Some ?s'"
    using 1 3(1) 4(1) by (simp add: dmfe_reset_def Let_def)
  ultimately show ?thesis using 3(3) c4(1) by simp
qed

subsection \<open>The lock\<close>

text \<open>
  The lock under the calls of the driver: None when it waits for itself. Unlocking a free lock frees it,
  and initialising it frees it too.
\<close>

definition lock_step :: "bool option \<Rightarrow> kcall \<Rightarrow> bool option" where
  "lock_step l c =
     (case l of None \<Rightarrow> None
      | Some owned \<Rightarrow>
         (case c of Other n _ \<Rightarrow>
            (if n = ''spin_lock_init'' then Some False
             else if n = ''spin_lock'' \<or> n = ''spin_lock_irqsave'' \<or> n = ''spin_lock_irq''
             then (if owned then None else Some True)
             else if n = ''spin_unlock'' \<or> n = ''spin_unlock_irqrestore'' \<or> n = ''spin_unlock_irq'' then Some False
             else Some owned)
          | _ \<Rightarrow> Some owned))"

definition lock_state :: "'m dmfe \<Rightarrow> bool option" where
  "lock_state s = foldl lock_step (Some False) (kt s)"

lemma lock_step_other: "\<not> lock_call c \<Longrightarrow> lock_step l c = l"
  by (cases l; cases c) (simp_all only: lock_call_def lock_step_def kcall.case option.case de_Morgan_disj if_False simp_thms)

lemma foldl_lock_step: "list_all (\<lambda>c. \<not> lock_call c) cs \<Longrightarrow> foldl lock_step l cs = l"
  by (induction cs) (simp_all add: lock_step_other)

interpretation lk: rx_obs lock_state
  by unfold_locales (simp_all add: lock_state_def emit_def foldl_lock_step)

lemma lock_emit: "lock_state (emit cs s) = foldl lock_step (lock_state s) cs"
  by (simp add: lock_state_def emit_def)

text \<open>The calls on the lock, and those of one reset.\<close>

definition lock_calls :: "'m dmfe \<Rightarrow> kcall list" where
  "lock_calls s = filter lock_call (kt s)"

interpretation lc: rx_obs lock_calls
  by unfold_locales (simp_all add: lock_calls_def emit_def list_all_iff filter_empty_conv)

lemma lock_calls_emit: "lock_calls (emit cs s) = lock_calls s @ filter lock_call cs"
  by (simp add: lock_calls_def emit_def)

definition init_calls :: "linux \<Rightarrow> kcall list" where
  "init_calls lx = Other ''spin_lock_init'' 0 #
     (case lx of Linux_2_6 \<Rightarrow> []
      | Linux_3_4 \<Rightarrow> [Other ''spin_lock_irqsave'' 0, Other ''spin_unlock_irqrestore'' 0])"

lemma lock_calls_hash_table:
  "lock_calls (dm9000_hash_table crc p s) =
     lock_calls s @ [Other ''spin_lock_irqsave'' 0, Other ''spin_unlock_irqrestore'' 0]"
proof -
  have "filter lock_call [Other ''spin_lock_irqsave'' 0] = [Other ''spin_lock_irqsave'' 0]"
    "filter lock_call [Other ''spin_unlock_irqrestore'' 0] = [Other ''spin_unlock_irqrestore'' 0]"
    by (simp_all add: lock_call_def)
  then show ?thesis
    by (simp only: dm9000_hash_table_def Let_def lock_calls_emit lc.obs_iows) simp
qed

lemma lock_calls_hash_table_26: "lock_calls (dm9000_hash_table_26 crc p s) = lock_calls s"
proof -
  have c: "lock_calls (change_rxcr p f t) = lock_calls t" for f t
    by (simp add: change_rxcr_def case_prod_beta)
  have "lock_calls (if b then change_rxcr p f t else change_rxcr p g t) = lock_calls t" for b f g t
    by (simp add: c)
  then show ?thesis
    by (cases "promisc s") (simp_all only: dm9000_hash_table_26_def Let_def if_True if_False lc.obs_iows c)
qed

lemma lock_calls_init:
  assumes "dmfe_init_dm9000 lx crc p s = Some s'"
  shows "lock_calls s' = lock_calls s @ init_calls lx"
proof -
  obtain t where t: "set_PHY_mode p (init_head p s) = Some t" "s' = init_tail p (set_rx_mode lx crc p (init_regs p t))"
    using assms by (auto simp: init_parts)
  have [simp]: "lock_calls (u\<lparr>io_mode := a, op_mode := b\<rparr>) = lock_calls u" "lock_calls (u\<lparr>tx_pkt_cnt := c\<rparr>) = lock_calls u"
    for u :: "'a dmfe" and a b c by (simp_all add: lock_calls_def)
  have "lock_calls (emit [Other ''spin_lock_init'' 0] s) = lock_calls s @ [Other ''spin_lock_init'' 0]"
    by (simp add: lock_calls_emit lock_call_def)
  then have "lock_calls (init_head p s) = lock_calls s @ [Other ''spin_lock_init'' 0]"
    by (simp add: init_head_def Let_def case_prod_beta)
  moreover have "lock_calls (init_regs p t) = lock_calls t" "lock_calls (init_tail p u) = lock_calls u" for u
    by (simp_all add: init_regs_def init_tail_def Let_def lock_call_def)
  ultimately show ?thesis
    using lc.obs_set_PHY_mode [OF t(1)] t(2)
    by (cases lx) (simp_all add: set_rx_mode_def init_calls_def lock_calls_hash_table lock_calls_hash_table_26)
qed

text \<open>So the state of the lock is that after its calls.\<close>

lemma foldl_lock_calls: "foldl lock_step l (filter lock_call cs) = foldl lock_step l cs"
  by (induction cs arbitrary: l) (simp_all add: lock_step_other)

lemma lock_state_calls: "lock_state s = foldl lock_step (Some False) (lock_calls s)"
  by (simp add: lock_state_def lock_calls_def foldl_lock_calls)

lemma init_calls_free: "l \<noteq> None \<Longrightarrow> foldl lock_step l (init_calls lx) = Some False"
  by (cases lx; cases l) (simp_all add: init_calls_def lock_step_def)

lemma lock_calls_tx_done: "dmfe_tx_done p s = Some s' \<Longrightarrow> lock_calls s' = lock_calls s"
proof -
  assume run: "dmfe_tx_done p s = Some s'"
  have [simp]: "lock_calls (u\<lparr>tx_pkt_cnt := c\<rparr>) = lock_calls u" for u :: "'a dmfe" and c
    by (simp add: lock_calls_def)
  obtain nsr t where t: "ior p DM9KS_NSR s = (nsr, t)" by fastforce
  show ?thesis
    using run lc.obs_ior [OF t] t
    by (auto simp: dmfe_tx_done_def Let_def lock_call_def split: if_split_asm dest!: lc.obs_wait_clear)
qed

text \<open>
  What the interrupt does under the lock: of the calls on the lock, only those of set-ups.
\<close>

definition in_section :: "kcall list \<Rightarrow> linux \<Rightarrow> 'm dmfe \<Rightarrow> bool" where
  "in_section cs lx s \<longleftrightarrow> (\<exists>n. lock_calls s = cs @ concat (replicate n (init_calls lx)))"

lemma replicate_end: "concat (replicate n xs) @ xs = concat (replicate (Suc n) xs)"
  by (induction n) simp_all

interpretation sec: dmfe_inv "in_section cs lx" lx for cs lx
proof unfold_locales
  fix crc and p :: "'b port" and s s' :: "'b dmfe"
  assume "dmfe_init_dm9000 lx crc p s = Some s'" "in_section cs lx s"
  then obtain k where "lock_calls s' = cs @ concat (replicate k (init_calls lx)) @ init_calls lx"
    by (auto simp: in_section_def lock_calls_init)
  then show "in_section cs lx s'" unfolding replicate_end in_section_def by (rule exI)
next
  fix p :: "'b port" and s s' :: "'b dmfe"
  assume "dmfe_tx_done p s = Some s'" "in_section cs lx s"
  then show "in_section cs lx s'" by (simp add: in_section_def lock_calls_tx_done)
qed (simp_all add: in_section_def, simp add: lock_calls_def)

lemma interrupt_lock_calls:
  assumes "dmfe_interrupt lx crc p ok s = Some s'"
  shows "\<exists>n. lock_calls s' = lock_calls s @ [Other ''spin_lock'' 0] @ concat (replicate n (init_calls lx))
    @ [Other ''spin_unlock'' 0]"
proof -
  have c: "filter lock_call [Other ''spin_lock'' 0] = [Other ''spin_lock'' 0]"
    "filter lock_call [Other ''spin_unlock'' 0] = [Other ''spin_unlock'' 0]" by (simp_all add: lock_call_def)
  have "in_section (lock_calls s @ [Other ''spin_lock'' 0]) lx (emit [Other ''spin_lock'' 0] s)"
    unfolding in_section_def lock_calls_emit c by (rule exI [of _ 0]) simp
  from sec.inv_interrupt [OF assms this] show ?thesis
    by (auto simp: in_section_def lock_calls_emit c simp del: filter.simps)
qed

lemma inits_free: "l \<noteq> None \<Longrightarrow> foldl lock_step l (concat (replicate n (init_calls lx))) = (if n = 0 then l else Some False)"
proof -
  have "foldl lock_step (Some False) (concat (replicate k (init_calls lx))) = Some False" for k
    by (induction k) (simp_all add: init_calls_free)
  then show "l \<noteq> None \<Longrightarrow> ?thesis" by (cases n) (simp_all add: init_calls_free)
qed

text \<open>A lock that is free before a handler is free after it.\<close>

definition lock_free :: "'m dmfe \<Rightarrow> bool" where
  "lock_free s \<longleftrightarrow> lock_state s = Some False"

interpretation free: dmfe_inv lock_free lx for lx
proof unfold_locales
  fix crc and p :: "'b port" and s s' :: "'b dmfe"
  assume "dmfe_init_dm9000 lx crc p s = Some s'" "lock_free s"
  then show "lock_free s'"
    by (simp add: lock_free_def lock_state_calls lock_calls_init init_calls_free)
next
  fix p :: "'b port" and s s' :: "'b dmfe"
  assume "dmfe_tx_done p s = Some s'" "lock_free s"
  then show "lock_free s'" by (simp add: lock_free_def lock_state_calls lock_calls_tx_done)
qed (simp_all add: lock_free_def, simp add: lock_state_def)

lemma interrupt_frees:
  assumes "dmfe_interrupt lx crc p ok s = Some s'" "lock_free s"
  shows "lock_free s'"
proof -
  obtain n where "lock_calls s' = lock_calls s @ [Other ''spin_lock'' 0] @ concat (replicate n (init_calls lx))
      @ [Other ''spin_unlock'' 0]"
    using interrupt_lock_calls [OF assms(1)] by blast
  then show ?thesis
    using assms(2) by (simp add: lock_free_def lock_state_calls inits_free lock_step_def)
qed

lemma set_rx_mode_frees: "lock_free s \<Longrightarrow> lock_free (kernel_sets_rx_mode lx crc p pr am ms s)"
proof -
  assume free: "lock_free s"
  let ?s = "s\<lparr>promisc := pr, allmulti := am, mc_list := ms\<rparr>"
  have "lock_calls ?s = lock_calls s" by (simp add: lock_calls_def)
  then show ?thesis
    using free by (cases lx) (simp_all add: kernel_sets_rx_mode_def set_rx_mode_def lock_free_def lock_state_calls
        lock_calls_hash_table lock_calls_hash_table_26 lock_step_def)
qed

lemma xmit_lock: "lock_state (snd (dmfe_start_xmit p f len s)) = lock_state s"
proof -
  have [simp]: "lock_state (u\<lparr>tx_pkt_cnt := a, tx_packets := b, tx_bytes := c\<rparr>) = lock_state u" for u :: "'a dmfe" and a b c
    by (simp add: lock_state_def)
  show ?thesis by (simp add: dmfe_start_xmit_def Let_def case_prod_beta lock_call_def)
qed

lemma step_frees:
  assumes "dmfe_step lx crc p e s = Some s'" "lock_free s"
  shows "lock_free s'"
proof (cases e)
  case (Ev_interrupt ok)
  with assms show ?thesis by (auto simp: dmfe_step_def intro: interrupt_frees)
next
  case (Ev_xmit f len)
  with assms show ?thesis by (auto simp: dmfe_step_def lock_free_def xmit_lock)
qed (use assms in \<open>auto simp: dmfe_step_def intro: free.inv_timeout free.inv_open set_rx_mode_frees dest: free.obs_stop\<close>)

text \<open>Unlocking a lock that is free.\<close>

fun unlocks_free :: "bool option \<Rightarrow> kcall list \<Rightarrow> bool" where
  "unlocks_free l [] = False"
| "unlocks_free l (c # cs) =
     (l = Some False \<and> (c = Other ''spin_unlock'' 0 \<or> c = Other ''spin_unlock_irqrestore'' 0)
      \<or> unlocks_free (lock_step l c) cs)"

lemma unlocks_free_append:
  "unlocks_free l (cs @ ds) \<longleftrightarrow> unlocks_free l cs \<or> unlocks_free (foldl lock_step l cs) ds"
  by (induction cs arbitrary: l) auto

lemma init_calls_ok: "\<not> unlocks_free l (init_calls lx)"
  by (cases lx; cases l) (simp_all add: init_calls_def lock_step_def)

lemma inits_ok: "l \<noteq> None \<Longrightarrow> \<not> unlocks_free l (concat (replicate n (init_calls lx)))"
proof (induction n arbitrary: l)
  case (Suc n)
  then show ?case using Suc.IH [of "Some False"] by (simp add: unlocks_free_append init_calls_ok init_calls_free)
qed simp

subsection \<open>Properties\<close>



text \<open>
  C20. An interrupt that resets the chip loses its lock: the set-up initialises the lock that the
  interrupt holds, the rest of the handler runs without it, and at its end it unlocks a free lock. Exactly
  the interrupts that initialise the lock do so.
\<close>

theorem reset_loses_lock:
  assumes "lock_state s = Some False" "dmfe_interrupt lx crc p ok s = Some s'"
  shows "\<exists>cs. lock_calls s' = lock_calls s @ cs
    \<and> (unlocks_free (Some False) cs \<longleftrightarrow> Other ''spin_lock_init'' 0 \<in> set cs)"
proof -
  obtain n where n: "lock_calls s' = lock_calls s @ [Other ''spin_lock'' 0] @ concat (replicate n (init_calls lx))
      @ [Other ''spin_unlock'' 0]"
    using interrupt_lock_calls [OF assms(2)] by blast
  have "Other ''spin_lock_init'' 0 \<in> set (init_calls lx)" by (simp add: init_calls_def)
  then have "Other ''spin_lock_init'' 0 \<in> set (concat (replicate n (init_calls lx))) \<longleftrightarrow> n \<noteq> 0"
    by (cases n) auto
  with n show ?thesis
    by (auto simp: unlocks_free_append inits_ok inits_free lock_step_def)
qed

subsection \<open>Witnesses\<close>

text \<open>A chip with its PHY registers and its filter, and a promiscuous driver.\<close>

definition full_port :: "(phychip \<times> (u8 \<Rightarrow> u8)) port" where
  "full_port =
     \<lparr>outb = (\<lambda>v a (c, f). if a = 0 then (c\<lparr>sel := v\<rparr>, f)
                else (chip_write 3 v c, if filter_reg (sel c) then f(sel c := v) else f)),
      outw = (\<lambda>_ _ m. m), outl = (\<lambda>_ _ m. m),
      inb = (\<lambda>a (c, f). (if filter_reg (sel c) then f (sel c) else fst (inb demo_port a c), (c\<lparr>busy := busy c - 1\<rparr>, f))),
      inw = (\<lambda>_ m. (0, m)), inl = (\<lambda>_ m. (0, m))\<rparr>"

definition filt_of :: "phychip \<times> (u8 \<Rightarrow> u8) \<Rightarrow> filt" where
  "filt_of m = \<lparr>fsel = sel (fst m), fregs = snd m\<rparr>"

definition eager :: "(phychip \<times> (u8 \<Rightarrow> u8)) dmfe" where
  "eager = (fresh_dmfe (idle_chip, \<lambda>_. 0) 0)\<lparr>dev_addr := [0, 1, 2, 3, 4, 5], promisc := True\<rparr>"

lemma sel_chip_write: "sel (chip_write n v c) = sel c"
  by (simp add: chip_write_def)

lemma full_port_filt: "filter_chip_ok full_port (io_addr eager) (io_data eager) filt_of"
  by (simp add: filter_chip_ok_def full_port_def filt_of_def eager_def fresh_dmfe_def sel_chip_write)

lemma full_port_phy: "phy_chip_ok full_port (io_addr eager) (io_data eager) fst"
proof -
  have "chip_reads (if filter_reg (sel c) then b else fst (inb demo_port a c)) c" for a b c
  proof (cases "filter_reg (sel c)")
    case True
    then have "sel c \<noteq> DM9KS_EPCR \<and> sel c \<noteq> DM9KS_EPDRL \<and> sel c \<noteq> DM9KS_EPDRH"
      by (auto simp: filter_reg_def DM9KS_regs)
    then show ?thesis by (simp add: chip_reads_def)
  next
    case False
    then show ?thesis using phy_chip_ok_demo by (simp add: demo_port_def chip_reads_def DM9KS_regs)
  qed
  then show ?thesis
    by (auto simp: phy_chip_ok_def full_port_def eager_def fresh_dmfe_def)
qed


text \<open>A chip that reports a packet and then shows a byte that is neither 0 nor 1 in front of it.\<close>

definition bad_port :: "u8 port" where
  "bad_port =
     \<lparr>outb = (\<lambda>v a m. if a = 0 then v else m), outw = (\<lambda>_ _ m. m), outl = (\<lambda>_ _ m. m),
      inb = (\<lambda>_ m. (if m = DM9KS_ISR then 1 else 6, m)), inw = (\<lambda>_ m. (0, m)), inl = (\<lambda>_ m. (0, m))\<rparr>"

lemma bad_access:
  "in8 bad_port a s = (if chip s = DM9KS_ISR then 1 else 6, s)"
  "io_addr s = 0 \<Longrightarrow> io_data s = 4 \<Longrightarrow> ior bad_port r s = (if r = DM9KS_ISR then 1 else 6, s\<lparr>chip := r\<rparr>)"
  "io_addr s = 0 \<Longrightarrow> io_data s = 4 \<Longrightarrow> iow bad_port r v s = s\<lparr>chip := r\<rparr>"
  by (simp_all add: ior_def iow_def out8_def in8_def bad_port_def)

lemma bad_port_settles: "settles bad_port (0, 4)"
proof -
  have "wait_clear bad_port DM9KS_EPCR s = Some (snd (ior bad_port DM9KS_EPCR s))"
    if "io_addr s = 0" "io_data s = 4" for s
    using that by (subst wait_clear.simps) (simp add: bad_access DM9KS_regs)
  then show ?thesis by (simp add: settles_def config_def)
qed

lemma lock_calls_reset: "dmfe_reset lx crc p s = Some s' \<Longrightarrow> lock_calls s' = lock_calls s @ init_calls lx"
proof -
  assume run: "dmfe_reset lx crc p s = Some s'"
  obtain g s1 where 1: "in8 p (io_addr s) s = (g, s1)" by fastforce
  let ?s2 = "(emit [Other ''netif_stop_queue'' 0] s1)\<lparr>reset_counter := reset_counter (emit [Other ''netif_stop_queue'' 0] s1) + 1\<rparr>"
  obtain s3 s4 where 3: "dmfe_init_dm9000 lx crc p ?s2 = Some s3"
      "reset_wait_link p 1000 (s3\<lparr>Speed := 10\<rparr>) = Some s4"
      "s' = out8 p g (io_addr s4) (emit [Other ''netif_wake_queue'' 0] s4)"
    using run 1 by (auto simp: dmfe_reset_def Let_def Option.bind_eq_Some_conv)
  have "lock_calls ?s2 = lock_calls s" using lc.obs_in8 [OF 1] by (simp add: lock_call_def)
  then show ?thesis
    using lock_calls_init [OF 3(1)] lc.obs_reset_wait_link [OF 3(2)] 3(3) by (simp add: lock_call_def)
qed

lemma bad_run:
  "\<exists>s'. dmfe_interrupt Linux_3_4 (\<lambda>_. 0) bad_port (\<lambda>_. True) (fresh_dmfe 0 0) = Some s'
    \<and> lock_calls s' = [Other ''spin_lock'' 0] @ init_calls Linux_3_4 @ [Other ''spin_unlock'' 0]"
proof -
  define u where "u = emit [Other ''spin_lock'' 0] (fresh_dmfe 0 0 :: u8 dmfe)"
  let ?d = "u\<lparr>cont_rx_pkt_cnt := 0, chip := DM9KS_MRCMDX\<rparr>"
  have a: "io_addr u = 0" "io_data u = 4" "fst (config ?d) = (0, 4)" "chip u = 0"
    by (simp_all add: u_def fresh_dmfe_def config_def)
  obtain s2 where s2: "dmfe_reset Linux_3_4 (\<lambda>_. 0) bad_port ?d = Some s2"
    using reset_returns [of bad_port ?d] bad_port_settles a(3) by auto
  have "rx_step Linux_3_4 (\<lambda>_. 0) bad_port True (u\<lparr>chip := DM9KS_ISR, cont_rx_pkt_cnt := 0\<rparr>) = Some (Inl s2)"
    using a s2 by (simp add: rx_step_def bad_access DM9KS_regs)
  then have rx: "dmfe_packet_receive Linux_3_4 (\<lambda>_. 0) bad_port (\<lambda>_. True) (u\<lparr>chip := DM9KS_ISR\<rparr>) = Some s2"
    unfolding dmfe_packet_receive_def by (subst rx_loop.simps) simp
  let ?t = "\<lambda>s. iow bad_port DM9KS_IMR (if cont_rx_pkt_cnt s \<ge> CONT_RX_PKT_CNT then 0xa2 else DM9KS_REGFF) s"
  have "dmfe_interrupt Linux_3_4 (\<lambda>_. 0) bad_port (\<lambda>_. True) (fresh_dmfe 0 0) =
      Some (emit [Other ''spin_unlock'' 0] (out8 bad_port 6 (io_addr (?t s2)) (?t s2)))"
    using a rx by (simp add: dmfe_interrupt_def Let_def bad_access DM9KS_regs u_def [symmetric])
  moreover have "lock_calls ?d = [Other ''spin_lock'' 0]" by (simp add: lock_calls_def u_def fresh_dmfe_def lock_call_def)
  moreover have "lock_calls (emit [Other ''spin_unlock'' 0] (out8 bad_port 6 b (?t s2))) =
      lock_calls s2 @ [Other ''spin_unlock'' 0]" for b
    unfolding lock_calls_emit by (simp add: lock_call_def)
  ultimately show ?thesis using lock_calls_reset [OF s2] by simp
qed

lemma fresh_lock: "lock_state (fresh_dmfe m a) = Some False" "lock_calls (fresh_dmfe m a) = []"
  by (simp_all add: lock_state_def lock_calls_def fresh_dmfe_def)


theorem reset_loses_lock_witness:
  "\<exists>s'. dmfe_interrupt Linux_3_4 (\<lambda>_. 0) bad_port (\<lambda>_. True) (fresh_dmfe 0 0) = Some s'
    \<and> unlocks_free (Some False) (lock_calls s')"
proof -
  obtain s' where s': "dmfe_interrupt Linux_3_4 (\<lambda>_. 0) bad_port (\<lambda>_. True) (fresh_dmfe 0 0) = Some s'"
      "lock_calls s' = [Other ''spin_lock'' 0] @ init_calls Linux_3_4 @ [Other ''spin_unlock'' 0]"
    using bad_run by blast
  obtain cs where "lock_calls s' = lock_calls (fresh_dmfe (0 :: u8) 0) @ cs"
      "unlocks_free (Some False) cs \<longleftrightarrow> Other ''spin_lock_init'' 0 \<in> set cs"
    using reset_loses_lock [OF fresh_lock(1) s'(1)] by blast
  then show ?thesis using s' by (auto simp: fresh_lock init_calls_def)
qed

end
