(* ===== verification/Dm9000Send.thy ===== *)
theory Dm9000Send
  imports Dm9000Net
begin

text \<open>
  What reaches the wire: transmission by dmfe_start_xmit of dm9000_first/dm9dev9000c.c on a chip whose
  transmit side behaves as its data sheet says, in each of the three widths of the bus.
\<close>

subsection \<open>The transmit side of the chip\<close>

text \<open>
  Through MWCMD bytes are appended to the transmit memory, one access at a time. Writing bit 0 of TCR
  sends as many of them as TXPLL and TXPLH say, and the next packet starts afresh. Reading changes
  nothing, and nor does writing another register.
\<close>

record txchip =
  tsel :: u8
  tmem :: "u8 list"
  tlow :: u8
  thigh :: u8
  sent_frames :: "u8 list list"

definition tx_write :: "u8 \<Rightarrow> txchip \<Rightarrow> txchip" where
  "tx_write v c =
     (if tsel c = DM9KS_MWCMD then c\<lparr>tmem := tmem c @ [v]\<rparr>
      else if tsel c = DM9KS_TXPLL then c\<lparr>tlow := v\<rparr>
      else if tsel c = DM9KS_TXPLH then c\<lparr>thigh := v\<rparr>
      else if tsel c = DM9KS_TCR \<and> bit v 0
      then c\<lparr>sent_frames := sent_frames c @ [take (unat (tlow c) + 256 * unat (thigh c)) (tmem c)], tmem := []\<rparr>
      else c)"

definition tx_wide :: "u8 list \<Rightarrow> txchip \<Rightarrow> txchip" where
  "tx_wide bs c = (if tsel c = DM9KS_MWCMD then c\<lparr>tmem := tmem c @ bs\<rparr> else c)"

definition tx_chip_ok :: "'m port \<Rightarrow> u32 \<Rightarrow> u32 \<Rightarrow> ('m \<Rightarrow> txchip) \<Rightarrow> bool" where
  "tx_chip_ok p a d view \<longleftrightarrow>
     a \<noteq> d
     \<and> (\<forall>v m. view (outb p v a m) = (view m)\<lparr>tsel := v\<rparr>)
     \<and> (\<forall>v m. view (outb p v d m) = tx_write v (view m))
     \<and> (\<forall>v m. view (outw p v d m) = tx_wide (bytes16 v) (view m))
     \<and> (\<forall>v m. view (outl p v d m) = tx_wide (bytes32 v) (view m))
     \<and> (\<forall>m. view (snd (inb p d m)) = view m)"

subsection \<open>The copy into the chip\<close>

lemma bytes16_le16: "bytes16 (le16 f i) = [f i, f (i + 1)]"
  by (simp add: le16_def bytes16_le)

lemma bytes32_le32: "bytes32 (le32 f i) = [f i, f (i + 1), f (i + 2), f (i + 3)]"
proof -
  have hi: "\<not> bit (x :: u8) n" if "8 \<le> n" for x n
    using that bit_imp_le_length [of x n] by auto
  have "ucast (le32 f i) = f i" "ucast (drop_bit 8 (le32 f i)) = f (i + 1)"
    "ucast (drop_bit 16 (le32 f i)) = f (i + 2)" "ucast (drop_bit 24 (le32 f i)) = f (i + 3)"
    by (rule bit_word_eqI; auto simp: le32_def le16_def bit_simps hi numeral_3_eq_3)+
  then show ?thesis by (simp add: bytes32_def)
qed

text \<open>Whole accesses of \<^verbatim>\<open>w\<close> bytes make up the packet and what follows it in memory.\<close>

lemma chunks: "concat (map (\<lambda>i. map f [w * i..<w * i + w]) [0..<n]) = map f [0..<w * n]"
proof (induction n)
  case (Suc n)
  have "map f [0..<w * n] @ map f [w * n..<w * n + w] = map f [0..<w * n + w]"
    using upt_add_eq_append [of 0 "w * n" w] by (simp flip: map_append)
  moreover have "concat (map (\<lambda>i. map f [w * i..<w * i + w]) [0..<Suc n]) =
      concat (map (\<lambda>i. map f [w * i..<w * i + w]) [0..<n]) @ map f [w * n..<w * n + w]"
    by simp
  ultimately show ?case using Suc by (simp add: add.commute)
qed simp

lemma four: "map f [k..<k + 4] = [f k, f (k + 1), f (k + 2), f (k + 3)]"
  by (simp add: numeral_eq_Suc upt_conv_Cons)

lemma fold_wide:
  assumes "\<And>i m. tsel (view m) = DM9KS_MWCMD \<Longrightarrow> view (wr i m) = (view m)\<lparr>tmem := tmem (view m) @ g i\<rparr>"
    and "tsel (view m) = DM9KS_MWCMD"
  shows "view (fold wr is m) = (view m)\<lparr>tmem := tmem (view m) @ concat (map g is)\<rparr>"
  using assms(2)
proof (induction "is" arbitrary: m)
  case (Cons i "is")
  have "view (wr i m) = (view m)\<lparr>tmem := tmem (view m) @ g i\<rparr>" by (rule assms(1) [OF Cons.prems])
  with Cons show ?case by simp
qed simp

lemma send_data_fills:
  assumes "tx_chip_ok p a d view" "io_data s = d" "tsel (view (chip s)) = DM9KS_MWCMD" "io_mode s \<in> {0, 1, 2}"
  shows "\<exists>extra. view (chip (send_data p f len s)) =
    (view (chip s))\<lparr>tmem := tmem (view (chip s)) @ map f [0..<len] @ extra\<rparr>"
proof -
  have ok: "view (outb p v d m) = (view m)\<lparr>tmem := tmem (view m) @ [v]\<rparr>"
    "view (outw p u d m) = (view m)\<lparr>tmem := tmem (view m) @ bytes16 u\<rparr>"
    "view (outl p x d m) = (view m)\<lparr>tmem := tmem (view m) @ bytes32 x\<rparr>"
    if "tsel (view m) = DM9KS_MWCMD" for v u x m
    using assms(1) that by (simp_all add: tx_chip_ok_def tx_write_def tx_wide_def)
  have split: "\<exists>extra. map f [0..<n] = map f [0..<len] @ extra" if "len \<le> n" for n
    using that upt_add_eq_append [of 0 len "n - len"] by auto
  consider "io_mode s = 2" | "io_mode s = 0" | "io_mode s = 1" using assms(4) by auto
  then show ?thesis
  proof cases
    case 1
    have "view (chip (send_data p f len s)) = (view (chip s))\<lparr>tmem := tmem (view (chip s)) @
        concat (map (\<lambda>i. [f i]) [0..<len])\<rparr>"
      using fold_wide [of view "\<lambda>i. outb p (f i) d" "\<lambda>i. [f i]", OF ok(1) assms(3)] 1 assms(2)
      by (simp add: send_data_def)
    then show ?thesis by (intro exI [of _ "[]"]) simp
  next
    case 2
    let ?n = "(len + 1) div 2"
    have "view (chip (send_data p f len s)) = (view (chip s))\<lparr>tmem := tmem (view (chip s)) @
        concat (map (\<lambda>i. bytes16 (le16 f (2 * i))) [0..<?n])\<rparr>"
      using fold_wide [of view "\<lambda>i. outw p (le16 f (2 * i)) d" "\<lambda>i. bytes16 (le16 f (2 * i))", OF ok(2) assms(3)]
        2 assms(2) by (simp add: send_data_def)
    moreover have "(\<lambda>i. bytes16 (le16 f (2 * i))) = (\<lambda>i. map f [2 * i..<2 * i + 2])"
      by (simp add: bytes16_le16 upt_rec)
    moreover have "len \<le> 2 * ?n" by arith
    then obtain extra where "map f [0..<2 * ?n] = map f [0..<len] @ extra" using split by blast
    ultimately show ?thesis using chunks [of f 2 ?n] by (simp only:) blast
  next
    case 3
    let ?n = "(len + 3) div 4"
    have "view (chip (send_data p f len s)) = (view (chip s))\<lparr>tmem := tmem (view (chip s)) @
        concat (map (\<lambda>i. bytes32 (le32 f (4 * i))) [0..<?n])\<rparr>"
      using fold_wide [of view "\<lambda>i. outl p (le32 f (4 * i)) d" "\<lambda>i. bytes32 (le32 f (4 * i))", OF ok(3) assms(3)]
        3 assms(2) by (simp add: send_data_def)
    moreover have "(\<lambda>i. bytes32 (le32 f (4 * i))) = (\<lambda>i. map f [4 * i..<4 * i + 4])"
      by (simp only: bytes32_le32 four)
    moreover have "len \<le> 4 * ?n" by arith
    then obtain extra where "map f [0..<4 * ?n] = map f [0..<len] @ extra" using split by blast
    ultimately show ?thesis using chunks [of f 4 ?n] by (simp only:) blast
  qed
qed

subsection \<open>A transmission\<close>

definition on_tx :: "('m \<Rightarrow> txchip) \<Rightarrow> u32 \<Rightarrow> u32 \<Rightarrow> u8 \<Rightarrow> 'm dmfe \<Rightarrow> txchip \<Rightarrow> bool" where
  "on_tx view a d md s c \<longleftrightarrow> io_addr s = a \<and> io_data s = d \<and> io_mode s = md \<and> view (chip s) = c"

lemma on_tx_simps [simp]:
  "on_tx view a d md (emit cs s) c = on_tx view a d md s c"
  "on_tx view a d md (s\<lparr>cont_rx_pkt_cnt := k\<rparr>) c = on_tx view a d md s c"
  "on_tx view a d md (s\<lparr>tx_pkt_cnt := k, tx_packets := w, tx_bytes := b\<rparr>) c = on_tx view a d md s c"
  by (simp_all add: on_tx_def emit_def)

lemma on_tx_access:
  assumes "tx_chip_ok p a d view" "on_tx view a d md s c"
  shows "on_tx view a d md (iow p r v s) (tx_write v (c\<lparr>tsel := r\<rparr>))"
    "on_tx view a d md (snd (ior p r s)) (c\<lparr>tsel := r\<rparr>)"
    "on_tx view a d md (out8 p r (io_addr s) s) (c\<lparr>tsel := r\<rparr>)"
  using assms by (simp_all add: on_tx_def tx_chip_ok_def iow_def ior_def in8_def out8_def Let_def case_prod_beta)

lemma length_bytes: "unat (of_nat len :: u8) + 256 * unat (of_nat (len div 256) :: u8) = len" if "len < 65536"
  using that by (simp add: unat_of_nat)

lemma xmit_run:
  assumes ok: "tx_chip_ok p a d view" and on: "on_tx view a d md s c" and md: "md \<in> {0, 1, 2}"
    and len: "len < 65536" and start: "tmem c = []" "\<not> tx_full s"
  shows "\<exists>s'. dmfe_start_xmit p f len s = (0, s')
    \<and> (\<exists>c'. on_tx view a d md s' c' \<and> tmem c' = [] \<and> sent_frames c' = sent_frames c @ [map f [0..<len]])"
proof -
  let ?s0 = "s\<lparr>tx_pkt_cnt := tx_pkt_cnt s + 1, tx_packets := tx_packets s + 1, tx_bytes := tx_bytes s + of_nat len\<rparr>"
  define s1 where "s1 = (if tx_full ?s0 then emit [Other ''netif_stop_queue'' 0] ?s0 else ?s0)"
  define s2 where "s2 = snd (ior p DM9KS_MDWAL (snd (ior p DM9KS_MDWAH (iow p DM9KS_IMR DM9KS_DISINTR s1))))"
  define s3 where "s3 = iow p DM9KS_TXPLH (of_nat (len div 256)) (iow p DM9KS_TXPLL (of_nat len) s2)"
  define s4 where "s4 = out8 p DM9KS_MWCMD (io_addr s3) s3"
  define s5 where "s5 = send_data p f len s4"
  define s6 where "s6 = emit [Other ''dev_kfree_skb'' 0] ((emit [Other ''trans_start = jiffies'' 0]
      (iow p DM9KS_TCR 0x1 s5))\<lparr>cont_rx_pkt_cnt := 0\<rparr>)"
  have run: "dmfe_start_xmit p f len s = (0, iow p DM9KS_IMR DM9KS_REGFF s6)"
    using start(2) by (simp add: dmfe_start_xmit_def Let_def case_prod_beta s1_def s2_def s3_def s4_def s5_def s6_def)
  note step = on_tx_access [OF ok]
  let ?c1 = "c\<lparr>tsel := DM9KS_MDWAL\<rparr>"
  let ?c3 = "c\<lparr>tlow := of_nat len, thigh := of_nat (len div 256), tsel := DM9KS_MWCMD\<rparr>"
  have 1: "on_tx view a d md s1 c" using on by (simp add: s1_def)
  have 2: "on_tx view a d md s2 ?c1"
    using step(2) [OF step(2) [OF step(1) [OF 1, of DM9KS_IMR DM9KS_DISINTR], of DM9KS_MDWAH], of DM9KS_MDWAL] by (simp add: s2_def tx_write_def DM9KS_regs)
  have 3: "on_tx view a d md s4 ?c3"
    using step(3) [OF step(1) [OF step(1) [OF 2, of DM9KS_TXPLL "of_nat len"], of DM9KS_TXPLH "of_nat (len div 256)"],
      of DM9KS_MWCMD] by (simp add: s4_def s3_def tx_write_def DM9KS_regs)
  have fields: "io_addr (send_data p f len t) = io_addr t" "io_data (send_data p f len t) = io_data t"
    "io_mode (send_data p f len t) = io_mode t" for t
    by (simp_all add: send_data_def Let_def)
  obtain extra where 5: "on_tx view a d md s5 (?c3\<lparr>tmem := map f [0..<len] @ extra\<rparr>)"
    using send_data_fills [OF ok, of s4 f len] 3 md start(1) by (auto simp: on_tx_def s5_def fields)
  have 6: "on_tx view a d md s6 (?c3\<lparr>tsel := DM9KS_TCR, sent_frames := sent_frames c @ [map f [0..<len]], tmem := []\<rparr>)"
    using step(1) [OF 5, of DM9KS_TCR 1] length_bytes [OF len]
    by (simp add: s6_def tx_write_def DM9KS_regs)
  show ?thesis
    using run step(1) [OF 6, of DM9KS_IMR DM9KS_REGFF] by (auto simp: tx_write_def DM9KS_regs)
qed

text \<open>A refused packet touches nothing, so the kernel can offer it again.\<close>

lemma xmit_refused: "tx_full s \<Longrightarrow> dmfe_start_xmit p f len s = (1, s)"
  by (simp add: dmfe_start_xmit_def)

subsection \<open>Properties\<close>


text \<open>A chip with just a transmit side, on a 32-bit bus.\<close>

definition tx_port :: "txchip port" where
  "tx_port =
     \<lparr>outb = (\<lambda>v a c. if a = 0 then c\<lparr>tsel := v\<rparr> else tx_write v c),
      outw = (\<lambda>v a c. tx_wide (bytes16 v) c), outl = (\<lambda>v a c. tx_wide (bytes32 v) c),
      inb = (\<lambda>_ c. (0, c)), inw = (\<lambda>_ c. (0, c)), inl = (\<lambda>_ c. (0, c))\<rparr>"

definition tx_card :: "txchip dmfe" where
  "tx_card = (fresh_dmfe \<lparr>tsel = 0, tmem = [], tlow = 0, thigh = 0, sent_frames = []\<rparr> 0)\<lparr>io_mode := 1\<rparr>"


end
