(* ===== verification/ReadWrite.thy ===== *)
theory ReadWrite
  imports Kernel
begin

text \<open>
  The kernel's fs/read_write.c as the repository carries it (three copies, equal but for sys_hello): the
  system calls that reach the read and write functions of a driver. A file is a record of its mode
  bits, position, inode and methods; the methods are parameters, functions on a state \<^verbatim>\<open>'w\<close> that holds
  what the driver and the memory of the process hold. The system calls run on a table of descriptors;
  references to files, the array of segments and the accounting calls are in the trace. The locks around
  a change of the position are left out: a call runs as a whole. A loop that never ends is \<^verbatim>\<open>None\<close>.
\<close>

subsection \<open>Files\<close>

text \<open>
  \<^verbatim>\<open>loff_t\<close> has 64 bits, \<^verbatim>\<open>size_t\<close> and addresses 32. A result \<^verbatim>\<open>ssize_t\<close> is an \<^verbatim>\<open>int\<close>. A segment of a
  vector is its base and its length.
\<close>

type_synonym i64 = "64 word"
type_synonym iovec = "u32 \<times> u32"

datatype dir = Rd | Wr

record kiocb =
  ki_pos :: i64
  ki_left :: u32
  ki_nbytes :: "u32 option"
  ki_kicked :: bool

text \<open>A method of a driver gets buffer, count and position, and returns its result and the new position.\<close>

type_synonym 'w io_fn = "u32 \<Rightarrow> u32 \<Rightarrow> i64 \<Rightarrow> 'w \<Rightarrow> int \<times> i64 \<times> 'w"
type_synonym 'w iov_fn = "kiocb \<Rightarrow> iovec list \<Rightarrow> i64 \<Rightarrow> 'w \<Rightarrow> int \<times> kiocb \<times> 'w"

record inode =
  i_size :: i64
  s_maxbytes :: i64

record fpos =
  f_pos :: i64
  f_version :: u32

type_synonym seek_fn = "inode \<Rightarrow> i64 \<Rightarrow> u32 \<Rightarrow> fpos \<Rightarrow> i64 \<times> fpos"

text \<open>
  \<^verbatim>\<open>sendfile\<close> gets the position in the input file, the count and the position in the output file, which
  its actor moves.
\<close>

record 'w fops =
  llseek :: "seek_fn option"
  io_op :: "dir \<Rightarrow> 'w io_fn option"
  aio :: "dir \<Rightarrow> 'w iov_fn option"
  sendfile :: "(i64 \<Rightarrow> u32 \<Rightarrow> i64 \<Rightarrow> 'w \<Rightarrow> int \<times> i64 \<times> i64 \<times> 'w) option"
  has_sendpage :: bool

text \<open>
  \<^verbatim>\<open>may dir\<close> are the mode bits \<^verbatim>\<open>FMODE_READ\<close> and \<^verbatim>\<open>FMODE_WRITE\<close>, \<^verbatim>\<open>may_at\<close> the bits \<^verbatim>\<open>FMODE_PREAD\<close> and
  \<^verbatim>\<open>FMODE_PWRITE\<close>. \<^verbatim>\<open>lock_area\<close> is \<^verbatim>\<open>locks_mandatory_area\<close> when the inode has mandatory locks, \<^verbatim>\<open>security\<close>
  is \<^verbatim>\<open>security_file_permission\<close>.
\<close>

record 'w vfile =
  may :: "dir \<Rightarrow> bool"
  may_seek :: bool
  may_at :: "dir \<Rightarrow> bool"
  f_at :: fpos
  f_inode :: inode
  f_op :: "'w fops option"
  lock_area :: "(dir \<Rightarrow> i64 \<Rightarrow> u32 \<Rightarrow> 'w \<Rightarrow> int) option"
  security :: "dir \<Rightarrow> 'w \<Rightarrow> int"

record 'w vfs = kstate +
  fdt :: "u32 \<Rightarrow> nat option"
  filp :: "nat \<Rightarrow> 'w vfile"
  world :: 'w

abbreviation (input) EBADF :: int where "EBADF \<equiv> 9"
abbreviation (input) EOVERFLOW :: int where "EOVERFLOW \<equiv> 75"
abbreviation (input) EIOCBQUEUED :: int where "EIOCBQUEUED \<equiv> 529"
abbreviation (input) EIOCBRETRY :: int where "EIOCBRETRY \<equiv> 530"

subsection \<open>Seeking\<close>

definition seek_target :: "inode \<Rightarrow> i64 \<Rightarrow> u32 \<Rightarrow> fpos \<Rightarrow> i64" where
  "seek_target ino offset origin p =
     (if origin = 2 then offset + i_size ino else if origin = 1 then offset + f_pos p else offset)"

definition move_to :: "i64 \<Rightarrow> fpos \<Rightarrow> fpos" where
  "move_to offset p = (if offset \<noteq> f_pos p then p\<lparr>f_pos := offset, f_version := 0\<rparr> else p)"

text \<open>\<^verbatim>\<open>s_maxbytes\<close> is unsigned, so the second comparison is.\<close>

definition generic_file_llseek :: seek_fn where
  "generic_file_llseek ino offset origin p =
     (let offset = seek_target ino offset origin p
      in if 0 \<le> sint offset \<and> offset \<le> s_maxbytes ino then (offset, move_to offset p)
         else (of_int (- EINVAL), p))"

definition remote_llseek :: seek_fn where
  "remote_llseek ino offset origin p =
     (let offset = seek_target ino offset origin p
      in if 0 \<le> sint offset \<and> offset \<le> s_maxbytes ino then (offset, move_to offset p)
         else (of_int (- EINVAL), p))"

definition no_llseek :: seek_fn where
  "no_llseek ino offset origin p = (of_int (- ESPIPE), p)"

definition default_llseek :: seek_fn where
  "default_llseek ino offset origin p =
     (let offset = seek_target ino offset origin p
      in if 0 \<le> sint offset then (offset, move_to offset p) else (of_int (- EINVAL), p))"

definition vfs_llseek :: "'w vfile \<Rightarrow> i64 \<Rightarrow> u32 \<Rightarrow> i64 \<times> fpos" where
  "vfs_llseek f offset origin =
     (let fn = (if may_seek f
                then (case f_op f of Some ops \<Rightarrow> (case llseek ops of Some fn \<Rightarrow> fn | None \<Rightarrow> default_llseek)
                      | None \<Rightarrow> default_llseek)
                else no_llseek)
      in fn (f_inode f) offset origin (f_at f))"

definition set_at :: "nat \<Rightarrow> fpos \<Rightarrow> 'w vfs \<Rightarrow> 'w vfs" where
  "set_at i p s = s\<lparr>filp := (filp s)(i := (filp s i)\<lparr>f_at := p\<rparr>)\<rparr>"

text \<open>\<^verbatim>\<open>file_pos_write\<close> writes the position only.\<close>

definition file_pos_write :: "nat \<Rightarrow> i64 \<Rightarrow> 'w vfs \<Rightarrow> 'w vfs" where
  "file_pos_write i pos s = set_at i ((f_at (filp s i))\<lparr>f_pos := pos\<rparr>) s"

definition sys_lseek :: "u32 \<Rightarrow> u32 \<Rightarrow> u32 \<Rightarrow> 'w vfs \<Rightarrow> int \<times> 'w vfs" where
  "sys_lseek fd offset origin s =
     (case fdt s fd of
        None \<Rightarrow> (- EBADF, s)
      | Some i \<Rightarrow>
          let s = emit [Fget i] s;
              (ret, s) = (if origin \<le> 2
                 then (case vfs_llseek (filp s i) (scast offset) origin of (res, p) \<Rightarrow>
                        let retval = (ucast res :: u32)
                        in (if res \<noteq> scast retval then - EOVERFLOW else sint retval, set_at i p s))
                 else (- EINVAL, s))
          in (ret, emit [Fput i] s))"

text \<open>\<^verbatim>\<open>sys_llseek\<close> stores the result through a pointer, if the process can be written to (\<^verbatim>\<open>ok\<close>).\<close>

definition sys_llseek :: "bool \<Rightarrow> u32 \<Rightarrow> u32 \<Rightarrow> u32 \<Rightarrow> u32 \<Rightarrow> 'w vfs \<Rightarrow> int \<times> i64 option \<times> 'w vfs" where
  "sys_llseek ok fd offset_high offset_low origin s =
     (case fdt s fd of
        None \<Rightarrow> (- EBADF, None, s)
      | Some i \<Rightarrow>
          let s = emit [Fget i] s;
              (ret, out, s) = (if origin > 2 then (- EINVAL, None, s)
                 else (case vfs_llseek (filp s i) (push_bit 32 (ucast offset_high) OR ucast offset_low) origin of
                        (offset, p) \<Rightarrow>
                          let s = set_at i p s
                          in if 0 \<le> sint offset
                             then if ok then (0, Some offset, s) else (- EFAULT, None, s)
                             else (sint (ucast offset :: u32), None, s)))
          in (ret, out, emit [Fput i] s))"

subsection \<open>One transfer\<close>

definition MAX_RW_COUNT :: u32 where "MAX_RW_COUNT = 0x7fffffff AND NOT 0xfff"

definition rw_verify_area :: "dir \<Rightarrow> 'w vfile \<Rightarrow> i64 \<Rightarrow> u32 \<Rightarrow> 'w \<Rightarrow> int" where
  "rw_verify_area d f pos count w =
     (if sint count < 0 then - EINVAL
      else if sint pos < 0 \<or> sint (pos + ucast count) < 0 then - EINVAL
      else let retval = (case lock_area f of Some lk \<Rightarrow> lk d pos count w | None \<Rightarrow> 0)
           in if retval < 0 then retval
              else if count > MAX_RW_COUNT then int (unat MAX_RW_COUNT) else int (unat count))"

text \<open>
  What the kernel does around a method: whether a range of addresses belongs to the process, what
  happens while the caller sleeps, and how an operation that was only started is waited for.
\<close>

record 'w kernel_env =
  access_ok :: "u32 \<Rightarrow> u32 \<Rightarrow> bool"
  sched :: "kiocb \<Rightarrow> 'w \<Rightarrow> kiocb \<times> 'w"
  wait_on_sync_kiocb :: "kiocb \<Rightarrow> 'w \<Rightarrow> int \<times> kiocb \<times> 'w"

definition wait_on_retry_sync_kiocb :: "'w kernel_env \<Rightarrow> kiocb \<Rightarrow> 'w \<Rightarrow> kiocb \<times> 'w" where
  "wait_on_retry_sync_kiocb env k w =
     (if \<not> ki_kicked k then sched env k w else (k\<lparr>ki_kicked := False\<rparr>, w))"

partial_function (option) retry_loop ::
  "'w kernel_env \<Rightarrow> 'w iov_fn \<Rightarrow> iovec list \<Rightarrow> kiocb \<Rightarrow> 'w \<Rightarrow> (int \<times> kiocb \<times> 'w) option" where
  "retry_loop env fn iov k w =
     (case fn k iov (ki_pos k) w of (ret, k, w) \<Rightarrow>
        if ret \<noteq> - EIOCBRETRY then Some (ret, k, w)
        else case wait_on_retry_sync_kiocb env k w of (k, w) \<Rightarrow> retry_loop env fn iov k w)"

definition sync_transfer ::
  "'w kernel_env \<Rightarrow> 'w iov_fn \<Rightarrow> iovec list \<Rightarrow> kiocb \<Rightarrow> 'w \<Rightarrow> (int \<times> i64 \<times> 'w) option" where
  "sync_transfer env fn iov k w =
     map_option (\<lambda>(ret, k, w).
        (case if ret = - EIOCBQUEUED then wait_on_sync_kiocb env k w else (ret, k, w) of
           (ret, k, w) \<Rightarrow> (ret, ki_pos k, w)))
       (retry_loop env fn iov k w)"

definition do_sync_rw ::
  "'w kernel_env \<Rightarrow> 'w iov_fn \<Rightarrow> u32 \<Rightarrow> u32 \<Rightarrow> i64 \<Rightarrow> 'w \<Rightarrow> (int \<times> i64 \<times> 'w) option" where
  "do_sync_rw env fn buf len pos w =
     sync_transfer env fn [(buf, len)] \<lparr>ki_pos = pos, ki_left = len, ki_nbytes = None, ki_kicked = False\<rparr> w"

text \<open>\<^verbatim>\<open>fsnotify_access\<close> or \<^verbatim>\<open>fsnotify_modify\<close>, \<^verbatim>\<open>add_rchar\<close> or \<^verbatim>\<open>add_wchar\<close>, \<^verbatim>\<open>inc_syscr\<close> or \<^verbatim>\<open>inc_syscw\<close>.\<close>

definition notify :: "dir \<Rightarrow> kcall" where
  "notify d = (case d of Rd \<Rightarrow> Other ''fsnotify_access'' 0 | Wr \<Rightarrow> Other ''fsnotify_modify'' 0)"

definition add_char :: "dir \<Rightarrow> int \<Rightarrow> kcall list" where
  "add_char d ret =
     (if ret > 0 then [Other (case d of Rd \<Rightarrow> ''add_rchar'' | Wr \<Rightarrow> ''add_wchar'') (nat ret)] else [])"

definition inc_sysc :: "dir \<Rightarrow> kcall" where
  "inc_sysc d = Other (case d of Rd \<Rightarrow> ''inc_syscr'' | Wr \<Rightarrow> ''inc_syscw'') 0"

text \<open>\<^verbatim>\<open>vfs_read\<close> and \<^verbatim>\<open>vfs_write\<close> are one text for the two directions.\<close>

definition vfs_rw ::
  "dir \<Rightarrow> 'w kernel_env \<Rightarrow> 'w vfile \<Rightarrow> u32 \<Rightarrow> u32 \<Rightarrow> i64 \<Rightarrow> 'w vfs \<Rightarrow> (int \<times> i64 \<times> 'w vfs) option" where
  "vfs_rw d env f buf count pos s =
     (if \<not> may f d then Some (- EBADF, pos, s)
      else case f_op f of
        None \<Rightarrow> Some (- EINVAL, pos, s)
      | Some ops \<Rightarrow>
          if Option.is_none (io_op ops d) \<and> Option.is_none (aio ops d) then Some (- EINVAL, pos, s)
          else if \<not> access_ok env buf count then Some (- EFAULT, pos, s)
          else let ret = rw_verify_area d f pos count (world s)
               in if ret < 0 then Some (ret, pos, s)
                  else let count = of_int ret; ret = security f d (world s)
                       in if ret \<noteq> 0 then Some (ret, pos, s)
                          else map_option (\<lambda>(ret, pos, w).
                                 (ret, pos, emit ((if ret > 0 then [notify d] else []) @ add_char d ret @ [inc_sysc d])
                                              (s\<lparr>world := w\<rparr>)))
                               (case io_op ops d of
                                  Some fn \<Rightarrow> Some (fn buf count pos (world s))
                                | None \<Rightarrow> do_sync_rw env (the (aio ops d)) buf count pos (world s)))"

definition vfs_read where "vfs_read = vfs_rw Rd"
definition vfs_write where "vfs_write = vfs_rw Wr"

definition sys_rw :: "dir \<Rightarrow> 'w kernel_env \<Rightarrow> u32 \<Rightarrow> u32 \<Rightarrow> u32 \<Rightarrow> 'w vfs \<Rightarrow> (int \<times> 'w vfs) option" where
  "sys_rw d env fd buf count s =
     (case fdt s fd of
        None \<Rightarrow> Some (- EBADF, s)
      | Some i \<Rightarrow>
          let s = emit [Fget i] s
          in map_option (\<lambda>(ret, pos, s). (ret, emit [Fput i] (file_pos_write i pos s)))
               (vfs_rw d env (filp s i) buf count (f_pos (f_at (filp s i))) s))"

definition sys_read where "sys_read = sys_rw Rd"
definition sys_write where "sys_write = sys_rw Wr"

text \<open>\<^verbatim>\<open>sys_pread64\<close> and \<^verbatim>\<open>sys_pwrite64\<close> work on the position they are given.\<close>

definition sys_prw :: "dir \<Rightarrow> 'w kernel_env \<Rightarrow> u32 \<Rightarrow> u32 \<Rightarrow> u32 \<Rightarrow> i64 \<Rightarrow> 'w vfs \<Rightarrow> (int \<times> 'w vfs) option" where
  "sys_prw d env fd buf count pos s =
     (if sint pos < 0 then Some (- EINVAL, s)
      else case fdt s fd of
        None \<Rightarrow> Some (- EBADF, s)
      | Some i \<Rightarrow>
          let s = emit [Fget i] s
          in map_option (\<lambda>(ret, pos, s). (ret, emit [Fput i] s))
               (if may_at (filp s i) d then vfs_rw d env (filp s i) buf count pos s
                else Some (- ESPIPE, pos, s)))"

definition sys_pread64 where "sys_pread64 = sys_prw Rd"
definition sys_pwrite64 where "sys_pwrite64 = sys_prw Wr"

subsection \<open>Vectors\<close>

text \<open>The number of segments that hold the first \<^verbatim>\<open>to\<close> bytes; the last of them is cut.\<close>

fun iov_shorten :: "iovec list \<Rightarrow> u32 \<Rightarrow> u32 \<Rightarrow> nat \<times> iovec list" where
  "iov_shorten [] len to = (0, [])"
| "iov_shorten ((base, l) # iov) len to =
     (if len + l \<ge> to then (1, (base, to - len) # iov)
      else case iov_shorten iov (len + l) to of (seg, iov) \<Rightarrow> (seg + 1, (base, l) # iov))"

definition do_sync_readv_writev ::
  "'w kernel_env \<Rightarrow> 'w iov_fn \<Rightarrow> iovec list \<Rightarrow> u32 \<Rightarrow> i64 \<Rightarrow> 'w \<Rightarrow> (int \<times> i64 \<times> 'w) option" where
  "do_sync_readv_writev env fn iov len pos w =
     sync_transfer env fn iov \<lparr>ki_pos = pos, ki_left = len, ki_nbytes = Some len, ki_kicked = False\<rparr> w"

fun do_loop_readv_writev :: "'w io_fn \<Rightarrow> iovec list \<Rightarrow> i64 \<Rightarrow> 'w \<Rightarrow> int \<Rightarrow> int \<times> i64 \<times> 'w" where
  "do_loop_readv_writev fn [] pos w ret = (ret, pos, w)"
| "do_loop_readv_writev fn ((base, len) # vector) pos w ret =
     (case fn base len pos w of (nr, pos, w) \<Rightarrow>
        if nr < 0 then (if ret = 0 then nr else ret, pos, w)
        else if nr \<noteq> int (unat len) then (ret + nr, pos, w)
        else do_loop_readv_writev fn vector pos w (ret + nr))"

definition UIO_MAXIOV :: u32 where "UIO_MAXIOV = 1024"
definition UIO_FASTIOV :: u32 where "UIO_FASTIOV = 8"

text \<open>The sum of the lengths is a signed 32-bit sum that wraps.\<close>

fun check_segs :: "'w kernel_env \<Rightarrow> iovec list \<Rightarrow> u32 \<Rightarrow> int" where
  "check_segs env [] ret = sint ret"
| "check_segs env ((buf, len) # iov) ret =
     (if sint len < 0 \<or> sint (ret + len) < sint ret then - EINVAL
      else if \<not> access_ok env buf len then - EFAULT
      else check_segs env iov (ret + len))"

text \<open>
  \<^verbatim>\<open>uvec\<close> are the segments the process can supply, \<^verbatim>\<open>room\<close> tells whether memory is left for a long
  vector. The result also holds the vector and whether it was allocated.
\<close>

definition rw_copy_check_uvector ::
  "'w kernel_env \<Rightarrow> bool \<Rightarrow> iovec list \<Rightarrow> u32 \<Rightarrow> int \<times> iovec list \<times> bool" where
  "rw_copy_check_uvector env room uvec nr_segs =
     (if nr_segs = 0 then (0, [], False)
      else if nr_segs > UIO_MAXIOV then (- EINVAL, [], False)
      else if nr_segs > UIO_FASTIOV \<and> \<not> room then (- ENOMEM, [], False)
      else let long = (nr_segs > UIO_FASTIOV)
           in if length uvec < unat nr_segs then (- EFAULT, [], long)
              else let iov = take (unat nr_segs) uvec in (check_segs env iov 0, iov, long))"

text \<open>The body of \<^verbatim>\<open>do_readv_writev\<close> once the vector is in, up to \<^verbatim>\<open>out\<close>; \<^verbatim>\<open>ret\<close> is the length of the vector.\<close>

definition rwv_transfer ::
  "dir \<Rightarrow> 'w kernel_env \<Rightarrow> 'w vfile \<Rightarrow> 'w fops \<Rightarrow> iovec list \<Rightarrow> int \<Rightarrow> i64 \<Rightarrow> 'w \<Rightarrow> (int \<times> i64 \<times> 'w) option" where
  "rwv_transfer d env f ops iov ret pos w =
     (if ret \<le> 0 then Some (ret, pos, w)
      else let tot_len = of_int ret; ret = rw_verify_area d f pos tot_len w
           in if ret < 0 then Some (ret, pos, w)
              else let ret = security f d w
                   in if ret \<noteq> 0 then Some (ret, pos, w)
                      else (case aio ops d of
                              Some fnv \<Rightarrow> do_sync_readv_writev env fnv iov tot_len pos w
                            | None \<Rightarrow> Option.bind (io_op ops d)
                                (\<lambda>fn. Some (do_loop_readv_writev fn iov pos w 0))))"

definition do_readv_writev ::
  "dir \<Rightarrow> 'w kernel_env \<Rightarrow> 'w vfile \<Rightarrow> bool \<Rightarrow> iovec list \<Rightarrow> u32 \<Rightarrow> i64 \<Rightarrow> 'w vfs
    \<Rightarrow> (int \<times> i64 \<times> 'w vfs) option" where
  "do_readv_writev d env f room uvec nr_segs pos s =
     (case f_op f of
        None \<Rightarrow> Some (- EINVAL, pos, s)
      | Some ops \<Rightarrow>
          (case rw_copy_check_uvector env room uvec nr_segs of (ret, iov, long) \<Rightarrow>
             map_option (\<lambda>(ret, pos, w). (ret, pos,
                 emit ((if long then [Kmalloc ''iov'' (unat nr_segs * 8), Kfree ''iov''] else [])
                     @ (if ret + (if d = Rd then 1 else 0) > 0 then [notify d] else [])) (s\<lparr>world := w\<rparr>)))
               (rwv_transfer d env f ops iov ret pos (world s))))"

definition vfs_rwv ::
  "dir \<Rightarrow> 'w kernel_env \<Rightarrow> 'w vfile \<Rightarrow> bool \<Rightarrow> iovec list \<Rightarrow> u32 \<Rightarrow> i64 \<Rightarrow> 'w vfs
    \<Rightarrow> (int \<times> i64 \<times> 'w vfs) option" where
  "vfs_rwv d env f room uvec nr_segs pos s =
     (if \<not> may f d then Some (- EBADF, pos, s)
      else case f_op f of
        None \<Rightarrow> Some (- EINVAL, pos, s)
      | Some ops \<Rightarrow>
          if Option.is_none (aio ops d) \<and> Option.is_none (io_op ops d) then Some (- EINVAL, pos, s)
          else do_readv_writev d env f room uvec nr_segs pos s)"

definition vfs_readv where "vfs_readv = vfs_rwv Rd"
definition vfs_writev where "vfs_writev = vfs_rwv Wr"

definition sys_rwv ::
  "dir \<Rightarrow> 'w kernel_env \<Rightarrow> bool \<Rightarrow> u32 \<Rightarrow> iovec list \<Rightarrow> u32 \<Rightarrow> 'w vfs \<Rightarrow> (int \<times> 'w vfs) option" where
  "sys_rwv d env room fd uvec nr_segs s =
     map_option (\<lambda>(ret, s). (ret, emit (add_char d ret @ [inc_sysc d]) s))
       (case fdt s fd of
          None \<Rightarrow> Some (- EBADF, s)
        | Some i \<Rightarrow>
            let s = emit [Fget i] s
            in map_option (\<lambda>(ret, pos, s). (ret, emit [Fput i] (file_pos_write i pos s)))
                 (vfs_rwv d env (filp s i) room uvec nr_segs (f_pos (f_at (filp s i))) s))"

definition sys_readv where "sys_readv = sys_rwv Rd"
definition sys_writev where "sys_writev = sys_rwv Wr"

subsection \<open>From file to file\<close>

text \<open>
  \<^verbatim>\<open>ppos\<close> is \<^verbatim>\<open>None\<close> for the null pointer, when the position of the input file itself is used. \<^verbatim>\<open>max\<close> (\<^verbatim>\<open>lim\<close> here) is a
  \<^verbatim>\<open>loff_t\<close>, made from the unsigned minimum of the two limits. An open file has an inode, so the
  test for a missing one is left out.
\<close>

definition sendfile_out ::
  "'w vfile \<Rightarrow> (i64 \<Rightarrow> u32 \<Rightarrow> i64 \<Rightarrow> 'w \<Rightarrow> int \<times> i64 \<times> i64 \<times> 'w) \<Rightarrow> nat \<Rightarrow> nat \<Rightarrow> i64 option \<Rightarrow> u32 \<Rightarrow> i64
    \<Rightarrow> 'w vfs \<Rightarrow> int \<times> i64 option \<times> 'w vfs" where
  "sendfile_out fin fn i j ppos count lim s =
     (let fout = filp s j in
      if \<not> may fout Wr then (- EBADF, ppos, s)
      else if \<not> (case f_op fout of Some ops \<Rightarrow> has_sendpage ops | None \<Rightarrow> False) then (- EINVAL, ppos, s)
      else let ret = rw_verify_area Wr fout (f_pos (f_at fout)) count (world s) in
      if ret < 0 then (ret, ppos, s)
      else let count = of_int ret; ret = security fout Wr (world s) in
      if ret \<noteq> 0 then (ret, ppos, s)
      else let lim = (if lim = 0 then min (s_maxbytes (f_inode fin)) (s_maxbytes (f_inode fout)) else lim);
               pos = (case ppos of Some p \<Rightarrow> p | None \<Rightarrow> f_pos (f_at (filp s i)));
               over = (sint (pos + ucast count) > sint lim) in
      if sint pos < 0 then (- EINVAL, ppos, s)
      else if over \<and> sint pos \<ge> sint lim then (- EOVERFLOW, ppos, s)
      else let count = (if over then ucast (lim - pos) else count) in
      (case fn pos count (f_pos (f_at fout)) (world s) of (ret, pos, opos, w) \<Rightarrow>
        let s = file_pos_write j opos (s\<lparr>world := w\<rparr>);
            (ppos, s) = (case ppos of Some _ \<Rightarrow> (Some pos, s) | None \<Rightarrow> (None, file_pos_write i pos s));
            s = emit (add_char Rd ret @ add_char Wr ret @ [inc_sysc Rd, inc_sysc Wr]) s
        in (if sint pos > sint lim then - EOVERFLOW else ret, ppos, s)))"

definition sendfile_in ::
  "nat \<Rightarrow> u32 \<Rightarrow> i64 option \<Rightarrow> u32 \<Rightarrow> i64 \<Rightarrow> 'w vfs \<Rightarrow> int \<times> i64 option \<times> 'w vfs" where
  "sendfile_in i out_fd ppos count lim s =
     (let fin = filp s i in
      if \<not> may fin Rd then (- EBADF, ppos, s)
      else case (case f_op fin of Some ops \<Rightarrow> sendfile ops | None \<Rightarrow> None) of
        None \<Rightarrow> (- EINVAL, ppos, s)
      | Some fn \<Rightarrow>
          if ppos \<noteq> None \<and> \<not> may_at fin Rd then (- ESPIPE, ppos, s)
          else let pos = (case ppos of Some p \<Rightarrow> p | None \<Rightarrow> f_pos (f_at fin));
                   ret = rw_verify_area Rd fin pos count (world s) in
          if ret < 0 then (ret, ppos, s)
          else let count = of_int ret; ret = security fin Rd (world s) in
          if ret \<noteq> 0 then (ret, ppos, s)
          else case fdt s out_fd of
            None \<Rightarrow> (- EBADF, ppos, s)
          | Some j \<Rightarrow> (case sendfile_out fin fn i j ppos count lim (emit [Fget j] s) of
              (ret, ppos, s) \<Rightarrow> (ret, ppos, emit [Fput j] s)))"

definition do_sendfile ::
  "u32 \<Rightarrow> u32 \<Rightarrow> i64 option \<Rightarrow> u32 \<Rightarrow> i64 \<Rightarrow> 'w vfs \<Rightarrow> int \<times> i64 option \<times> 'w vfs" where
  "do_sendfile out_fd in_fd ppos count lim s =
     (case fdt s in_fd of
        None \<Rightarrow> (- EBADF, ppos, s)
      | Some i \<Rightarrow> (case sendfile_in i out_fd ppos count lim (emit [Fget i] s) of
          (ret, ppos, s) \<Rightarrow> (ret, ppos, emit [Fput i] s)))"

definition MAX_NON_LFS :: i64 where "MAX_NON_LFS = 0x7fffffff"

text \<open>
  \<^verbatim>\<open>offset\<close> is the pointer of the caller: null, or the value that can be read there (\<^verbatim>\<open>None\<close>: none can);
  \<^verbatim>\<open>put\<close> tells whether the value can be stored. The result holds what is stored.
\<close>

definition sys_sendfile ::
  "u32 \<Rightarrow> u32 \<Rightarrow> u32 option option \<Rightarrow> bool \<Rightarrow> u32 \<Rightarrow> 'w vfs \<Rightarrow> int \<times> u32 option \<times> 'w vfs" where
  "sys_sendfile out_fd in_fd offset put count s =
     (case offset of
        Some None \<Rightarrow> (- EFAULT, None, s)
      | Some (Some off) \<Rightarrow>
          (case do_sendfile out_fd in_fd (Some (scast off)) count MAX_NON_LFS s of (ret, ppos, s) \<Rightarrow>
             if put then (ret, map_option ucast ppos, s) else (- EFAULT, None, s))
      | None \<Rightarrow> (case do_sendfile out_fd in_fd None count 0 s of (ret, _, s) \<Rightarrow> (ret, None, s)))"

definition sys_sendfile64 ::
  "u32 \<Rightarrow> u32 \<Rightarrow> i64 option option \<Rightarrow> bool \<Rightarrow> u32 \<Rightarrow> 'w vfs \<Rightarrow> int \<times> i64 option \<times> 'w vfs" where
  "sys_sendfile64 out_fd in_fd offset put count s =
     (case offset of
        Some None \<Rightarrow> (- EFAULT, None, s)
      | Some (Some pos) \<Rightarrow>
          (case do_sendfile out_fd in_fd (Some pos) count 0 s of (ret, ppos, s) \<Rightarrow>
             if put then (ret, ppos, s) else (- EFAULT, None, s))
      | None \<Rightarrow> (case do_sendfile out_fd in_fd None count 0 s of (ret, _, s) \<Rightarrow> (ret, None, s)))"

subsection \<open>What a transfer does\<close>

lemma uint_nonneg: "0 \<le> sint x \<Longrightarrow> uint x = sint x" for x :: i64
  using sint_lt [of x] by (simp add: uint_sint take_bit_int_eq_self)

lemma rw_verify_area_nonneg:
  assumes "0 \<le> rw_verify_area d f pos count w"
  shows "rw_verify_area d f pos count w = int (min (unat count) 0x7ffff000)"
    "0 \<le> sint pos" "sint pos + int (unat count) < 2 ^ 63"
proof -
  have c: "0 \<le> sint count" and p: "0 \<le> sint pos" "0 \<le> sint (pos + ucast count)"
    using assms by (auto simp: rw_verify_area_def Let_def split: if_split_asm)
  show "0 \<le> sint pos" by fact
  have m: "unat MAX_RW_COUNT = 0x7ffff000" by (simp add: MAX_RW_COUNT_def)
  show "rw_verify_area d f pos count w = int (min (unat count) 0x7ffff000)"
    using assms by (auto simp: rw_verify_area_def Let_def m word_less_nat_alt split: if_split_asm)
  have u: "uint pos = sint pos" "uint (pos + ucast count) = sint (pos + ucast count)"
    using p by (simp_all only: uint_nonneg)
  have "uint pos < 2 ^ 63" using u(1) sint_lt [of pos] by simp
  moreover have "uint (ucast count :: i64) = int (unat count)"
    using uint_lt2p [of count] by (simp add: unsigned_ucast_eq take_bit_int_eq_self)
  moreover have "int (unat count) < 2 ^ 32" using uint_lt2p [of count] by simp
  ultimately have "uint (pos + ucast count) = uint pos + int (unat count)"
    by (simp add: uint_plus_if')
  then show "sint pos + int (unat count) < 2 ^ 63"
    using u sint_lt [of "pos + ucast count"] by simp
qed

text \<open>\<^verbatim>\<open>vfs_rw\<close> as a function of the drivers' state alone, with the calls it makes.\<close>

definition vfs_result ::
  "dir \<Rightarrow> 'w kernel_env \<Rightarrow> 'w vfile \<Rightarrow> u32 \<Rightarrow> u32 \<Rightarrow> i64 \<Rightarrow> 'w \<Rightarrow> (int \<times> i64 \<times> 'w \<times> kcall list) option" where
  "vfs_result d env f buf count pos w =
     map_option (\<lambda>(ret, pos, s). (ret, pos, world s, kt s))
       (vfs_rw d env f buf count pos \<lparr>kt = [], fdt = \<lambda>_. None, filp = \<lambda>_. f, world = w\<rparr>)"

lemma vfs_rw_result:
  "vfs_rw d env f buf count pos s =
     map_option (\<lambda>(ret, pos, w, cs). (ret, pos, emit cs (s\<lparr>world := w\<rparr>))) (vfs_result d env f buf count pos (world s))"
  by (simp add: vfs_result_def vfs_rw_def Let_def emit_def option.map_comp comp_def case_prod_unfold
      split: option.split)

lemma rw_verify_area_f_at [simp]: "rw_verify_area d (f\<lparr>f_at := p\<rparr>) pos count w = rw_verify_area d f pos count w"
  by (simp add: rw_verify_area_def)

lemma vfs_result_f_at [simp]: "vfs_result d env (f\<lparr>f_at := p\<rparr>) buf count pos w = vfs_result d env f buf count pos w"
  by (simp add: vfs_result_def vfs_rw_def Let_def emit_def option.map_comp comp_def case_prod_unfold
      split: option.split)

text \<open>Calls that take nothing and give nothing back.\<close>

definition neutral :: "kcall list \<Rightarrow> bool" where
  "neutral cs \<longleftrightarrow> (\<forall>c \<in> set cs. \<exists>name n. c = Other name n)"

lemma neutral_simps [simp]:
  "neutral []" "neutral (Other name n # cs) \<longleftrightarrow> neutral cs" "neutral (cs @ ds) \<longleftrightarrow> neutral cs \<and> neutral ds"
  "neutral (add_char d ret)" "neutral (inc_sysc d # cs) \<longleftrightarrow> neutral cs" "neutral (notify d # cs) \<longleftrightarrow> neutral cs"
  by (auto simp: neutral_def add_char_def inc_sysc_def notify_def split: dir.split)

lemma held_neutral: "neutral cs \<Longrightarrow> held_from h cs = h"
  by (induction cs arbitrary: h) (auto simp: neutral_def)

lemma vfs_result_neutral:
  assumes "vfs_result d env f buf count pos w = Some (ret, pos', w', cs)"
  shows "neutral cs"
  using assms by (auto simp: vfs_result_def vfs_rw_def Let_def emit_def split: if_split_asm option.split_asm)

text \<open>
  A file's own method is reached only by a call that passes all checks, with a count cut to what an
  \<^verbatim>\<open>int\<close> holds, and then its result is the result.
\<close>

lemma vfs_result_method:
  assumes "vfs_result d env f buf count pos w = Some (ret, pos', w', cs)"
    "f_op f = Some ops" "io_op ops d = Some fn"
  shows "ret \<noteq> 0 \<and> pos' = pos \<and> w' = w \<and> cs = []
    \<or> may f d \<and> access_ok env buf count \<and> security f d w = 0 \<and> 0 \<le> sint pos \<and> sint pos + int (unat count) < 2 ^ 63
      \<and> fn buf (of_nat (min (unat count) 0x7ffff000)) pos w = (ret, pos', w')"
proof (cases "may f d \<and> access_ok env buf count \<and> 0 \<le> rw_verify_area d f pos count w \<and> security f d w = 0")
  case True
  then show ?thesis
    using assms rw_verify_area_nonneg [of d f pos count w]
    by (cases "fn buf (of_nat (min (unat count) 0x7ffff000)) pos w")
      (auto simp: vfs_result_def vfs_rw_def Let_def emit_def split: if_split_asm)
next
  case False
  then show ?thesis using assms
    by (auto simp: vfs_result_def vfs_rw_def Let_def split: if_split_asm)
qed

subsection \<open>Sequences of system calls\<close>

datatype syscall_op =
    Lseek u32 u32 u32
  | Llseek bool u32 u32 u32 u32
  | Rw dir u32 u32 u32
  | Prw dir u32 u32 u32 i64
  | Rwv dir bool u32 "iovec list" u32
  | Sendfile u32 u32 "u32 option option" bool u32
  | Sendfile64 u32 u32 "i64 option option" bool u32

fun syscall_step :: "'w kernel_env \<Rightarrow> syscall_op \<Rightarrow> 'w vfs \<Rightarrow> (int \<times> 'w vfs) option" where
  "syscall_step env (Lseek fd off origin) s = Some (sys_lseek fd off origin s)"
| "syscall_step env (Llseek ok fd hi lo origin) s =
     (case sys_llseek ok fd hi lo origin s of (ret, _, s) \<Rightarrow> Some (ret, s))"
| "syscall_step env (Rw d fd buf count) s = sys_rw d env fd buf count s"
| "syscall_step env (Prw d fd buf count pos) s = sys_prw d env fd buf count pos s"
| "syscall_step env (Rwv d room fd uvec nr) s = sys_rwv d env room fd uvec nr s"
| "syscall_step env (Sendfile out inp off put count) s =
     (case sys_sendfile out inp off put count s of (ret, _, s) \<Rightarrow> Some (ret, s))"
| "syscall_step env (Sendfile64 out inp off put count) s =
     (case sys_sendfile64 out inp off put count s of (ret, _, s) \<Rightarrow> Some (ret, s))"

fun syscall_run :: "'w kernel_env \<Rightarrow> syscall_op list \<Rightarrow> 'w vfs \<Rightarrow> 'w vfs option" where
  "syscall_run env [] s = Some s"
| "syscall_run env (c # cs) s = Option.bind (syscall_step env c s) (\<lambda>(_, s). syscall_run env cs s)"

text \<open>
  Methods that never leave a negative position behind, as every file system promises: the position is
  what the next transfer starts from. The laws are asked for positions that are not negative.
\<close>

definition seek_ok :: "seek_fn \<Rightarrow> bool" where
  "seek_ok fn \<longleftrightarrow> (\<forall>ino off origin p. 0 \<le> sint (f_pos p) \<longrightarrow> 0 \<le> sint (f_pos (snd (fn ino off origin p))))"

definition method_ok :: "'w io_fn \<Rightarrow> bool" where
  "method_ok fn \<longleftrightarrow> (\<forall>buf n pos w. 0 \<le> sint pos \<longrightarrow> 0 \<le> sint (fst (snd (fn buf n pos w))))"

definition aio_ok :: "'w iov_fn \<Rightarrow> bool" where
  "aio_ok fn \<longleftrightarrow> (\<forall>k iov w. 0 \<le> sint (ki_pos k) \<longrightarrow> 0 \<le> sint (ki_pos (fst (snd (fn k iov (ki_pos k) w)))))"

definition send_ok :: "(i64 \<Rightarrow> u32 \<Rightarrow> i64 \<Rightarrow> 'w \<Rightarrow> int \<times> i64 \<times> i64 \<times> 'w) \<Rightarrow> bool" where
  "send_ok fn \<longleftrightarrow> (\<forall>pos n opos w. 0 \<le> sint pos \<longrightarrow> 0 \<le> sint opos \<longrightarrow>
     0 \<le> sint (fst (snd (fn pos n opos w))) \<and> 0 \<le> sint (fst (snd (snd (fn pos n opos w)))))"

definition ops_ok :: "'w fops \<Rightarrow> bool" where
  "ops_ok ops \<longleftrightarrow> (\<forall>fn. llseek ops = Some fn \<longrightarrow> seek_ok fn) \<and> (\<forall>d fn. io_op ops d = Some fn \<longrightarrow> method_ok fn)
     \<and> (\<forall>d fn. aio ops d = Some fn \<longrightarrow> aio_ok fn) \<and> (\<forall>fn. sendfile ops = Some fn \<longrightarrow> send_ok fn)"

definition env_ok :: "'w kernel_env \<Rightarrow> bool" where
  "env_ok env \<longleftrightarrow> (\<forall>k w. 0 \<le> sint (ki_pos k) \<longrightarrow> 0 \<le> sint (ki_pos (fst (sched env k w)))
     \<and> 0 \<le> sint (ki_pos (fst (snd (wait_on_sync_kiocb env k w)))))"

text \<open>
  A step keeps the state well formed: the descriptor table and everything of a file but its position are
  as before, no position is negative, and the calls in the trace give back all they took.
\<close>

definition positions_ok :: "'w vfs \<Rightarrow> bool" where
  "positions_ok s \<longleftrightarrow> (\<forall>i. 0 \<le> sint (f_pos (f_at (filp s i))))"

definition blank :: "'w vfile \<Rightarrow> 'w vfile" where
  "blank f = f\<lparr>f_at := \<lparr>f_pos = 0, f_version = 0\<rparr>\<rparr>"

definition same_files :: "'w vfs \<Rightarrow> 'w vfs \<Rightarrow> bool" where
  "same_files s s' \<longleftrightarrow> fdt s' = fdt s \<and> (\<forall>i. blank (filp s' i) = blank (filp s i))"

definition keeps :: "'w vfs \<Rightarrow> 'w vfs \<Rightarrow> bool" where
  "keeps s s' \<longleftrightarrow> same_files s s' \<and> (positions_ok s \<longrightarrow> positions_ok s')"

lemma blank_f_at [simp]: "blank (f\<lparr>f_at := p\<rparr>) = blank f"
  by (simp add: blank_def)

lemma same_files_refl [simp]: "same_files s s"
  by (simp add: same_files_def)

lemma same_files_trans: "same_files s t \<Longrightarrow> same_files t u \<Longrightarrow> same_files s u"
  by (simp add: same_files_def)

lemma keeps_refl [simp]: "keeps s s" by (simp add: keeps_def)

lemma keeps_trans: "keeps s t \<Longrightarrow> keeps t u \<Longrightarrow> keeps s u"
  unfolding keeps_def using same_files_trans by blast

lemma keeps_emit [simp]: "keeps s (emit cs t) = keeps s t"
  by (simp add: keeps_def same_files_def positions_ok_def emit_def)

lemma keeps_emit_left [simp]: "keeps (emit cs s) t = keeps s t"
  by (simp add: keeps_def same_files_def positions_ok_def emit_def)

lemma keeps_world [simp]: "keeps s (t\<lparr>world := w\<rparr>) = keeps s t"
  by (simp add: keeps_def same_files_def positions_ok_def)

lemma keeps_set_at:
  assumes "positions_ok s \<Longrightarrow> 0 \<le> sint (f_pos p)"
  shows "keeps s (set_at i p s)"
  using assms by (auto simp: keeps_def same_files_def positions_ok_def set_at_def)

lemma keeps_file_pos_write:
  "(positions_ok s \<Longrightarrow> 0 \<le> sint pos) \<Longrightarrow> keeps s (file_pos_write i pos s)"
  unfolding file_pos_write_def by (rule keeps_set_at) simp

definition files_ok :: "'w vfs \<Rightarrow> bool" where
  "files_ok s \<longleftrightarrow> (\<forall>i ops. f_op (filp s i) = Some ops \<longrightarrow> ops_ok ops)"

lemma f_op_blank: "f_op f = f_op (blank f)"
  by (simp add: blank_def)

lemma keeps_files_ok: "keeps s s' \<Longrightarrow> files_ok s \<Longrightarrow> files_ok s'"
  unfolding files_ok_def keeps_def same_files_def by (metis f_op_blank)

lemma files_ok_emit [simp]: "files_ok (emit cs s) = files_ok s"
  by (simp add: files_ok_def emit_def)

lemma f_pos_move_to [simp]: "f_pos (move_to offset p) = offset"
  by (simp add: move_to_def)

lemma seek_ok_kernel: "seek_ok default_llseek" "seek_ok no_llseek" "seek_ok generic_file_llseek" "seek_ok remote_llseek"
  by (auto simp: seek_ok_def default_llseek_def no_llseek_def generic_file_llseek_def remote_llseek_def Let_def)

lemma vfs_llseek_pos:
  assumes "\<forall>ops. f_op f = Some ops \<longrightarrow> ops_ok ops" "0 \<le> sint (f_pos (f_at f))"
  shows "0 \<le> sint (f_pos (snd (vfs_llseek f offset origin)))"
proof -
  have "\<exists>fn. vfs_llseek f offset origin = fn (f_inode f) offset origin (f_at f) \<and> seek_ok fn"
    using assms(1) seek_ok_kernel(1,2)
    by (auto simp: vfs_llseek_def Let_def ops_ok_def split: option.split intro!: exI)
  then show ?thesis using assms(2) unfolding seek_ok_def by auto
qed

lemma method_okD: "method_ok fn \<Longrightarrow> fn buf n pos w = (r, pos', w') \<Longrightarrow> 0 \<le> sint pos \<Longrightarrow> 0 \<le> sint pos'"
  unfolding method_ok_def by (metis fst_conv snd_conv)

lemma aio_okD: "aio_ok fn \<Longrightarrow> fn k iov (ki_pos k) w = (r, k', w') \<Longrightarrow> 0 \<le> sint (ki_pos k) \<Longrightarrow> 0 \<le> sint (ki_pos k')"
  unfolding aio_ok_def by (metis fst_conv snd_conv)

lemma send_okD:
  assumes "send_ok fn" "fn pos n opos w = (r, pos', opos', w')" "0 \<le> sint pos" "0 \<le> sint opos"
  shows "0 \<le> sint pos'" "0 \<le> sint opos'"
  using assms unfolding send_ok_def by (metis fst_conv snd_conv)+

lemma env_okD:
  "env_ok env \<Longrightarrow> wait_on_retry_sync_kiocb env k w = (k', w') \<Longrightarrow> 0 \<le> sint (ki_pos k) \<Longrightarrow> 0 \<le> sint (ki_pos k')"
  "env_ok env \<Longrightarrow> wait_on_sync_kiocb env k w = (r, k', w') \<Longrightarrow> 0 \<le> sint (ki_pos k) \<Longrightarrow> 0 \<le> sint (ki_pos k')"
  unfolding env_ok_def wait_on_retry_sync_kiocb_def
  by (metis fst_conv kiocb.select_convs(1) kiocb.surjective kiocb.update_convs(4)) (metis fst_conv snd_conv)

lemma retry_loop_pos:
  "retry_loop env fn iov k w = Some (ret, k', w') \<Longrightarrow> env_ok env \<Longrightarrow> aio_ok fn \<Longrightarrow> 0 \<le> sint (ki_pos k)
    \<Longrightarrow> 0 \<le> sint (ki_pos k')"
  by (drule retry_loop.raw_induct [of "\<lambda>env fn iov k w (ret, k', w').
        env_ok env \<longrightarrow> aio_ok fn \<longrightarrow> 0 \<le> sint (ki_pos k) \<longrightarrow> 0 \<le> sint (ki_pos k')", rotated])
    (auto split: prod.splits if_split_asm dest: aio_okD, meson aio_okD env_okD)

lemma sync_transfer_pos:
  assumes "sync_transfer env fn iov k w = Some (ret, pos', w')" "env_ok env" "aio_ok fn" "0 \<le> sint (ki_pos k)"
  shows "0 \<le> sint pos'"
proof -
  obtain r k1 w1 where l: "retry_loop env fn iov k w = Some (r, k1, w1)"
    using assms(1) by (auto simp: sync_transfer_def)
  then have "0 \<le> sint (ki_pos k1)" using assms(2-4) by (rule retry_loop_pos)
  then show ?thesis using assms(1,2) l
    by (auto simp: sync_transfer_def split: if_split_asm prod.splits dest: env_okD)
qed

lemma vfs_result_pos:
  assumes "vfs_result d env f buf count pos w = Some (ret, pos', w', cs)" "env_ok env"
    "\<forall>ops. f_op f = Some ops \<longrightarrow> ops_ok ops" "0 \<le> sint pos"
  shows "0 \<le> sint pos'"
proof (cases "f_op f")
  case (Some ops)
  note ok = assms(3) [THEN spec, THEN mp, OF Some, unfolded ops_ok_def]
  show ?thesis
  proof (cases "io_op ops d")
    case None
    then have "pos' = pos \<or> (\<exists>fn n r v. aio ops d = Some fn \<and> do_sync_rw env fn buf n pos w = Some (r, pos', v))"
      using assms(1) Some
      by (cases "aio ops d") (auto simp: vfs_result_def vfs_rw_def Let_def split: if_split_asm)
    then show ?thesis using assms(2,4) ok
      by (auto simp: do_sync_rw_def dest!: sync_transfer_pos)
  next
    case fn: (Some fn)
    have "pos' = pos \<or> (\<exists>n. (ret, pos', w') = fn buf n pos w)"
      using vfs_result_method [OF assms(1) Some fn] by metis
    moreover have "method_ok fn" using ok fn by blast
    ultimately show ?thesis using assms(4) by (metis method_okD)
  qed
qed (use assms in \<open>auto simp: vfs_result_def vfs_rw_def split: if_split_asm\<close>)

lemma do_loop_pos:
  assumes "method_ok fn" "0 \<le> sint pos"
  shows "0 \<le> sint (fst (snd (do_loop_readv_writev fn iov pos w ret)))"
  using assms
proof (induction fn iov pos w ret rule: do_loop_readv_writev.induct)
  case (2 fn base len vector pos w ret)
  obtain nr pos1 w1 where f: "fn base len pos w = (nr, pos1, w1)" by (metis prod_cases3)
  then have "0 \<le> sint pos1" by (rule method_okD [OF 2(2) _ 2(3)])
  then show ?case using 2 f by (auto split: prod.split)
qed simp

text \<open>A system call as a whole: what it keeps, and that its trace gives back what it took.\<close>

definition clean :: "'w vfs \<Rightarrow> 'w vfs \<Rightarrow> bool" where
  "clean s s' \<longleftrightarrow> keeps s s' \<and> (\<exists>cs. kt s' = kt s @ cs \<and> held cs = [])"

lemma clean_refl [simp]: "clean s s"
  by (auto simp: clean_def)

lemma clean_trans: "clean s t \<Longrightarrow> clean t u \<Longrightarrow> clean s u"
  unfolding clean_def using keeps_trans by (metis append.assoc held_from_append)

lemma cleanI: "keeps s s' \<Longrightarrow> kt s' = kt s @ cs \<Longrightarrow> held cs = [] \<Longrightarrow> clean s s'"
  by (auto simp: clean_def)

lemma kt_set_at [simp]: "kt (set_at i p s) = kt s"
  by (simp add: set_at_def)

lemma kt_file_pos_write [simp]: "kt (file_pos_write i pos s) = kt s"
  by (simp add: file_pos_write_def)

lemma filp_emit [simp]: "filp (emit cs s) = filp s" "world (emit cs s) = world s" "fdt (emit cs s) = fdt s"
  by (simp_all add: emit_def)

lemma positions_ok_emit [simp]: "positions_ok (emit cs s) = positions_ok s"
  by (simp add: positions_ok_def)

lemma positions_ok_world [simp]: "positions_ok (s\<lparr>world := w\<rparr>) = positions_ok s"
  by (simp add: positions_ok_def)

lemma positions_okD: "positions_ok s \<Longrightarrow> 0 \<le> sint (f_pos (f_at (filp s i)))"
  by (simp add: positions_ok_def)

lemma files_okD: "files_ok s \<Longrightarrow> \<forall>ops. f_op (filp s i) = Some ops \<longrightarrow> ops_ok ops"
  by (simp add: files_ok_def)

lemma keeps_step: "keeps s t \<Longrightarrow> (positions_ok t \<Longrightarrow> 0 \<le> sint pos) \<Longrightarrow> keeps s (file_pos_write i pos t)"
  using keeps_file_pos_write keeps_trans by blast

lemma sys_lseek_clean:
  assumes "files_ok s" "sys_lseek fd offset origin s = (ret, s')"
  shows "clean s s'"
proof -
  have k: "keeps s (set_at i (snd (vfs_llseek (filp s i) off origin)) (emit cs s))" for i off cs
    using keeps_set_at [of "emit cs s" _ i] vfs_llseek_pos [OF files_okD [OF assms(1)]] positions_okD
    by (metis filp_emit(1) keeps_emit_left)
  show ?thesis
  proof (cases "fdt s fd")
    case (Some i)
    let ?t = "if origin \<le> 2 then set_at i (snd (vfs_llseek (filp s i) (scast offset) origin)) (emit [Fget i] s)
              else emit [Fget i] s"
    have "s' = emit [Fput i] ?t"
      using assms(2) Some by (auto simp: sys_lseek_def Let_def case_prod_beta split: if_split_asm)
    then show ?thesis
      using k by (intro cleanI [where cs = "[Fget i, Fput i]"]) auto
  qed (use assms in \<open>simp add: sys_lseek_def\<close>)
qed

lemma sys_llseek_clean:
  assumes "files_ok s" "sys_llseek ok fd hi lo origin s = (ret, out, s')"
  shows "clean s s'"
proof -
  have k: "keeps s (set_at i (snd (vfs_llseek (filp s i) off origin)) (emit cs s))" for i off cs
    using keeps_set_at [of "emit cs s" _ i] vfs_llseek_pos [OF files_okD [OF assms(1)]] positions_okD
    by (metis filp_emit(1) keeps_emit_left)
  show ?thesis
  proof (cases "fdt s fd")
    case (Some i)
    let ?t = "if origin > 2 then emit [Fget i] s
              else set_at i (snd (vfs_llseek (filp s i) (push_bit 32 (ucast hi) OR ucast lo) origin)) (emit [Fget i] s)"
    have "s' = emit [Fput i] ?t"
      using assms(2) Some by (auto simp: sys_llseek_def Let_def case_prod_beta split: if_split_asm)
    then show ?thesis
      using k by (intro cleanI [where cs = "[Fget i, Fput i]"]) auto
  qed (use assms in \<open>simp add: sys_llseek_def\<close>)
qed

lemma sys_rw_clean:
  assumes "files_ok s" "env_ok env" "sys_rw d env fd buf count s = Some (ret, s')"
  shows "clean s s'"
proof (cases "fdt s fd")
  case (Some i)
  then obtain pos' w' cs where r:
    "vfs_result d env (filp s i) buf count (f_pos (f_at (filp s i))) (world s) = Some (ret, pos', w', cs)"
    "s' = emit [Fput i] (file_pos_write i pos' (emit cs ((emit [Fget i] s)\<lparr>world := w'\<rparr>)))"
    using assms(3) by (auto simp: sys_rw_def Let_def vfs_rw_result)
  have "positions_ok s \<Longrightarrow> 0 \<le> sint pos'"
    using vfs_result_pos [OF r(1) assms(2) files_okD [OF assms(1)] positions_okD] by blast
  then have "keeps s s'" unfolding r(2)
    by (auto intro!: keeps_step)
  then show ?thesis
    using vfs_result_neutral [OF r(1)] r(2)
    by (intro cleanI [where cs = "[Fget i] @ cs @ [Fput i]"]) (auto simp: held_neutral)
qed (use assms in \<open>simp add: sys_rw_def\<close>)

lemma sys_prw_clean:
  assumes "sys_prw d env fd buf count pos s = Some (ret, s')"
  shows "clean s s'"
proof (cases "sint pos < 0 \<or> fdt s fd = None")
  case False
  then obtain i where i: "fdt s fd = Some i" "\<not> sint pos < 0" by auto
  show ?thesis
  proof (cases "may_at (filp s i) d")
    case True
    then obtain pos' w' cs where r:
      "vfs_result d env (filp s i) buf count pos (world s) = Some (ret, pos', w', cs)"
      "s' = emit [Fput i] (emit cs ((emit [Fget i] s)\<lparr>world := w'\<rparr>))"
      using assms i by (auto simp: sys_prw_def Let_def vfs_rw_result)
    then show ?thesis
      using vfs_result_neutral [OF r(1)]
      by (intro cleanI [where cs = "[Fget i] @ cs @ [Fput i]"]) (auto simp: held_neutral)
  next
    case False
    then show ?thesis using assms i
      by (intro cleanI [where cs = "[Fget i] @ [Fput i]"]) (auto simp: sys_prw_def Let_def)
  qed
qed (use assms in \<open>auto simp: sys_prw_def split: if_split_asm\<close>)

lemma track_account [simp]: "track h (inc_sysc d) = h" "track h (notify d) = h"
  by (simp_all add: inc_sysc_def notify_def split: dir.split)

lemma rwv_transfer_cases:
  assumes "rwv_transfer d env f ops iov r pos w = Some (ret, pos', w')"
  obtains "pos' = pos" "w' = w"
  | n where "(case aio ops d of Some fnv \<Rightarrow> do_sync_readv_writev env fnv iov n pos w
      | None \<Rightarrow> Option.bind (io_op ops d) (\<lambda>fn. Some (do_loop_readv_writev fn iov pos w 0))) = Some (ret, pos', w')"
  using assms unfolding rwv_transfer_def Let_def by (simp split: if_split_asm)

lemma rwv_transfer_pos:
  assumes "rwv_transfer d env f ops iov r pos w = Some (ret, pos', w')" "env_ok env" "ops_ok ops" "0 \<le> sint pos"
  shows "0 \<le> sint pos'"
  using assms(1)
proof (cases rule: rwv_transfer_cases)
  case (2 n)
  show ?thesis
  proof (cases "aio ops d")
    case None
    then obtain fn where fn: "io_op ops d = Some fn" "do_loop_readv_writev fn iov pos w 0 = (ret, pos', w')"
      using 2 by (auto simp: Option.bind_eq_Some_conv)
    then have "method_ok fn" using assms(3) unfolding ops_ok_def by blast
    from do_loop_pos [OF this assms(4), of iov w 0] show ?thesis using fn(2) by simp
  next
    case (Some fn)
    then have "aio_ok fn" using assms(3) unfolding ops_ok_def by blast
    then show ?thesis using 2 Some assms(2,4)
      by (auto simp: do_sync_readv_writev_def dest: sync_transfer_pos)
  qed
qed (use assms(4) in simp)

lemma vfs_rwv_result:
  assumes "vfs_rwv d env f room uvec nr pos s = Some (ret, pos', s')"
    "env_ok env" "\<forall>ops. f_op f = Some ops \<longrightarrow> ops_ok ops"
  shows "(0 \<le> sint pos \<longrightarrow> 0 \<le> sint pos')
    \<and> (\<exists>w cs. s' = emit cs (s\<lparr>world := w\<rparr>) \<and> held_from [File_ref i] cs = [File_ref i])"
proof -
  have out: ?thesis if "s' = s" "pos' = pos"
    using that by (intro conjI exI [where x = "world s"] exI [where x = "[]"]) simp_all
  show ?thesis
  proof (cases "f_op f = None \<or> \<not> may f d")
    case False
    then obtain ops where ops: "f_op f = Some ops" "may f d" by auto
    obtain r iov long where c: "rw_copy_check_uvector env room uvec nr = (r, iov, long)" by (metis prod_cases3)
    show ?thesis
    proof (cases "rwv_transfer d env f ops iov r pos (world s)")
      case None
      then show ?thesis using out assms(1) ops c
        by (auto simp: vfs_rwv_def do_readv_writev_def split: if_split_asm)
    next
      case (Some res)
      let ?cs = "(if long then [Kmalloc ''iov'' (unat nr * 8), Kfree ''iov''] else [])
          @ (if ret + (if d = Rd then 1 else 0) > 0 then [notify d] else [])"
      obtain w where res: "res = (ret, pos', w) \<and> s' = emit ?cs (s\<lparr>world := w\<rparr>) \<or> s' = s \<and> pos' = pos"
        using assms(1) ops c Some
        by (cases res, simp add: vfs_rwv_def do_readv_writev_def split: if_split_asm) blast+
      have "held_from [File_ref i] ?cs = [File_ref i]"
        by (simp add: notify_def split: dir.split)
      then show ?thesis
        using res out Some rwv_transfer_pos [OF _ assms(2)] assms(3) ops(1) by blast
    qed
  qed (use out assms(1) in \<open>auto simp: vfs_rwv_def split: if_split_asm option.split_asm\<close>)
qed

lemma sys_rwv_clean:
  assumes "files_ok s" "env_ok env" "sys_rwv d env room fd uvec nr s = Some (ret, s')"
  shows "clean s s'"
proof (cases "fdt s fd")
  case None
  then show ?thesis using assms(3)
    by (intro cleanI [where cs = "add_char d ret @ [inc_sysc d]"]) (auto simp: sys_rwv_def held_neutral)
next
  case (Some i)
  then obtain pos' t where t:
    "vfs_rwv d env (filp s i) room uvec nr (f_pos (f_at (filp s i))) (emit [Fget i] s) = Some (ret, pos', t)"
    "s' = emit (add_char d ret @ [inc_sysc d]) (emit [Fput i] (file_pos_write i pos' t))"
    using assms(3) by (auto simp: sys_rwv_def Let_def)
  obtain w cs where r: "0 \<le> sint (f_pos (f_at (filp s i))) \<longrightarrow> 0 \<le> sint pos'"
    "t = emit cs ((emit [Fget i] s)\<lparr>world := w\<rparr>)" "held_from [File_ref i] cs = [File_ref i]"
    using vfs_rwv_result [OF t(1) assms(2) files_okD [OF assms(1)], of i] by blast
  have "keeps s s'" unfolding t(2) r(2)
    using r(1) [THEN mp, OF positions_okD] by (auto intro!: keeps_step)
  then show ?thesis
    by (rule cleanI [where cs = "[Fget i] @ cs @ [Fput i] @ add_char d ret @ [inc_sysc d]"])
      (use t(2) r in \<open>simp_all add: held_neutral\<close>)
qed

text \<open>What \<^verbatim>\<open>sendfile\<close> leaves when its method was called: both positions are stored.\<close>

definition sent ::
  "nat \<Rightarrow> nat \<Rightarrow> i64 option \<Rightarrow> (int \<times> i64 \<times> i64 \<times> 'w) \<Rightarrow> 'w vfs \<Rightarrow> 'w vfs" where
  "sent i j ppos res s =
     (case res of (ret, pos, opos, w) \<Rightarrow>
        emit (add_char Rd ret @ add_char Wr ret @ [inc_sysc Rd, inc_sysc Wr])
          (let t = file_pos_write j opos (s\<lparr>world := w\<rparr>)
           in if ppos = None then file_pos_write i pos t else t))"

lemma sendfile_out_cases:
  assumes "sendfile_out fin fn i j ppos count lim s = (ret, ppos', s')"
  obtains "s' = s" | n where "s' = sent i j ppos
      (fn (case ppos of Some p \<Rightarrow> p | None \<Rightarrow> f_pos (f_at (filp s i))) n (f_pos (f_at (filp s j))) (world s)) s"
proof -
  have "snd (snd (sendfile_out fin fn i j ppos count lim s)) = s
     \<or> (\<exists>n. snd (snd (sendfile_out fin fn i j ppos count lim s)) = sent i j ppos
      (fn (case ppos of Some p \<Rightarrow> p | None \<Rightarrow> f_pos (f_at (filp s i))) n (f_pos (f_at (filp s j))) (world s)) s)"
    unfolding sendfile_out_def sent_def Let_def case_prod_unfold
    by (cases ppos) (simp_all only: option.case fst_conv snd_conv if_distrib [of snd] option.distinct
        if_True if_False refl, auto)
  then show ?thesis using assms that by auto
qed

lemma keeps_file_pos_write_twice:
  assumes "keeps s t" "positions_ok s \<Longrightarrow> 0 \<le> sint pos" shows "keeps s (file_pos_write i pos t)"
  using assms by (auto simp: keeps_def same_files_def positions_ok_def file_pos_write_def set_at_def)

lemma sent_ok:
  assumes "send_ok fn" "positions_ok s \<Longrightarrow> 0 \<le> sint pos"
  shows "keeps s (sent i j ppos (fn pos n (f_pos (f_at (filp s j))) (world s)) s)"
    "\<exists>cs. kt (sent i j ppos (fn pos n (f_pos (f_at (filp s j))) (world s)) s) = kt s @ cs \<and> neutral cs"
proof -
  obtain ret pos' opos' w where f: "fn pos n (f_pos (f_at (filp s j))) (world s) = (ret, pos', opos', w)"
    by (metis prod_cases4)
  have p: "positions_ok s \<Longrightarrow> 0 \<le> sint pos'" "positions_ok s \<Longrightarrow> 0 \<le> sint opos'"
    using send_okD [OF assms(1) f assms(2) positions_okD] by blast+
  show "keeps s (sent i j ppos (fn pos n (f_pos (f_at (filp s j))) (world s)) s)"
    using p by (auto simp: f sent_def Let_def intro!: keeps_file_pos_write_twice)
  show "\<exists>cs. kt (sent i j ppos (fn pos n (f_pos (f_at (filp s j))) (world s)) s) = kt s @ cs \<and> neutral cs"
    by (simp add: f sent_def Let_def)
qed

lemma sendfile_in_cases:
  assumes "sendfile_in i out_fd ppos count lim s = (ret, ppos', s')"
  obtains "s' = s" | ops fn n j t where "f_op (filp s i) = Some ops" "sendfile ops = Some fn"
    "0 \<le> sint (case ppos of Some p \<Rightarrow> p | None \<Rightarrow> f_pos (f_at (filp s i)))"
    "sendfile_out (filp s i) fn i j ppos n lim (emit [Fget j] s) = (ret, ppos', t)" "s' = emit [Fput j] t"
proof -
  define pos where "pos = (case ppos of Some p \<Rightarrow> p | None \<Rightarrow> f_pos (f_at (filp s i)))"
  have pos: "0 \<le> sint pos" if "\<not> rw_verify_area Rd (filp s i) pos count (world s) < 0"
    using that rw_verify_area_nonneg(2) [of Rd "filp s i" pos count "world s"] by simp
  show ?thesis
    using assms that pos unfolding sendfile_in_def Let_def pos_def [symmetric]
    by (force split: if_split_asm prod.split_asm option.split_asm)
qed

lemma do_sendfile_clean:
  assumes "do_sendfile out_fd in_fd ppos count lim s = (ret, ppos', s')" "files_ok s"
  shows "clean s s'"
proof (cases "fdt s in_fd")
  case (Some i)
  obtain t where t: "sendfile_in i out_fd ppos count lim (emit [Fget i] s) = (ret, ppos', t)" "s' = emit [Fput i] t"
    using assms(1) Some by (auto simp: do_sendfile_def split: prod.split_asm)
  have "keeps s t \<and> (\<exists>cs. kt t = kt s @ [Fget i] @ cs \<and> held_from [File_ref i] cs = [File_ref i])"
    using t(1)
  proof (cases rule: sendfile_in_cases)
    case (2 ops fn n j u)
    have fn: "send_ok fn" using assms(2) 2(1,2) by (auto simp: files_ok_def ops_ok_def)
    obtain cs where cs: "keeps s u" "kt u = kt s @ [Fget i, Fget j] @ cs" "neutral cs"
      using 2(4)
    proof (cases rule: sendfile_out_cases)
      case 1
      then show ?thesis using that [of "[]"] by simp
    next
      case (2 n)
      define pos where "pos = (case ppos of Some p \<Rightarrow> p | None \<Rightarrow> f_pos (f_at (filp s i)))"
      let ?v = "emit [Fget i, Fget j] s"
      have u: "u = sent i j ppos (fn pos n (f_pos (f_at (filp ?v j))) (world ?v)) ?v" and "0 \<le> sint pos"
        using 2 \<open>0 \<le> sint _\<close> by (cases ppos; simp add: pos_def)+
      then show ?thesis
        using that sent_ok [OF fn, of ?v pos i j ppos n] unfolding u [symmetric] by auto
    qed
    then show ?thesis unfolding 2(5)
      by (intro conjI exI [where x = "[Fget j] @ cs @ [Fput j]"]) (auto simp: held_neutral)
  qed (auto intro: exI [where x = "[]"])
  then obtain cs where cs: "keeps s t" "kt t = kt s @ [Fget i] @ cs" "held_from [File_ref i] cs = [File_ref i]"
    by blast
  then show ?thesis
    by (intro cleanI [where cs = "[Fget i] @ cs @ [Fput i]"]) (simp_all add: t(2))
qed (use assms(1) in \<open>simp add: do_sendfile_def\<close>)

lemmas clean_calls = sys_lseek_clean sys_llseek_clean sys_rw_clean sys_prw_clean sys_rwv_clean do_sendfile_clean

lemma syscall_step_clean:
  assumes "syscall_step env c s = Some (ret, s')" "files_ok s" "env_ok env"
  shows "clean s s'"
proof (cases c)
  case (Sendfile out inp off put count)
  then show ?thesis using assms(1,2)
    by (auto simp: sys_sendfile_def split: option.split_asm prod.split_asm if_split_asm intro: do_sendfile_clean)
next
  case (Sendfile64 out inp off put count)
  then show ?thesis using assms(1,2)
    by (auto simp: sys_sendfile64_def split: option.split_asm prod.split_asm if_split_asm intro: do_sendfile_clean)
qed (use assms in \<open>auto split: prod.split_asm intro: clean_calls\<close>)

lemma syscall_run_clean:
  assumes "syscall_run env cs s = Some s'" "files_ok s" "env_ok env"
  shows "clean s s'"
  using assms(1,2)
proof (induction cs arbitrary: s)
  case (Cons c cs)
  then obtain ret t where t: "syscall_step env c s = Some (ret, t)" "syscall_run env cs t = Some s'"
    by (auto simp: Option.bind_eq_Some_conv)
  have "clean s t" using t(1) Cons.prems(2) assms(3) by (rule syscall_step_clean)
  then show ?case
    using Cons.IH [OF t(2)] Cons.prems(2) keeps_files_ok clean_trans unfolding clean_def by blast
qed simp

subsection \<open>Vectored reads\<close>

text \<open>
  A read method that serves the bytes \<^verbatim>\<open>data\<close>, as that of a regular file does: what it delivers, and where,
  is added to what \<^verbatim>\<open>placed\<close> reads out of the state.
\<close>

definition serves :: "'w io_fn \<Rightarrow> u8 list \<Rightarrow> ('w \<Rightarrow> (u32 \<times> u8 list) list) \<Rightarrow> bool" where
  "serves fn data placed \<longleftrightarrow> (\<forall>buf n pos w. \<exists>w'.
     let bs = take (unat n) (drop (unat pos) data)
     in fn buf n pos w = (int (length bs), pos + of_nat (length bs), w') \<and> placed w' = placed w @ [(buf, bs)])"

definition total_len :: "iovec list \<Rightarrow> nat" where
  "total_len segs = (\<Sum>(base, len) \<leftarrow> segs. unat len)"

lemma total_len_simps [simp]: "total_len [] = 0" "total_len ((base, len) # segs) = unat len + total_len segs"
  by (simp_all add: total_len_def)

text \<open>\<^verbatim>\<open>iov_shorten\<close> keeps the first \<^verbatim>\<open>to\<close> bytes, or all when there are fewer.\<close>

lemma iov_shorten_total:
  assumes "iov_shorten iov len to = (seg, iov')" "unat len + total_len iov < 2 ^ 32" "len \<le> to"
  shows "unat len + total_len (take seg iov') = min (unat to) (unat len + total_len iov) \<and> seg \<le> length iov"
  using assms
proof (induction iov len to arbitrary: seg iov' rule: iov_shorten.induct)
  case (2 base l iov len to)
  have u: "unat (len + l) = unat len + unat l" using 2(3) by (simp add: unat_word_ariths)
  show ?case
  proof (cases "to \<le> len + l")
    case True
    then have "unat (to - len) = unat to - unat len" using 2(4) by (simp add: unat_sub)
    then show ?thesis using True 2(2,4) u by (auto simp: word_le_nat_alt)
  next
    case False
    obtain n iov1 where n: "iov_shorten iov (len + l) to = (n, iov1)" by fastforce
    have "unat (len + l) + total_len iov < 2 ^ 32" using 2(3) u by simp
    from 2(1) [OF False n this] False n 2(2) u show ?thesis by (auto simp: word_le_nat_alt not_le)
  qed
qed (simp add: word_le_nat_alt)

lemma servesD:
  assumes "serves fn data placed" "bs = take (unat n) (drop (unat pos) data)"
  obtains w' where "fn buf n pos w = (int (length bs), pos + of_nat (length bs), w')"
    "placed w' = placed w @ [(buf, bs)]"
  using assms unfolding serves_def Let_def by blast

lemma unat_advance: "unat pos + n < 2 ^ 63 \<Longrightarrow> unat (pos + of_nat n :: i64) = unat pos + n"
  by (simp add: unat_word_ariths unsigned_of_nat take_bit_nat_eq_self)

lemma sint_small: "unat x < 2 ^ (LENGTH('a) - 1) \<Longrightarrow> sint x = int (unat x)" for x :: "'a :: len word"
proof -
  assume "unat x < 2 ^ (LENGTH('a) - 1)"
  then have "int (unat x) < 2 ^ (LENGTH('a) - 1)" by (metis of_nat_less_iff of_nat_numeral of_nat_power)
  then have "uint x < 2 ^ (LENGTH('a) - 1)" by simp
  moreover have "- (2 ^ (LENGTH('a) - 1)) \<le> uint x" by (rule order_trans [OF _ uint_ge_0]) simp
  ultimately have "sint x = uint x" by (simp add: sint_uint signed_take_bit_int_eq_self)
  then show ?thesis by simp
qed

lemma nat_bound: "int a = k \<Longrightarrow> k + int b < 2 ^ 63 \<Longrightarrow> a + b < 2 ^ 63"
  by simp

lemma rw_verify_area_ok:
  assumes "lock_area f = None" "0 \<le> sint pos" "unat count \<le> 0x7ffff000" "sint pos + int (unat count) < 2 ^ 63"
  shows "rw_verify_area d f pos count w = int (unat count)"
proof -
  have c: "sint count = int (unat count)" using assms(3) by (intro sint_small) simp
  have "int (unat pos) = sint pos" using uint_nonneg [OF assms(2)] by simp
  then have n: "unat pos + unat count < 2 ^ 63" using assms(4) by (rule nat_bound)
  have "unat count < 2 ^ LENGTH(32)" by (rule unsigned_less)
  then have "unat (ucast count :: i64) = unat count"
    by (simp add: unsigned_ucast_eq take_bit_nat_eq_self)
  then have "unat (pos + ucast count) = unat pos + unat count"
    using n by (simp add: unat_word_ariths)
  then have "sint (pos + ucast count) = int (unat pos + unat count)"
    using n by (subst sint_small) simp_all
  then have "\<not> sint (pos + ucast count) < 0" by (metis of_nat_less_0_iff)
  moreover have "\<not> MAX_RW_COUNT < count" using assms(3) by (simp add: MAX_RW_COUNT_def word_less_nat_alt)
  ultimately show ?thesis using assms(1,2) c by (simp add: rw_verify_area_def)
qed

lemma check_segs_ok:
  assumes "\<forall>(base, len) \<in> set segs. access_ok env base len" "unat acc + total_len segs < 2 ^ 31"
  shows "check_segs env segs acc = int (unat acc + total_len segs)"
  using assms
proof (induction segs arbitrary: acc)
  case Nil
  then show ?case by (simp add: sint_small)
next
  case (Cons seg segs)
  obtain base len where seg: "seg = (base, len)" by fastforce
  have u: "unat (acc + len) = unat acc + unat len"
    using Cons.prems(2) seg by (simp add: unat_word_ariths)
  have "sint len = int (unat len)" "sint acc = int (unat acc)" "sint (acc + len) = int (unat acc + unat len)"
    using Cons.prems(2) seg u by (simp_all add: sint_small)
  then show ?case using Cons.IH [of "acc + len"] Cons.prems u seg by simp
qed

lemma do_loop_serves:
  assumes "serves fn data placed" "unat pos + total_len segs < 2 ^ 63" "0 \<le> ret"
    and "bs = take (total_len segs) (drop (unat pos) data)"
  shows "\<exists>w' ps. do_loop_readv_writev fn segs pos w ret = (ret + int (length bs), pos + of_nat (length bs), w')
    \<and> placed w' = placed w @ ps \<and> concat (map snd ps) = bs \<and> map fst ps = take (length ps) (map fst segs)"
  using assms(2-4)
proof (induction segs arbitrary: pos w ret bs)
  case (Cons seg segs)
  obtain base len where seg: "seg = (base, len)" by fastforce
  define b1 where "b1 = take (unat len) (drop (unat pos) data)"
  obtain w1 where w1: "fn base len pos w = (int (length b1), pos + of_nat (length b1), w1)"
    "placed w1 = placed w @ [(base, b1)]"
    using servesD [OF assms(1) b1_def] by metis
  show ?case
  proof (cases "length b1 = unat len")
    case True
    have u: "unat (pos + of_nat (length b1)) = unat pos + length b1"
      using Cons.prems(1) seg True by (intro unat_advance) simp
    define b2 where "b2 = take (total_len segs) (drop (unat (pos + of_nat (length b1))) data)"
    have bs: "bs = b1 @ b2"
      unfolding Cons.prems(3) b2_def u unfolding True seg total_len_simps take_add drop_drop b1_def
      using True [unfolded b1_def length_take length_drop] by (simp add: add.commute)
    obtain w2 ps where "do_loop_readv_writev fn segs (pos + of_nat (length b1)) w1 (ret + int (length b1))
        = (ret + int (length b1) + int (length b2), pos + of_nat (length b1) + of_nat (length b2), w2)"
      "placed w2 = placed w1 @ ps" "concat (map snd ps) = b2" "map fst ps = take (length ps) (map fst segs)"
      using Cons.IH [of "pos + of_nat (length b1)" "ret + int (length b1)" b2 w1] Cons.prems(1,2) u seg True b2_def
      by auto
    then show ?thesis using w1 True seg bs
      by (intro exI [where x = w2] exI [where x = "(base, b1) # ps"]) (simp add: add.assoc)
  next
    case False
    then have "length (drop (unat pos) data) < unat len" by (simp add: b1_def)
    then have "bs = b1" using Cons.prems(3) by (simp add: seg b1_def)
    have "int (length b1) \<noteq> int (unat len)" unfolding of_nat_eq_iff by (fact False)
    then have "int (length b1) \<noteq> uint len" by simp
    then show ?thesis using \<open>bs = b1\<close> w1 seg Cons.prems(2)
      by (intro exI [where x = w1] exI [where x = "[(base, b1)]"]) simp
  qed
qed simp

subsection \<open>Properties\<close>

text \<open>
  C9. The file layer is type safe: over methods that keep positions non-negative, any sequence of seeks,
  reads, writes, positioned and vectored transfers and sendfiles, failing or not, leaves the descriptor
  table and every file's mode, methods and inode as they were and no position negative, and gives back
  every file reference and every vector it allocated.
\<close>

theorem system_calls_type_safe:
  assumes "syscall_run env cs s = Some s'" "files_ok s" "env_ok env" "positions_ok s" "kt s = []"
  shows "positions_ok s' \<and> fdt s' = fdt s \<and> (\<forall>i. blank (filp s' i) = blank (filp s i)) \<and> held (kt s') = []"
  using syscall_run_clean [OF assms(1-3)] assms(4,5)
  by (auto simp: clean_def keeps_def same_files_def)

text \<open>A device whose reads deliver zeros, on descriptor 3.\<close>

definition zero_ops :: "nat fops" where
  "zero_ops = \<lparr>llseek = Some generic_file_llseek,
     io_op = (\<lambda>d. case d of Rd \<Rightarrow> Some (\<lambda>buf n pos w. (int (unat n), pos, w + unat n)) | Wr \<Rightarrow> None),
     aio = (\<lambda>_. None), sendfile = None, has_sendpage = False\<rparr>"

definition zero_sys :: "nat vfs" where
  "zero_sys = \<lparr>kt = [], fdt = [3 \<mapsto> 0], filp = (\<lambda>_. \<lparr>may = (\<lambda>d. d = Rd), may_seek = True, may_at = (\<lambda>_. True),
     f_at = \<lparr>f_pos = 0, f_version = 0\<rparr>, f_inode = \<lparr>i_size = 0, s_maxbytes = 0x7fffffff\<rparr>, f_op = Some zero_ops,
     lock_area = None, security = (\<lambda>_ _. 0)\<rparr>), world = 0\<rparr>"

definition plain_env :: "'w kernel_env" where
  "plain_env = \<lparr>access_ok = (\<lambda>_ _. True), sched = Pair, wait_on_sync_kiocb = (\<lambda>k w. (0, k, w))\<rparr>"

lemma zero_sys_ok: "files_ok zero_sys" "env_ok plain_env" "positions_ok zero_sys" "kt zero_sys = []"
  by (auto simp: files_ok_def ops_ok_def zero_sys_def zero_ops_def seek_ok_kernel method_ok_def env_ok_def
      plain_env_def positions_ok_def split: dir.split_asm)

lemma system_calls_type_safe_witness:
  "\<exists>s'. syscall_run plain_env [Lseek 3 5 0, Rw Wr 3 0 8, Rwv Rd True 4 [] 1] zero_sys = Some s' \<and> held (kt s') = []"
proof -
  obtain s' where s: "syscall_run plain_env [Lseek 3 5 0, Rw Wr 3 0 8, Rwv Rd True 4 [] 1] zero_sys = Some s'"
    by (simp add: sys_lseek_def sys_rw_def vfs_rw_def sys_rwv_def zero_sys_def case_prod_beta Let_def emit_def
        set_at_def file_pos_write_def)
  from system_calls_type_safe [OF s zero_sys_ok] s show ?thesis by blast
qed

text \<open>
  C11. A driver's read or write method is reached through the file layer only for a file open in that
  direction, a buffer of the process, a position and an end that fit a signed 64-bit offset, and with
  a count cut to 0x7ffff000; its result is then the result of the call. Otherwise the call fails, the
  position stays, and the driver is not touched.
\<close>

theorem method_called_in_bounds:
  assumes "fdt s fd = Some i" "f_op (filp s i) = Some ops" "io_op ops d = Some fn"
    "sys_rw d env fd buf count s = Some (ret, s')"
  shows "ret \<noteq> 0 \<and> world s' = world s \<and> f_pos (f_at (filp s' i)) = f_pos (f_at (filp s i))
    \<or> may (filp s i) d \<and> access_ok env buf count
      \<and> (let pos = f_pos (f_at (filp s i)) in 0 \<le> sint pos \<and> sint pos + int (unat count) < 2 ^ 63
          \<and> fn buf (of_nat (min (unat count) 0x7ffff000)) pos (world s) = (ret, f_pos (f_at (filp s' i)), world s'))"
proof -
  let ?pos = "f_pos (f_at (filp s i))"
  obtain pos' w' cs where r: "vfs_result d env (filp s i) buf count ?pos (world s) = Some (ret, pos', w', cs)"
    "s' = emit [Fput i] (file_pos_write i pos' (emit cs ((emit [Fget i] s)\<lparr>world := w'\<rparr>)))"
    using assms(1,4) by (auto simp: sys_rw_def Let_def vfs_rw_result)
  have "world s' = w'" "f_pos (f_at (filp s' i)) = pos'"
    by (simp_all add: r(2) file_pos_write_def set_at_def)
  then show ?thesis
    using vfs_result_method [OF r(1) assms(2,3)] by (auto simp: Let_def)
qed

lemma method_called_in_bounds_witness:
  "\<exists>ret s'. sys_rw Rd plain_env 3 0 8 zero_sys = Some (ret, s') \<and> (ret \<noteq> 0 \<or> world s' = 8)"
proof -
  have "\<not> Option.is_none (sys_rw Rd plain_env 3 0 8 zero_sys)" by code_simp
  then obtain ret s' where s: "sys_rw Rd plain_env 3 0 8 zero_sys = Some (ret, s')"
    by (cases "sys_rw Rd plain_env 3 0 8 zero_sys") auto
  show ?thesis
    using method_called_in_bounds [OF _ _ _ s, of 0 zero_ops "\<lambda>buf n pos w. (int (unat n), pos, w + unat n)"] s
    by (auto simp: zero_sys_def zero_ops_def)
qed

text \<open>
  C13. Seeking to a place and reading or writing there is the positioned call: on a file that can do both,
  after an \<^verbatim>\<open>lseek\<close> to an offset that succeeds, \<^verbatim>\<open>read\<close> and \<^verbatim>\<open>write\<close> return what \<^verbatim>\<open>pread64\<close> and \<^verbatim>\<open>pwrite64\<close> at
  that offset return and do the same to the device. Only the positioned calls leave the position alone.
\<close>

theorem seek_then_transfer:
  assumes "fdt s fd = Some i" "may_at (filp s i) d" "sys_lseek fd off 0 s = (ret, s1)" "ret = sint off"
    "0 \<le> sint off" "may_seek (filp s i)" "f_op (filp s i) = Some ops"
    "llseek ops \<in> {None, Some generic_file_llseek, Some remote_llseek, Some default_llseek}"
  shows "map_option (\<lambda>(r, t). (r, world t)) (sys_rw d env fd buf n s1)
      = map_option (\<lambda>(r, t). (r, world t)) (sys_prw d env fd buf n (scast off) s)
    \<and> (\<forall>r t. sys_prw d env fd buf n (scast off) s = Some (r, t) \<longrightarrow> f_at (filp t i) = f_at (filp s i))"
proof -
  obtain res p where l: "vfs_llseek (filp s i) (scast off) 0 = (res, p)" by fastforce
  have s1: "s1 = emit [Fput i] (set_at i p (emit [Fget i] s))" and r: "sint (ucast res :: u32) = sint off"
    using assms(1,3,4,5) l by (auto simp: sys_lseek_def Let_def split: if_split_asm)
  have "0 \<le> sint (scast off :: i64)" using assms(5) sint_lt [of off]
    by (simp add: signed_scast_eq signed_take_bit_int_eq_self)
  have "f_pos p = scast off"
  proof -
    have "f_pos p = scast off \<or> res = of_int (- EINVAL)"
      using l assms(6-8)
      by (auto simp: vfs_llseek_def generic_file_llseek_def remote_llseek_def default_llseek_def seek_target_def
          Let_def split: if_split_asm)
    moreover have "res \<noteq> of_int (- EINVAL)" using r assms(5) by auto
    ultimately show ?thesis by blast
  qed
  moreover have "filp s1 i = (filp s i)\<lparr>f_at := p\<rparr>" "fdt s1 = fdt s" "world s1 = world s"
    by (simp_all add: s1 set_at_def)
  ultimately show ?thesis using assms(1,2) \<open>0 \<le> sint (scast off :: i64)\<close>
    by (auto simp: sys_rw_def sys_prw_def Let_def vfs_rw_result option.map_comp comp_def case_prod_beta
        file_pos_write_def set_at_def intro!: option.map_cong)
qed

text \<open>A file of bytes whose state is what was read so far, and where to.\<close>

definition bytes_read :: "u8 list \<Rightarrow> (u32 \<times> u8 list) list io_fn" where
  "bytes_read data buf n pos w =
     (let bs = take (unat n) (drop (unat pos) data) in (int (length bs), pos + of_nat (length bs), w @ [(buf, bs)]))"

lemma serves_bytes_read: "serves (bytes_read data) data (\<lambda>w. w)"
  by (simp add: serves_def bytes_read_def Let_def)

definition bytes_ops :: "u8 list \<Rightarrow> (u32 \<times> u8 list) list fops" where
  "bytes_ops data = \<lparr>llseek = Some generic_file_llseek, io_op = (\<lambda>d. case d of Rd \<Rightarrow> Some (bytes_read data) | Wr \<Rightarrow> None),
     aio = (\<lambda>_. None), sendfile = None, has_sendpage = False\<rparr>"

definition bytes_sys :: "u8 list \<Rightarrow> i64 \<Rightarrow> (u32 \<times> u8 list) list vfs" where
  "bytes_sys data pos = \<lparr>kt = [], fdt = [3 \<mapsto> 0], filp = (\<lambda>_. \<lparr>may = (\<lambda>d. d = Rd), may_seek = True,
     may_at = (\<lambda>_. True), f_at = \<lparr>f_pos = pos, f_version = 0\<rparr>,
     f_inode = \<lparr>i_size = of_nat (length data), s_maxbytes = 0x7fffffff\<rparr>,
     f_op = Some (bytes_ops data), lock_area = None, security = (\<lambda>_ _. 0)\<rparr>), world = []\<rparr>"

lemma bytes_sys_simps:
  "fdt (bytes_sys data pos) 3 = Some 0" "f_op (filp (bytes_sys data pos) i) = Some (bytes_ops data)"
  "io_op (bytes_ops data) Rd = Some (bytes_read data)" "aio (bytes_ops data) d = None"
  "llseek (bytes_ops data) = Some generic_file_llseek"
  "may (filp (bytes_sys data pos) i) Rd" "may_at (filp (bytes_sys data pos) i) d" "may_seek (filp (bytes_sys data pos) i)"
  "lock_area (filp (bytes_sys data pos) i) = None" "security (filp (bytes_sys data pos) i) d = (\<lambda>_. 0)"
  "f_pos (f_at (filp (bytes_sys data pos) i)) = pos" "world (bytes_sys data pos) = []"
  by (simp_all add: bytes_sys_def bytes_ops_def)

lemma seek_then_transfer_witness:
  "let s = bytes_sys [1, 2, 3, 4, 5] 0; s1 = snd (sys_lseek 3 2 0 s)
   in map_option (\<lambda>(r, t). (r, world t)) (sys_rw Rd plain_env 3 0x8000 2 s1)
     = map_option (\<lambda>(r, t). (r, world t)) (sys_prw Rd plain_env 3 0x8000 2 (scast (2 :: u32)) s)"
proof -
  let ?s = "bytes_sys [1, 2, 3, 4, 5] 0"
  have "fst (sys_lseek 3 2 0 ?s) = sint (2 :: u32)" by code_simp
  then have l: "sys_lseek 3 2 0 ?s = (sint (2 :: u32), snd (sys_lseek 3 2 0 ?s))"
    by (metis prod.collapse)
  show ?thesis
    using seek_then_transfer [where s = ?s and d = Rd and i = 0 and env = plain_env and buf = "0x8000" and n = 2, OF _ _ l refl]
    by (simp add: bytes_sys_simps Let_def)
qed



end
