(* ===== verification/ReplayCalls.thy ===== *)
theory ReplayCalls
  imports Replay ReadWrite
begin

text \<open>
  The device of the event player behind the system calls of fs/read_write.c. The guard of
  \<^verbatim>\<open>replay_write\<close> is an unsigned sum that wraps for sizes near 4 GB; what keeps such sizes away is the file
  layer. An interface says what a driver with only \<^verbatim>\<open>read\<close> and \<^verbatim>\<open>write\<close> may rely on.
\<close>

subsection \<open>A driver with plain methods\<close>

text \<open>
  A condition on the state behind a file which every method keeps that is called with a size the file layer
  lets through is kept by every system call, and every system call returns.
\<close>

locale plain_driver =
  fixes ops :: "'w fops" and inv :: "'w \<Rightarrow> bool"
  assumes method_inv: "io_op ops d = Some fn \<Longrightarrow> unat n < 2 ^ 31 \<Longrightarrow> inv w \<Longrightarrow> inv (snd (snd (fn buf n pos w)))"
    and no_aio: "aio ops d = None"
    and no_sendfile: "sendfile ops = None"
begin

definition files :: "'w vfs \<Rightarrow> bool" where
  "files s \<longleftrightarrow> (\<forall>i. f_op (filp s i) = Some ops)"

lemma files_simps [simp]:
  "files (emit cs s) = files s" "files (s\<lparr>world := w\<rparr>) = files s" "files (set_at i p s) = files s"
  "files (file_pos_write i q s) = files s"
  by (auto simp: files_def set_at_def file_pos_write_def)

lemma world_simps [simp]:
  "world (set_at i p s) = world s" "world (file_pos_write i q s) = world s"
  by (simp_all add: set_at_def file_pos_write_def)

lemma result_inv:
  assumes "f_op f = Some ops" "inv w"
  shows "\<exists>ret pos' w' cs. vfs_result d env f buf count pos w = Some (ret, pos', w', cs) \<and> inv w'"
proof -
  have "vfs_result d env f buf count pos w \<noteq> None"
    using assms(1) no_aio [of d]
    by (auto simp: vfs_result_def vfs_rw_def Let_def split: option.split) (meson prod_cases3)
  then obtain ret pos' w' cs where r: "vfs_result d env f buf count pos w = Some (ret, pos', w', cs)"
    by (metis not_None_eq prod_cases4)
  have "inv w'"
  proof (cases "io_op ops d")
    case None
    then have "w' = w"
      using r assms(1) no_aio [of d] by (auto simp: vfs_result_def vfs_rw_def split: if_split_asm)
    then show ?thesis using assms(2) by simp
  next
    case (Some fn)
    have "unat (of_nat (min (unat count) 0x7ffff000) :: u32) < 2 ^ 31"
      by (simp add: unat_of_nat min_def)
    from method_inv [OF Some this assms(2)] show ?thesis
      using vfs_result_method [OF r assms(1) Some] assms(2) by (metis snd_conv)
  qed
  with r show ?thesis by blast
qed

lemma loop_inv:
  assumes "io_op ops d = Some fn" "inv w" "\<forall>(b, len) \<in> set iov. unat len < 2 ^ 31"
  shows "inv (snd (snd (do_loop_readv_writev fn iov pos w ret)))"
  using assms(2,3)
proof (induction iov arbitrary: pos w ret)
  case (Cons seg iov)
  obtain base len where seg: "seg = (base, len)" by fastforce
  obtain nr pos1 w1 where f: "fn base len pos w = (nr, pos1, w1)" by (metis prod_cases3)
  have "inv w1" using method_inv [OF assms(1) _ Cons.prems(1), of len base pos] Cons.prems(2) by (simp add: seg f)
  then have "inv (snd (snd (do_loop_readv_writev fn iov pos1 w1 (ret + k))))" for k
    using Cons.IH Cons.prems(2) by (simp add: seg)
  with \<open>inv w1\<close> show ?case by (simp add: seg f)
qed simp

lemma small_size: "0 \<le> sint x \<Longrightarrow> unat x < 2 ^ 31" for x :: u32
proof -
  assume "0 \<le> sint x"
  then have "uint x = sint x" using sint_lt [of x] by (simp add: uint_sint take_bit_int_eq_self)
  then have "int (unat x) < int (2 ^ 31)" using sint_lt [of x] by simp
  then show ?thesis by (rule of_nat_less_imp_less)
qed

lemma segs_small: "0 \<le> check_segs env iov r \<Longrightarrow> \<forall>(b, len) \<in> set iov. unat len < 2 ^ 31"
proof (induction env iov r rule: check_segs.induct)
  case (2 env buf len iov r)
  have "0 \<le> sint len" using 2(2) by (auto split: if_split_asm)
  then have "unat len < 2 ^ 31" by (rule small_size)
  with 2 show ?case by (auto split: if_split_asm)
qed simp

definition good_end :: "(int \<times> 'w vfs) option \<Rightarrow> bool" where
  "good_end r \<longleftrightarrow> (\<exists>ret s'. r = Some (ret, s') \<and> files s' \<and> inv (world s'))"

lemma rw_inv: "files s \<Longrightarrow> inv (world s) \<Longrightarrow> good_end (sys_rw d env fd buf count s)"
proof (cases "fdt s fd")
  case (Some i)
  assume s: "files s" "inv (world s)"
  then obtain ret pos' w' cs where
    "vfs_result d env (filp s i) buf count (f_pos (f_at (filp s i))) (world s) = Some (ret, pos', w', cs)" "inv w'"
    using result_inv [of "filp s i" "world s"] unfolding files_def by blast
  then show ?thesis using Some s(1) by (simp add: good_end_def sys_rw_def Let_def vfs_rw_result)
qed (simp add: good_end_def sys_rw_def)

lemma prw_inv: "files s \<Longrightarrow> inv (world s) \<Longrightarrow> good_end (sys_prw d env fd buf count pos s)"
proof (cases "fdt s fd")
  case (Some i)
  assume s: "files s" "inv (world s)"
  then obtain ret pos' w' cs where
    "vfs_result d env (filp s i) buf count pos (world s) = Some (ret, pos', w', cs)" "inv w'"
    using result_inv [of "filp s i" "world s"] unfolding files_def by blast
  then show ?thesis using Some s by (simp add: good_end_def sys_prw_def Let_def vfs_rw_result)
qed (simp add: good_end_def sys_prw_def)

lemma lseek_inv: "files s \<Longrightarrow> inv (world s) \<Longrightarrow> good_end (Some (sys_lseek fd off origin s))"
  by (simp add: good_end_def sys_lseek_def Let_def case_prod_beta split: option.split)

lemma llseek_inv:
  "files s \<Longrightarrow> inv (world s) \<Longrightarrow> good_end (case sys_llseek ok fd hi lo origin s of (ret, _, s) \<Rightarrow> Some (ret, s))"
  by (simp add: good_end_def sys_llseek_def Let_def case_prod_beta split: option.split)

lemma sendfile_none:
  assumes "files s"
  shows "sendfile_in i out_fd ppos count lim s = (if may (filp s i) Rd then - EINVAL else - EBADF, ppos, s)"
proof -
  have "f_op (filp s i) = Some ops" using assms by (simp add: files_def)
  then show ?thesis
    by (cases "may (filp s i) Rd") (simp_all only: sendfile_in_def Let_def option.case no_sendfile if_True if_False
        not_True_eq_False not_False_eq_True)
qed

lemma sendfile_same:
  assumes "files s"
  shows "\<exists>ret ppos' s'. do_sendfile out_fd in_fd ppos count lim s = (ret, ppos', s') \<and> files s' \<and> world s' = world s"
  using assms by (cases "fdt s in_fd") (simp_all add: do_sendfile_def sendfile_none)

lemma sendfile_inv:
  assumes "files s" "inv (world s)"
  shows "good_end (case sys_sendfile out inp off put count s of (ret, _, s) \<Rightarrow> Some (ret, s))"
    "good_end (case sys_sendfile64 out inp off' put count s of (ret, _, s) \<Rightarrow> Some (ret, s))"
proof -
  show "good_end (case sys_sendfile out inp off put count s of (ret, _, s) \<Rightarrow> Some (ret, s))"
    using assms sendfile_same [OF assms(1), of out inp _ count]
    by (auto simp: good_end_def sys_sendfile_def split: option.split prod.split) (metis prod.inject)+
  show "good_end (case sys_sendfile64 out inp off' put count s of (ret, _, s) \<Rightarrow> Some (ret, s))"
    using assms sendfile_same [OF assms(1), of out inp _ count]
    by (auto simp: good_end_def sys_sendfile64_def split: option.split prod.split) (metis prod.inject)+
qed

lemma vector_small:
  assumes "rw_copy_check_uvector env room uvec nr = (r, iov, long)" "0 < r"
  shows "\<forall>(b, len) \<in> set iov. unat len < 2 ^ 31"
  using assms segs_small [of env iov 0] by (auto simp: rw_copy_check_uvector_def Let_def split: if_split_asm)

lemma transfer_inv:
  assumes "io_op ops d = Some fn" "inv w" "0 < r \<Longrightarrow> \<forall>(b, len) \<in> set iov. unat len < 2 ^ 31"
  shows "\<exists>ret pos' w'. rwv_transfer d env f ops iov r pos w = Some (ret, pos', w') \<and> inv w'"
proof -
  have "inv (snd (snd (do_loop_readv_writev fn iov pos w 0)))" if "0 < r"
    by (rule loop_inv [OF assms(1,2) assms(3) [OF that]])
  then show ?thesis
    using assms(1,2) no_aio [of d]
    by (cases "do_loop_readv_writev fn iov pos w 0") (auto simp: rwv_transfer_def Let_def)
qed

lemma vfs_rwv_inv:
  assumes "f_op f = Some ops" "files s" "inv (world s)"
  shows "\<exists>ret pos' s'. vfs_rwv d env f room uvec nr pos s = Some (ret, pos', s') \<and> files s' \<and> inv (world s')"
proof (cases "io_op ops d")
  case None
  then show ?thesis using assms no_aio [of d] by (simp add: vfs_rwv_def)
next
  case (Some fn)
  obtain r iov long where c: "rw_copy_check_uvector env room uvec nr = (r, iov, long)" by (metis prod_cases3)
  obtain ret pos' w' where "rwv_transfer d env f ops iov r pos (world s) = Some (ret, pos', w')" "inv w'"
    using transfer_inv [OF Some assms(3) vector_small [OF c]] by blast
  then show ?thesis using Some assms c no_aio [of d] by (simp add: vfs_rwv_def do_readv_writev_def)
qed

lemma rwv_inv:
  assumes "files s" "inv (world s)"
  shows "good_end (sys_rwv d env room fd uvec nr s)"
proof (cases "fdt s fd")
  case (Some i)
  have "f_op (filp s i) = Some ops" using assms(1) by (simp add: files_def)
  then obtain ret pos' t where
    "vfs_rwv d env (filp s i) room uvec nr (f_pos (f_at (filp s i))) (emit [Fget i] s) = Some (ret, pos', t)"
    "files t" "inv (world t)"
    using vfs_rwv_inv [of "filp s i" "emit [Fget i] s" d env room uvec nr] assms by fastforce
  then show ?thesis using Some by (simp add: good_end_def sys_rwv_def Let_def)
qed (use assms in \<open>simp add: good_end_def sys_rwv_def\<close>)

lemma step_inv: "files s \<Longrightarrow> inv (world s) \<Longrightarrow> good_end (syscall_step env c s)"
  by (cases c) (simp_all add: rw_inv prw_inv rwv_inv lseek_inv llseek_inv sendfile_inv)

theorem run_inv:
  "files s \<Longrightarrow> inv (world s) \<Longrightarrow> \<exists>s'. syscall_run env cs s = Some s' \<and> inv (world s')"
proof (induction cs arbitrary: s)
  case (Cons c cs)
  obtain ret t where "syscall_step env c s = Some (ret, t)" "files t" "inv (world t)"
    using step_inv [OF Cons.prems, of env c] by (auto simp: good_end_def)
  with Cons.IH [of t] show ?case by simp
qed simp

end

subsection \<open>The player behind its device file\<close>

text \<open>
  The memory of the process, in which some bytes cannot be read, and the state of the driver. Without a value
  the driver has written past its buffer.
\<close>

type_synonym replay_world = "(u32 \<Rightarrow> u8 option) \<times> replay option"

fun readable :: "(u32 \<Rightarrow> u8 option) \<Rightarrow> u32 \<Rightarrow> nat \<Rightarrow> u8 list" where
  "readable mem a 0 = []"
| "readable mem a (Suc n) = (case mem a of None \<Rightarrow> [] | Some v \<Rightarrow> v # readable mem (a + 1) n)"

definition replay_fops :: "nat \<Rightarrow> replay_world fops" where
  "replay_fops L =
     \<lparr>llseek = None,
      io_op = (\<lambda>d. case d of Rd \<Rightarrow> None
        | Wr \<Rightarrow> Some (\<lambda>buf n pos (mem, r).
            case Option.bind r (replay_write L (readable mem buf (unat n)) n) of
              None \<Rightarrow> (0, pos, mem, None)
            | Some (ret, r) \<Rightarrow> (ret, pos, mem, Some r))),
      aio = (\<lambda>d. None), sendfile = None, has_sendpage = False\<rparr>"

text \<open>A process that has opened the device as often as it likes, with any modes and positions.\<close>

definition opened_replay :: "nat \<Rightarrow> replay_world vfs \<Rightarrow> bool" where
  "opened_replay L s \<longleftrightarrow> (\<forall>i. f_op (filp s i) = Some (replay_fops L))"

definition recorded :: "replay \<Rightarrow> u8 list" where
  "recorded r = take (replay_w r) (replay_buf r)"

definition replay_intact :: "nat \<Rightarrow> u8 list \<Rightarrow> replay_world \<Rightarrow> bool" where
  "replay_intact L bs w \<longleftrightarrow> (\<exists>r cs. snd w = Some r \<and> replay_inv L r \<and> recorded r = bs @ cs)"

lemma replay_write_intact:
  assumes "replay_inv L r" "unat n < 2 ^ 31"
  shows "\<exists>ret r' cs. replay_write L user n r = Some (ret, r') \<and> replay_inv L r' \<and> recorded r' = recorded r @ cs"
proof -
  obtain ret r' where "replay_write L user n r = Some (ret, r')" "replay_inv L r'"
    and "if replay_w r + unat n < L \<and> unat n \<le> length user
       then ret = int (unat n) \<and> replay_w r' = replay_w r + unat n
            \<and> take (replay_w r') (replay_buf r') = take (replay_w r) (replay_buf r) @ take (unat n) user
       else ret = - EIO \<and> replay_w r' = replay_w r
            \<and> take (replay_w r) (replay_buf r') = take (replay_w r) (replay_buf r)"
    using replay_write_safe [OF assms, of user] by blast
  then show ?thesis by (auto simp: recorded_def split: if_split_asm)
qed

interpretation player: plain_driver "replay_fops L" "replay_intact L bs" for L bs
proof
  fix d fn n w buf pos
  assume fn: "io_op (replay_fops L) d = Some fn" and n: "unat (n :: u32) < 2 ^ 31" and w: "replay_intact L bs w"
  obtain mem r cs where r: "w = (mem, Some r)" "replay_inv L r" "recorded r = bs @ cs"
    using w by (cases w) (auto simp: replay_intact_def)
  obtain ret r' ds where "replay_write L (readable mem buf (unat n)) n r = Some (ret, r')" "replay_inv L r'"
      "recorded r' = recorded r @ ds"
    using replay_write_intact [OF r(2) n] by blast
  with fn r show "replay_intact L bs (snd (snd (fn buf n pos w)))"
    by (cases d) (auto simp: replay_fops_def replay_intact_def)
qed (simp_all add: replay_fops_def)

text \<open>Without the file layer the sum of the guard wraps: the size is that of the -1 a failed read returns.\<close>

lemma guard_wraps:
  assumes "replay_inv L r" "0 < replay_w r"
  shows "replay_write L user 0xffffffff r = None"
proof -
  obtain k where k: "replay_w r = Suc k" using assms(2) by (cases "replay_w r") simp_all
  have "(of_nat (replay_w r) :: u32) + 0xffffffff = of_nat k" by (simp add: k)
  then have "unat ((of_nat (replay_w r) :: u32) + 0xffffffff) = unat (of_nat k :: u32)" by (simp only:)
  moreover have "unat (of_nat k :: u32) = k"
    using assms(1) by (simp add: replay_inv_def unat_of_nat k)
  moreover have "length (fst (copy_from_user user (unat (0xffffffff :: u32)))) = 0xffffffff" by simp
  ultimately show ?thesis
    using assms unfolding replay_write_def by (simp add: replay_inv_def store_at_def case_prod_beta k del: of_nat_Suc)
qed

subsection \<open>Properties\<close>

text \<open>
  C18. Whatever a process does to the device of the player through the file system calls, with any
  buffers, sizes, vectors and positions, every call returns, nothing is written outside the buffer, and
  what was recorded there before stays: the calls only append. The driver alone cannot promise this.
\<close>

theorem player_calls_append:
  assumes "opened_replay L s" "snd (world s) = Some r" "replay_inv L r"
  shows "\<exists>s' r' bs. syscall_run env cs s = Some s' \<and> snd (world s') = Some r' \<and> replay_inv L r'
    \<and> recorded r' = recorded r @ bs"
proof -
  have "player.files L s" using assms(1) by (simp add: player.files_def opened_replay_def)
  moreover have "replay_intact L (recorded r) (world s)" using assms(2,3) by (simp add: replay_intact_def)
  ultimately show ?thesis using player.run_inv [of L s "recorded r"] by (auto simp: replay_intact_def)
qed

text \<open>A process writes two bytes, and then as many as a failed read returned.\<close>

definition one_player :: replay where
  "one_player = \<lparr>kt = [], replay_buf = 5 # replicate 7 0, replay_r = 0, replay_w = 1,
     pre_time = 0, pre_type = 0, pre_code = 0, pre_val = 0\<rparr>"

definition player_sys :: "replay_world vfs" where
  "player_sys =
     \<lparr>kt = [], fdt = [3 \<mapsto> 0],
      filp = (\<lambda>_. \<lparr>may = (\<lambda>d. True), may_seek = True, may_at = (\<lambda>d. True),
                   f_at = \<lparr>f_pos = 0, f_version = 0\<rparr>, f_inode = \<lparr>i_size = 0, s_maxbytes = 0\<rparr>,
                   f_op = Some (replay_fops 8), lock_area = None, security = (\<lambda>d w. 0)\<rparr>),
      world = (\<lambda>_. Some 6, Some one_player)\<rparr>"

theorem player_calls_append_witness:
  "\<exists>s' r' bs. syscall_run plain_env [Rw Wr 3 100 2, Rw Wr 3 100 0xffffffff] player_sys = Some s'
    \<and> snd (world s') = Some r' \<and> replay_inv 8 r' \<and> recorded r' = 5 # bs"
proof -
  have "opened_replay 8 player_sys" "snd (world player_sys) = Some one_player"
    by (simp_all add: opened_replay_def player_sys_def)
  moreover have "replay_inv 8 one_player" "recorded one_player = [5]"
    by (simp_all add: replay_inv_def recorded_def one_player_def)
  ultimately show ?thesis
    using player_calls_append [of 8 player_sys one_player plain_env "[Rw Wr 3 100 2, Rw Wr 3 100 0xffffffff]"] by simp
qed

end
