(* ===== verification/Codec.thy ===== *)
theory Codec
  imports Kernel
begin

text \<open>
  The lower half of the sound driver sound/s3c-wm8976.c: the three-wire interface to the codec, the
  mixer controls, and the choice of the sample clock. Pins are set by \<^verbatim>\<open>s3c2410_gpio_setpin\<close>, which is
  traced; a small machine that follows these calls says what the codec has received. The numbers of
  ioctl commands come from kernel headers, so a command is a value of a datatype with their names.
\<close>

subsection \<open>State\<close>

record mixer = kstate +
  uda1341_volume :: int
  uda1341_boost :: int
  mixer_igain :: int
  audio_mix_modcnt :: int

abbreviation "GPB2 v \<equiv> Other ''s3c2410_gpio_setpin GPB2'' v"
abbreviation "GPB3 v \<equiv> Other ''s3c2410_gpio_setpin GPB3'' v"
abbreviation "GPB4 v \<equiv> Other ''s3c2410_gpio_setpin GPB4'' v"

subsection \<open>The serial interface\<close>

definition wm8976_word :: "u8 \<Rightarrow> u32 \<Rightarrow> u16" where
  "wm8976_word reg data = push_bit 9 (ucast reg) OR ucast (data AND 0x1ff)"

definition clock_bit :: "bool \<Rightarrow> kcall list" where
  "clock_bit b = [GPB4 0, GPB3 (of_bool b), Delay_us 1, GPB4 1]"

fun shift_msb :: "nat \<Rightarrow> u16 \<Rightarrow> kcall list" where
  "shift_msb 0 val = []"
| "shift_msb (Suc n) val = clock_bit (val AND push_bit 15 1 \<noteq> 0) @ shift_msb n (push_bit 1 val)"

definition wm8976_calls :: "u8 \<Rightarrow> u32 \<Rightarrow> kcall list" where
  "wm8976_calls reg data =
     [GPB2 1, GPB3 1, GPB4 1, Other ''local_irq_save'' 0]
     @ shift_msb 16 (wm8976_word reg data)
     @ [GPB2 0, Delay_us 1, GPB2 1, GPB3 1, GPB4 1, Other ''local_irq_restore'' 0]"

definition wm8976_write_reg :: "u8 \<Rightarrow> u32 \<Rightarrow> 'a mixer_scheme \<Rightarrow> 'a mixer_scheme" where
  "wm8976_write_reg reg data s = emit (wm8976_calls reg data) s"

text \<open>The interface of the codec that the driver was first written for; its calls are commented out.\<close>

fun shift_lsb :: "nat \<Rightarrow> u8 \<Rightarrow> kcall list" where
  "shift_lsb 0 data = []"
| "shift_lsb (Suc n) data = clock_bit (data AND 0x1 \<noteq> 0) @ shift_lsb n (drop_bit 1 data)"

definition uda1341_l3_address :: "u8 \<Rightarrow> 'a mixer_scheme \<Rightarrow> 'a mixer_scheme" where
  "uda1341_l3_address data s =
     emit ([Other ''local_irq_save'' 0, GPB2 0, GPB4 1, Delay_us 1] @ shift_lsb 8 data
           @ [GPB2 1, GPB4 1, Other ''local_irq_restore'' 0]) s"

definition uda1341_l3_data :: "u8 \<Rightarrow> 'a mixer_scheme \<Rightarrow> 'a mixer_scheme" where
  "uda1341_l3_data data s =
     emit ([Other ''local_irq_save'' 0, Delay_us 1] @ shift_lsb 8 data @ [Other ''local_irq_restore'' 0]) s"

definition init_wm8976 :: "'a mixer_scheme \<Rightarrow> 'a mixer_scheme" where
  "init_wm8976 s =
     fold (\<lambda>(r, v). wm8976_write_reg r v)
       [(0, 0), (0x3, 0x6f), (0x1, 0x1f), (0x2, 0x185), (0x6, 0x0), (0x4, 0x10), (0x2B, 0x10), (0x9, 0x50),
        (0xD, 0x21), (0x7, 0x01)]
       (s\<lparr>uda1341_volume := 20, uda1341_boost := 0\<rparr>)"

subsection \<open>Mixer\<close>

datatype mixer_cmd =
    SOUND_MIXER_INFO | SOUND_OLD_MIXER_INFO | SOUND_MIXER_READ_STEREODEVS | SOUND_MIXER_READ_CAPS
  | SOUND_MIXER_WRITE_VOLUME | SOUND_MIXER_READ_VOLUME | SOUND_MIXER_READ_IGAIN | SOUND_MIXER_WRITE_IGAIN
  | Mixer_unknown

text \<open>
  \<^verbatim>\<open>arg\<close> is what \<^verbatim>\<open>get_user\<close> finds, if it can read it, and \<^verbatim>\<open>put_rc\<close> what \<^verbatim>\<open>put_user\<close> or
  \<^verbatim>\<open>copy_to_user\<close> returns. The result has the value that was put for the user, if any. C divides
  towards zero: \<^verbatim>\<open>cdiv\<close>. Products are taken in 32 bits: \<^verbatim>\<open>s32\<close>.
\<close>

definition cdiv :: "int \<Rightarrow> int \<Rightarrow> int" where
  "cdiv a b = (if (a < 0) = (b < 0) then \<bar>a\<bar> div \<bar>b\<bar> else - (\<bar>a\<bar> div \<bar>b\<bar>))"

definition s32 :: "int \<Rightarrow> int" where
  "s32 x = sint (word_of_int x :: u32)"

definition SOUND_CAP_EXCL_INPUT :: int where "SOUND_CAP_EXCL_INPUT = 1"

definition smdk2410_mixer_ioctl ::
  "mixer_cmd \<Rightarrow> int option \<Rightarrow> int \<Rightarrow> 'a mixer_scheme \<Rightarrow> (int \<times> int option) \<times> 'a mixer_scheme" where
  "smdk2410_mixer_ioctl cmd arg put_rc s =
     (let count_mod = (\<lambda>s. s\<lparr>audio_mix_modcnt := audio_mix_modcnt s + 1\<rparr>)
      in case cmd of
        SOUND_MIXER_INFO \<Rightarrow> ((put_rc, Some (audio_mix_modcnt s)), s)
      | SOUND_OLD_MIXER_INFO \<Rightarrow> ((put_rc, None), s)
      | SOUND_MIXER_READ_STEREODEVS \<Rightarrow> ((put_rc, Some 0), s)
      | SOUND_MIXER_READ_CAPS \<Rightarrow> ((put_rc, Some SOUND_CAP_EXCL_INPUT), s)
      | SOUND_MIXER_WRITE_VOLUME \<Rightarrow>
          (case arg of None \<Rightarrow> ((- EFAULT, None), s)
           | Some val \<Rightarrow>
               let s = s\<lparr>uda1341_volume := cdiv ((val mod 256 + 1) * 63) 100\<rparr>;
                   data = push_bit 8 1 OR word_of_int (uda1341_volume s);
                   s = wm8976_write_reg 52 data s;
                   s = wm8976_write_reg 53 data s
               in ((0, None), count_mod s))
      | SOUND_MIXER_READ_VOLUME \<Rightarrow> ((put_rc, Some (cdiv (uda1341_volume s * 100) 63)), s)
      | SOUND_MIXER_READ_IGAIN \<Rightarrow> ((put_rc, Some (cdiv (s32 ((31 - mixer_igain s) * 100)) 31)), s)
      | SOUND_MIXER_WRITE_IGAIN \<Rightarrow>
          (case arg of None \<Rightarrow> ((- EFAULT, None), s)
           | Some val \<Rightarrow> ((0, None), count_mod (s\<lparr>mixer_igain := 31 - cdiv (s32 (val * 31)) 100\<rparr>)))
      | Mixer_unknown \<Rightarrow> ((- ENOSYS, None), s))"

subsection \<open>The sample clock\<close>

text \<open>
  \<^verbatim>\<open>pclk\<close> is what \<^verbatim>\<open>clk_get_rate\<close> returns. \<^verbatim>\<open>PCM_ABS\<close> tests an unsigned difference for being
  negative, so it leaves it as it is.
\<close>

fun prescaler_loop :: "nat \<Rightarrow> u32 \<Rightarrow> u32 \<Rightarrow> nat \<Rightarrow> u32 \<Rightarrow> nat \<Rightarrow> nat" where
  "prescaler_loop 0 tmpval384 rate i tmin prescaler = prescaler"
| "prescaler_loop (Suc n) tmpval384 rate i tmin prescaler =
     (let d = rate - tmpval384 div (of_nat i + 1)
      in if d < tmin then prescaler_loop n tmpval384 rate (i + 1) d i
         else prescaler_loop n tmpval384 rate (i + 1) tmin prescaler)"

definition iispsr_value :: "u32 \<Rightarrow> u32 \<Rightarrow> u32 \<Rightarrow> nat" where
  "iispsr_value pclk s_bit_clock sample_rate =
     prescaler_loop 32 (pclk div s_bit_clock) sample_rate 0 0xffff 0"

text \<open>
  What \<^verbatim>\<open>audio_set_dsp_speed\<close> writes to IISPSR. The macros \<^verbatim>\<open>IISPSR_A\<close> and \<^verbatim>\<open>IISPSR_B\<close>, which place
  the value in the two fields of the register, are not in the repository: they are arguments.
\<close>

definition S_CLOCK_FREQ :: u32 where "S_CLOCK_FREQ = 384"

definition iispsr_bits :: "(u32 \<Rightarrow> u32) \<Rightarrow> (u32 \<Rightarrow> u32) \<Rightarrow> u32 \<Rightarrow> u32 \<Rightarrow> u32" where
  "iispsr_bits IISPSR_A IISPSR_B pclk val =
     IISPSR_A (of_nat (iispsr_value pclk S_CLOCK_FREQ val)) OR IISPSR_B (of_nat (iispsr_value pclk S_CLOCK_FREQ val))"

subsection \<open>What the codec receives\<close>

text \<open>
  The codec takes a bit at every rising edge of the clock and stores the last sixteen of them, a
  register number of 7 bits and a value of 9, at a rising edge of its chip select.
\<close>

record codec =
  csb :: nat
  sdin :: nat
  sclk :: nat
  taken :: "bool list"
  regs :: "nat \<Rightarrow> nat"

definition word_of :: "bool list \<Rightarrow> nat" where
  "word_of bs = horner_sum of_bool 2 (rev (drop (length bs - 16) bs))"

fun codec_step :: "kcall \<Rightarrow> codec \<Rightarrow> codec" where
  "codec_step (Other n v) c =
     (if n = ''s3c2410_gpio_setpin GPB2''
      then (if csb c = 0 \<and> v = 1
            then c\<lparr>csb := v, regs := (regs c)(word_of (taken c) div 512 := word_of (taken c) mod 512)\<rparr>
            else c\<lparr>csb := v\<rparr>)
      else if n = ''s3c2410_gpio_setpin GPB3'' then c\<lparr>sdin := v\<rparr>
      else if n = ''s3c2410_gpio_setpin GPB4''
      then (if sclk c = 0 \<and> v = 1 then c\<lparr>sclk := v, taken := taken c @ [sdin c = 1]\<rparr> else c\<lparr>sclk := v\<rparr>)
      else c)"
| "codec_step _ c = c"

definition codec_run :: "kcall list \<Rightarrow> codec \<Rightarrow> codec" where
  "codec_run cs c = fold codec_step cs c"

lemma codec_run_append [simp]: "codec_run (xs @ ys) c = codec_run ys (codec_run xs c)"
  by (simp add: codec_run_def)

lemma codec_run_Cons: "codec_run (x # xs) c = codec_run xs (codec_step x c)"
  by (simp add: codec_run_def)

lemma codec_run_Nil [simp]: "codec_run [] c = c"
  by (simp add: codec_run_def)

lemma clock_bit_takes:
  "codec_run (clock_bit b) c = c\<lparr>sdin := of_bool b, sclk := 1, taken := taken c @ [b]\<rparr>"
  by (cases c) (simp add: clock_bit_def codec_run_Cons)

lemma bit_shifted: "x < 15 \<Longrightarrow> bit (push_bit 1 (val :: u16)) (15 - x) = bit val (15 - Suc x)"
  unfolding bit_push_bit_iff by (auto simp: numeral_eq_Suc)

lemma shift_msb_takes:
  "n \<le> 16 \<Longrightarrow> \<exists>d k. codec_run (shift_msb n val) c =
     c\<lparr>sdin := d, sclk := k, taken := taken c @ map (\<lambda>i. bit val (15 - i)) [0..<n]\<rparr>"
proof (induction n arbitrary: val c)
  case 0
  then show ?case by (cases c) auto
next
  case (Suc n)
  let ?b = "val AND push_bit 15 1 \<noteq> 0"
  let ?c = "c\<lparr>sdin := of_bool ?b, sclk := 1, taken := taken c @ [?b]\<rparr>"
  obtain d k where *: "codec_run (shift_msb n (push_bit 1 val)) ?c =
      ?c\<lparr>sdin := d, sclk := k, taken := taken ?c @ map (\<lambda>i. bit (push_bit 1 val) (15 - i)) [0..<n]\<rparr>"
    using Suc.IH [of "push_bit 1 val" ?c] Suc.prems by auto
  have "map (\<lambda>i. bit (push_bit 1 val) (15 - i)) [0..<n] = map (\<lambda>i. bit val (15 - Suc i)) [0..<n]"
    using Suc.prems by (intro map_cong refl bit_shifted) auto
  moreover have "map (\<lambda>i. bit val (15 - i)) [0..<Suc n] = ?b # map (\<lambda>i. bit val (15 - Suc i)) [0..<n]"
    unfolding and_one_bit by (simp add: upt_conv_Cons map_Suc_upt [symmetric] o_def del: upt_Suc)
  ultimately have "codec_run (shift_msb (Suc n) val) c =
      c\<lparr>sdin := d, sclk := k, taken := taken c @ map (\<lambda>i. bit val (15 - i)) [0..<Suc n]\<rparr>"
    using * by (simp only: shift_msb.simps codec_run_append clock_bit_takes) (cases c, simp del: upt_Suc)
  then show ?case by blast
qed

lemma word_of_bits: "word_of (xs @ map (\<lambda>i. bit (val :: u16) (15 - i)) [0..<16]) = unat val"
proof -
  have "rev (map (\<lambda>i. bit val (15 - i)) [0..<16]) = map (bit val) [0..<16]"
    by (simp add: upt_rec numeral_eq_Suc)
  moreover have "horner_sum of_bool 2 (map (bit (unat val)) [0..<16]) = unat val"
    using unsigned_less [of val, where 'a = nat]
    by (simp only: horner_sum_bit_eq_take_bit) (simp add: take_bit_nat_eq_self)
  moreover have "map (bit val) [0..<16] = map (bit (unat val)) [0..<16]"
    by (simp add: bit_unsigned_iff fun_eq_iff)
  ultimately show ?thesis by (simp add: word_of_def)
qed

lemma wm8976_word_parts:
  "unat (wm8976_word reg data) div 512 = unat reg mod 128"
  "unat (wm8976_word reg data) mod 512 = unat data mod 512"
proof -
  have m: "(0x1ff :: u32) = mask 9" by (simp add: mask_eq_exp_minus_1)
  have d: "drop_bit 9 (wm8976_word reg data) = ucast (take_bit 7 reg)"
    unfolding wm8976_word_def m by (rule bit_word_eqI) (auto simp: bit_simps dest: bit_imp_le_length)
  have t: "take_bit 9 (wm8976_word reg data) = ucast (take_bit 9 data)"
    unfolding wm8976_word_def m by (rule bit_word_eqI) (auto simp: bit_simps)
  have "unat (ucast (take_bit 7 reg) :: u16) = unat (take_bit 7 reg)"
    "unat (ucast (take_bit 9 data) :: u16) = unat (take_bit 9 data)"
    by (simp_all add: unsigned_ucast_eq unsigned_take_bit_eq)
  with arg_cong [OF d, of unat] arg_cong [OF t, of unat]
  show "unat (wm8976_word reg data) div 512 = unat reg mod 128"
    "unat (wm8976_word reg data) mod 512 = unat data mod 512"
    by (simp_all add: unsigned_drop_bit_eq unsigned_take_bit_eq drop_bit_eq_div take_bit_eq_mod
        unat_div_distrib unat_mod_distrib)
qed

text \<open>One register write: the codec stores the low nine bits of the value in the register named.\<close>

lemma wm8976_writes:
  assumes "csb c = 1"
  shows "regs (codec_run (wm8976_calls reg data) c) = (regs c)(unat reg mod 128 := unat data mod 512)
    \<and> csb (codec_run (wm8976_calls reg data) c) = 1"
proof -
  let ?c0 = "codec_run [GPB2 1, GPB3 1, GPB4 1, Other ''local_irq_save'' 0] c"
  have c0: "csb ?c0 = 1" "regs ?c0 = regs c" using assms by (simp_all add: codec_run_Cons)
  obtain d k where "codec_run (shift_msb 16 (wm8976_word reg data)) ?c0 =
      ?c0\<lparr>sdin := d, sclk := k, taken := taken ?c0 @ map (\<lambda>i. bit (wm8976_word reg data) (15 - i)) [0..<16]\<rparr>"
    using shift_msb_takes [of 16] by blast
  then show ?thesis
    using c0 word_of_bits [of "taken ?c0" "wm8976_word reg data"]
    by (simp add: wm8976_calls_def wm8976_word_parts codec_run_Cons del: shift_msb.simps)
qed

subsection \<open>The clock divider\<close>

text \<open>The sample rate that the divider \<^verbatim>\<open>i\<close> gives.\<close>

definition rate_of :: "u32 \<Rightarrow> nat \<Rightarrow> nat" where
  "rate_of pclk i = unat pclk div 384 div (i + 1)"

lemma rate_of_word: "i < 32 \<Longrightarrow> unat (pclk div 384 div (of_nat i + 1)) = rate_of pclk i"
proof -
  assume "i < 32"
  then have "unat (of_nat (Suc i) :: u32) = Suc i"
    by (simp add: unsigned_of_nat take_bit_eq_mod del: of_nat_Suc)
  moreover have e: "of_nat i + 1 = (of_nat (Suc i) :: u32)" by simp
  ultimately show ?thesis
    unfolding e unat_div_distrib rate_of_def by (simp del: of_nat_Suc)
qed

lemma rate_of_less: "rate_of pclk i < 2 ^ 31"
proof -
  have "unat pclk < 2 ^ 32" using unsigned_less [of pclk, where 'a = nat] by simp
  then have "unat pclk div 384 < 2 ^ 31" by simp
  then show ?thesis
    unfolding rate_of_def by (meson div_le_dividend le_less_trans)
qed

lemma rate_of_antimono: "i \<le> j \<Longrightarrow> rate_of pclk j \<le> rate_of pclk i"
  by (simp add: rate_of_def div_le_mono2)

text \<open>The unsigned difference is small only when the divider's rate is not above the one asked for.\<close>

lemma difference_small:
  assumes "i < 32" "unat rate < 2 ^ 31" "unat t \<le> 0xffff"
  shows "rate - pclk div 384 div (of_nat i + 1) < t \<longleftrightarrow>
    rate_of pclk i \<le> unat rate \<and> unat rate - rate_of pclk i < unat t"
proof (cases "rate_of pclk i \<le> unat rate")
  case True
  then have "unat (rate - pclk div 384 div (of_nat i + 1)) = unat rate - rate_of pclk i"
    using assms(1) by (simp add: unat_sub_if_size rate_of_word)
  with True show ?thesis by (simp add: word_less_nat_alt)
next
  case False
  then have "unat (rate - pclk div 384 div (of_nat i + 1)) = unat rate + 2 ^ 32 - rate_of pclk i"
    using assms(1) by (simp add: unat_sub_if_size rate_of_word word_size)
  with False assms(3) show ?thesis
    using rate_of_less [of pclk i] by (simp add: word_less_nat_alt)
qed

lemma prescaler_settled:
  assumes "i + n \<le> 32" "unat rate < 2 ^ 31" "unat t \<le> 0xffff"
    and "\<And>j. i \<le> j \<Longrightarrow> unat t \<le> unat rate - rate_of pclk j"
  shows "prescaler_loop n (pclk div 384) rate i t k = k"
  using assms
proof (induction n arbitrary: i)
  case (Suc n)
  have "\<not> rate - pclk div 384 div (of_nat i + 1) < t"
    using difference_small [of i rate t pclk] Suc.prems(1-3) Suc.prems(4) [OF le_refl] by auto
  then show ?case using Suc.IH [of "i + 1"] Suc.prems by (simp add: Let_def)
qed simp

lemma prescaler_finds:
  assumes "i + n = 32" "i \<le> k" "k < 32" "unat rate < 2 ^ 31"
    and "rate_of pclk k \<le> unat rate" "unat rate - rate_of pclk k < 0xffff"
    and "\<And>j. j < k \<Longrightarrow> unat rate < rate_of pclk j"
  shows "prescaler_loop n (pclk div 384) rate i 0xffff p = k"
  using assms(1,2)
proof (induction n arbitrary: i p)
  case 0
  with assms(3) show ?case by simp
next
  case (Suc n)
  let ?d = "rate - pclk div 384 div (of_nat i + 1)"
  show ?case
  proof (cases "i = k")
    case True
    have d: "unat ?d = unat rate - rate_of pclk k"
      using assms(3,5) True by (simp add: unat_sub_if_size rate_of_word)
    have "?d < 0xffff" using difference_small [of i rate "0xffff" pclk] True assms by simp
    moreover have "prescaler_loop n (pclk div 384) rate (i + 1) ?d i = i"
      using Suc.prems True assms(4,6) d rate_of_antimono [of k _ pclk]
      by (intro prescaler_settled) (auto intro: diff_le_mono2)
    ultimately show ?thesis using True by (simp add: Let_def)
  next
    case False
    then have "\<not> ?d < 0xffff"
      using difference_small [of i rate "0xffff" pclk] Suc.prems assms(3,4) assms(7) [of i] by auto
    then show ?thesis using Suc.IH [of "i + 1" p] Suc.prems False by (simp add: Let_def)
  qed
qed

text \<open>The divider for 60000 Hz from a 50 MHz clock gives 43402 Hz, although 65104 Hz is nearer.\<close>

lemma nearest_missed:
  "iispsr_value 50000000 S_CLOCK_FREQ 60000 = 2" "rate_of 50000000 2 = 43402" "rate_of 50000000 1 = 65104"
proof -
  show "iispsr_value 50000000 S_CLOCK_FREQ 60000 = 2"
    unfolding iispsr_value_def S_CLOCK_FREQ_def
    by (rule prescaler_finds) (auto simp: rate_of_def dest!: less_2_cases simp flip: numeral_2_eq_2)
qed (simp_all add: rate_of_def flip: numeral_2_eq_2)

subsection \<open>The volume\<close>

lemma volume_word:
  assumes "0 \<le> u" "u \<le> 63"
  shows "unat (push_bit 8 1 OR word_of_int u :: u32) mod 512 = 256 + nat u"
proof -
  have "u div 256 = 0" using assms by simp
  then have b: "\<not> bit u 8" by (simp add: bit_iff_odd)
  have "\<not> bit (push_bit 8 1 :: u32) n \<or> \<not> bit (word_of_int u :: u32) n" for n
    using bit_push_bit_1 [of 8 n] b by (auto simp: bit_word_of_int_iff)
  then have "push_bit 8 1 OR word_of_int u = (push_bit 8 1 + word_of_int u :: u32)"
    by (rule disjunctive_add [symmetric])
  also have "\<dots> = word_of_int (256 + u)" by simp
  finally have e: "push_bit 8 1 OR word_of_int u = (word_of_int (256 + u) :: u32)" .
  have "unat (word_of_int x :: u32) = nat x" if "0 \<le> x" "x < 2 ^ 32" for x
    using that by (simp add: unsigned_of_int take_bit_int_eq_self)
  from this [of "256 + u"] show ?thesis
    unfolding e using assms by (simp add: nat_add_distrib del: of_int_add)
qed

lemma cdiv_pos: "0 \<le> a \<Longrightarrow> 0 \<le> b \<Longrightarrow> cdiv a b = a div b"
  by (simp add: cdiv_def)

lemma volume_back:
  assumes "u = ((v :: int) + 1) * 63 div 100"
  shows "\<bar>u * 100 div 63 - v\<bar> \<le> 1"
proof -
  have "100 * (x div 100) \<le> x \<and> x < 100 * (x div 100) + 100" "63 * (x div 63) \<le> x \<and> x < 63 * (x div 63) + 63"
    for x :: int by presburger+
  note b = this(1) [of "(v + 1) * 63"] this(2) [of "u * 100"]
  define w where "w = u * 100 div 63"
  have "100 * u \<le> 63 * v + 63" "63 * v + 63 < 100 * u + 100" "63 * w \<le> 100 * u" "100 * u < 63 * w + 63"
    using b(1) [folded assms] b(2) [folded w_def] by auto
  then show ?thesis unfolding w_def [symmetric] by linarith
qed

text \<open>Above 100 the value leaves the six bits of the volume and reaches the mute bit of the register.\<close>

lemma volume_overflows: "101 \<le> v \<Longrightarrow> 64 \<le> (v + 1) * 63 div (100 :: int)"
  using zdiv_mono1 [of 6400 "(v + 1) * 63" 100] by simp

subsection \<open>Properties\<close>



text \<open>
  The clock never runs fast: the divider chosen for a sample rate gives the highest rate that is
  not above it.
\<close>

theorem clock_not_fast:
  assumes "k < 32" "unat rate < 2 ^ 31" "rate_of pclk k \<le> unat rate"
    and "unat rate - rate_of pclk k < 65535" "\<And>j. j < k \<Longrightarrow> unat rate < rate_of pclk j"
  shows "iispsr_value pclk S_CLOCK_FREQ rate = k \<and>
    (\<forall>j<32. rate_of pclk j \<le> unat rate \<longrightarrow> rate_of pclk j \<le> rate_of pclk k)"
proof
  show "iispsr_value pclk S_CLOCK_FREQ rate = k"
    unfolding iispsr_value_def S_CLOCK_FREQ_def using assms by (intro prescaler_finds) auto
  show "\<forall>j<32. rate_of pclk j \<le> unat rate \<longrightarrow> rate_of pclk j \<le> rate_of pclk k"
    using assms(5) rate_of_antimono by (metis linorder_not_le)
qed

theorem clock_not_fast_witness: "iispsr_value 50000000 S_CLOCK_FREQ 44100 = 2"
proof -
  have "unat (44100 :: u32) < rate_of 50000000 j" if "j < 2" for j
    using that by (auto simp: rate_of_def dest!: less_2_cases simp flip: numeral_2_eq_2)
  from clock_not_fast [of 2 44100 50000000, OF _ _ _ _ this] show ?thesis
    by (simp add: rate_of_def)
qed

end
