(* ===== verification/Sound.thy ===== *)
theory Sound
  imports Codec
begin

text \<open>
  The upper half of the sound driver sound/s3c-wm8976.c: the two streams of fragments between the
  programs and the DMA channels, and the device file /dev/dsp. A fragment belongs to the driver or to
  its DMA channel, which its semaphore says. A transfer is finished by a callback; an operation that
  waits is given the list of what happens meanwhile: \<^verbatim>\<open>Some data\<close>, the oldest transfer ends (with the
  recorded bytes, for the input stream), or \<^verbatim>\<open>None\<close>, a signal arrives. When the list is used up the
  process is still asleep.
\<close>

subsection \<open>State\<close>

text \<open>
  \<^verbatim>\<open>audio_buf_t\<close> with the memory it points to; \<^verbatim>\<open>place\<close> is the allocation that \<^verbatim>\<open>start\<close> points into and
  the offset there. \<^verbatim>\<open>audio_stream_t\<close>: \<^verbatim>\<open>buf\<close> is the buffer number \<^verbatim>\<open>buf_idx\<close> as soon as there are
  any. \<^verbatim>\<open>pending\<close> and \<^verbatim>\<open>sent\<close> are the channel's side: the buffers it has, oldest first, and the contents of
  all transfers asked for.
\<close>

record abuf =
  fill :: nat
  bytes :: "u8 list"
  sem :: nat
  master :: nat
  place :: "nat \<times> nat"

record astream =
  buffers :: "abuf list option"
  buf_idx :: nat
  fragsize :: nat
  nbfrags :: nat
  dma_ch :: nat
  dma_ok :: bool
  pending :: "nat list"
  sent :: "u8 list list"

record snd = mixer +
  output_stream :: astream
  input_stream :: astream
  audio_rate :: u32
  audio_channels :: int
  audio_fmt :: int
  audio_fragsize :: nat
  audio_nbfrags :: nat
  audio_rd_refcount :: nat
  audio_wr_refcount :: nat

definition cur :: "astream \<Rightarrow> abuf" where
  "cur st = the (buffers st) ! buf_idx st"

definition upd_buf :: "nat \<Rightarrow> (abuf \<Rightarrow> abuf) \<Rightarrow> astream \<Rightarrow> astream" where
  "upd_buf i f st = st\<lparr>buffers := map_option (\<lambda>bs. bs[i := f (bs ! i)]) (buffers st)\<rparr>"

definition upd_cur :: "(abuf \<Rightarrow> abuf) \<Rightarrow> astream \<Rightarrow> astream" where
  "upd_cur f st = upd_buf (buf_idx st) f st"

definition NEXT_BUF :: "astream \<Rightarrow> astream" where
  "NEXT_BUF st = st\<lparr>buf_idx := (buf_idx st + 1) mod nbfrags st\<rparr>"

definition dma_enqueue :: "nat \<Rightarrow> nat \<Rightarrow> astream \<Rightarrow> astream" where
  "dma_enqueue i n st = st\<lparr>pending := pending st @ [i], sent := sent st @ [take n (bytes (the (buffers st) ! i))]\<rparr>"

definition up :: "nat \<Rightarrow> astream \<Rightarrow> astream" where
  "up i st = upd_buf i (\<lambda>b. b\<lparr>sem := sem b + 1\<rparr>) st"

subsection \<open>Callbacks and waiting\<close>

definition audio_dmaout_done_callback :: "u8 list \<Rightarrow> astream \<Rightarrow> astream" where
  "audio_dmaout_done_callback data st =
     (case pending st of [] \<Rightarrow> st | i # js \<Rightarrow> up i (st\<lparr>pending := js\<rparr>))"

definition audio_dmain_done_callback :: "u8 list \<Rightarrow> astream \<Rightarrow> astream" where
  "audio_dmain_done_callback data st =
     (case pending st of [] \<Rightarrow> st
      | i # js \<Rightarrow> up i (upd_buf i (\<lambda>b. b\<lparr>bytes := data @ drop (length data) (bytes b), fill := length data\<rparr>)
                          (st\<lparr>pending := js\<rparr>)))"

type_synonym happening = "u8 list option"

datatype 'a wait = Got 'a | Not_got 'a | Asleep

fun down_interruptible ::
  "(u8 list \<Rightarrow> astream \<Rightarrow> astream) \<Rightarrow> nat \<Rightarrow> happening list \<Rightarrow> astream \<Rightarrow> (astream \<times> happening list) wait" where
  "down_interruptible callback i env st =
     (if sem (the (buffers st) ! i) > 0 then Got (upd_buf i (\<lambda>b. b\<lparr>sem := sem b - 1\<rparr>) st, env)
      else case env of [] \<Rightarrow> Asleep
           | None # env \<Rightarrow> Not_got (st, env)
           | Some data # env \<Rightarrow> down_interruptible callback i env (callback data st))"

text \<open>\<^verbatim>\<open>down\<close> is not interrupted by a signal, which stays for the next operation that waits.\<close>

fun down ::
  "(u8 list \<Rightarrow> astream \<Rightarrow> astream) \<Rightarrow> nat \<Rightarrow> happening list \<Rightarrow> astream \<Rightarrow> (astream \<times> happening list) wait" where
  "down callback i env st =
     (if sem (the (buffers st) ! i) > 0 then Got (upd_buf i (\<lambda>b. b\<lparr>sem := sem b - 1\<rparr>) st, env)
      else case env of [] \<Rightarrow> Asleep
           | None # env \<Rightarrow> (case down callback i env st of Got (st, env) \<Rightarrow> Got (st, None # env) | w \<Rightarrow> w)
           | Some data # env \<Rightarrow> down callback i env (callback data st))"

definition down_trylock :: "nat \<Rightarrow> happening list \<Rightarrow> astream \<Rightarrow> (astream \<times> happening list) wait" where
  "down_trylock i env st =
     (if sem (the (buffers st) ! i) > 0 then Got (upd_buf i (\<lambda>b. b\<lparr>sem := sem b - 1\<rparr>) st, env)
      else Not_got (st, env))"

subsection \<open>Buffers\<close>

text \<open>
  \<^verbatim>\<open>can c n\<close> says whether \<^verbatim>\<open>dma_alloc_coherent\<close> gives \<^verbatim>\<open>n\<close> bytes when it has given \<^verbatim>\<open>c\<close> blocks
  before. A block is taken as large as can be had, counted in fragments: \<^verbatim>\<open>dmasize\<close> divided by
  \<^verbatim>\<open>fragsize\<close>. The memory itself starts with bytes of no meaning, here zeros.
\<close>

fun largest_block :: "(nat \<Rightarrow> bool) \<Rightarrow> nat \<Rightarrow> nat \<Rightarrow> nat" where
  "largest_block can fs 0 = 0"
| "largest_block can fs (Suc k) = (if can (Suc k * fs) then Suc k else largest_block can fs k)"

fun setup_frags :: "string \<Rightarrow> (nat \<Rightarrow> nat \<Rightarrow> bool) \<Rightarrow> nat \<Rightarrow> nat \<Rightarrow> nat \<Rightarrow> nat \<Rightarrow> nat \<Rightarrow> bool \<times> abuf list \<times> kcall list" where
  "setup_frags nm can fs 0 blk avail off = (True, [], [])"
| "setup_frags nm can fs (Suc n) blk avail off =
     (let new_buf = (\<lambda>m p. \<lparr>fill = 0, bytes = replicate fs 0, sem = 1, master = m, place = p\<rparr>)
      in if avail = 0
         then let k = largest_block (can blk) fs (Suc n)
              in if k = 0 then (False, [], [])
                 else (case setup_frags nm can fs n (Suc blk) (k - 1) fs of (ok, bs, cs) \<Rightarrow>
                         (ok, new_buf (k * fs) (blk, 0) # bs, Acquire (Dma_mem nm blk) (k * fs) # cs))
         else (case setup_frags nm can fs n blk (avail - 1) (off + fs) of (ok, bs, cs) \<Rightarrow>
                 (ok, new_buf 0 (blk - 1, off) # bs, cs)))"

definition zero_buf :: abuf where
  "zero_buf = \<lparr>fill = 0, bytes = [], sem = 0, master = 0, place = (0, 0)\<rparr>"

definition audio_clear_buf :: "string \<Rightarrow> astream \<Rightarrow> astream \<times> kcall list" where
  "audio_clear_buf nm st =
     (let flush = (if dma_ok st then [Other ''s3c2410_dma_ctrl FLUSH'' (dma_ch st)] else []);
          frees = (case buffers st of None \<Rightarrow> []
                   | Some bs \<Rightarrow> map (\<lambda>b. Release (Dma_mem nm (fst (place b)))) (filter (\<lambda>b. master b \<noteq> 0) bs)
                               @ [Kfree nm])
      in (st\<lparr>buffers := None, buf_idx := 0, pending := (if dma_ok st then [] else pending st)\<rparr>, flush @ frees))"

definition audio_setup_buf ::
  "string \<Rightarrow> bool \<Rightarrow> (nat \<Rightarrow> nat \<Rightarrow> bool) \<Rightarrow> nat \<Rightarrow> nat \<Rightarrow> astream \<Rightarrow> int \<times> astream \<times> kcall list" where
  "audio_setup_buf nm kmalloc_ok can nb fs st =
     (if buffers st \<noteq> None then (- EBUSY, st, [])
      else let st = st\<lparr>nbfrags := nb, fragsize := fs\<rparr>
           in if \<not> kmalloc_ok then (case audio_clear_buf nm st of (st, ds) \<Rightarrow> (- ENOMEM, st, ds))
              else (case setup_frags nm can fs nb 0 0 0 of (ok, bs, cs) \<Rightarrow>
                if ok then (0, st\<lparr>buffers := Some bs, buf_idx := 0\<rparr>, Kmalloc nm nb # cs)
                else (case audio_clear_buf nm (st\<lparr>buffers := Some (bs @ replicate (nb - length bs) zero_buf)\<rparr>) of
                        (st, ds) \<Rightarrow> (- ENOMEM, st, Kmalloc nm nb # cs @ ds))))"

subsection \<open>Playing\<close>

text \<open>
  A 16-bit sample is played on both channels. \<^verbatim>\<open>h k\<close> is the halfword number \<^verbatim>\<open>k\<close> at \<^verbatim>\<open>from\<close>; halfwords that
  \<^verbatim>\<open>__get_user\<close> cannot read are 0. \<^verbatim>\<open>left\<close> counts the bytes up to \<^verbatim>\<open>end\<close>.
\<close>

definition both16 :: "u32 \<Rightarrow> u32" where
  "both16 v = v OR push_bit 16 v"

fun mono_words :: "(nat \<Rightarrow> u16) \<Rightarrow> nat \<Rightarrow> nat \<Rightarrow> u32 list" where
  "mono_words h k left =
     (if left > 2
      then let v = ucast (h k) OR push_bit 16 (ucast (h (k + 1))) :: u32;
               x = push_bit 16 v;
               x = x OR drop_bit 16 x;
               y = drop_bit 16 v;
               y = y OR push_bit 16 y
           in x # y # mono_words h (k + 2) (left - 4)
      else if left > 0 then [both16 (ucast (h k))] else [])"

declare mono_words.simps [simp del]

definition copy_from_user_mono_stereo :: "bool \<Rightarrow> bool \<Rightarrow> (nat \<Rightarrow> u16) \<Rightarrow> nat \<Rightarrow> int \<times> u32 list" where
  "copy_from_user_mono_stereo access_ok from_odd h count =
     (if access_ok then (- EFAULT, [])
      else (0, if from_odd then both16 (ucast (h 0)) # mono_words h 1 (count - 2) else mono_words h 0 count))"

definition bytes32 :: "u32 \<Rightarrow> u8 list" where
  "bytes32 v = [ucast v, ucast (drop_bit 8 v), ucast (drop_bit 16 v), ucast (drop_bit 24 v)]"

definition half_at :: "u8 list \<Rightarrow> nat \<Rightarrow> u16" where
  "half_at us k = (let g = (\<lambda>i. if i < length us then us ! i else 0)
                   in ucast (g (2 * k)) OR push_bit 8 (ucast (g (2 * k + 1))))"

text \<open>Writing into the memory of a buffer; outside of it the behaviour is undefined.\<close>

definition poke :: "nat \<Rightarrow> u8 list \<Rightarrow> abuf \<Rightarrow> abuf option" where
  "poke i xs b = (if i + length xs \<le> length (bytes b)
                  then Some (b\<lparr>bytes := take i (bytes b) @ xs @ drop (i + length xs) (bytes b)\<rparr>) else None)"

text \<open>
  What the user, the mode of the file, and the kernel give to one call. \<^verbatim>\<open>enq n\<close> is what the
  \<^verbatim>\<open>n\<close>-th \<^verbatim>\<open>s3c2410_dma_enqueue\<close> of the channel returns, \<^verbatim>\<open>user\<close> the readable bytes at \<^verbatim>\<open>buffer\<close>.
\<close>

record call =
  nonblock :: bool
  valid :: bool              \<comment> \<open>\<^verbatim>\<open>access_ok\<close>\<close>
  odd_addr :: bool           \<comment> \<open>\<^verbatim>\<open>(int)from & 2\<close>\<close>
  enq :: "nat \<Rightarrow> int"

datatype io = Break int | Return int | Continue nat | Wait

text \<open>
  One turn of the write loop, at \<^verbatim>\<open>count\<close> remaining bytes: \<^verbatim>\<open>Break\<close> with the value of \<^verbatim>\<open>ret\<close>,
  \<^verbatim>\<open>Return\<close>, or the number of bytes taken; a break after bytes were taken says so in the second component.
\<close>

definition copy_chunk :: "call \<Rightarrow> int \<Rightarrow> u8 list \<Rightarrow> nat \<Rightarrow> astream \<Rightarrow> (int \<times> nat \<times> astream) option" where
  "copy_chunk q channels us count st =
     (let b = cur st in
      if fill b > fragsize st then None
      else if channels = 2
      then let chunk = min (fragsize st - fill b) count
           in (case copy_from_user us chunk of (bs, err) \<Rightarrow>
                 map_option (\<lambda>b. if err \<noteq> 0 then (- EFAULT, 0, upd_cur (\<lambda>_. b) st)
                                 else (0, chunk, upd_cur (\<lambda>_. b\<lparr>fill := fill b + chunk\<rparr>) st))
                   (poke (fill b) bs b))
      else let chunk = min ((fragsize st - fill b) div 2) count
           in (case copy_from_user_mono_stereo (valid q) (odd_addr q) (half_at us) chunk of (rc, ws) \<Rightarrow>
                 if rc \<noteq> 0 then Some (- EFAULT, 0, st)
                 else map_option (\<lambda>b. (0, chunk, upd_cur (\<lambda>_. b\<lparr>fill := fill b + chunk * 2\<rparr>) st))
                        (poke (fill b) (concat (map bytes32 ws)) b)))"

definition write_turn ::
  "call \<Rightarrow> int \<Rightarrow> happening list \<Rightarrow> u8 list \<Rightarrow> nat \<Rightarrow> astream \<Rightarrow> (io \<times> nat \<times> happening list \<times> astream) option" where
  "write_turn q channels env us count st =
     (case (if nonblock q then down_trylock (buf_idx st) env st
            else down_interruptible audio_dmaout_done_callback (buf_idx st) env st) of
        Asleep \<Rightarrow> Some (Wait, 0, [], st)
      | Not_got (st, env) \<Rightarrow> Some (Break (if nonblock q then - EAGAIN else - ERESTARTSYS), 0, env, st)
      | Got (st, env) \<Rightarrow>
          Option.bind (copy_chunk q channels us count st) (\<lambda>(rc, chunk, st).
            if rc \<noteq> 0 then Some (Return rc, 0, env, up (buf_idx st) st)
            else if fill (cur st) < fragsize st
            then Some (Break (if nonblock q then - EAGAIN else - ERESTARTSYS), chunk, env, up (buf_idx st) st)
            else let rc = enq q (length (sent st))
                 in if rc \<noteq> 0 then Some (Return rc, 0, env, st)
                    else let st = dma_enqueue (buf_idx st) (fill (cur st)) st;
                             st = upd_cur (\<lambda>b. b\<lparr>fill := 0\<rparr>) st
                         in Some (Continue chunk, chunk, env, NEXT_BUF st)))"

partial_function (option) write_loop ::
  "call \<Rightarrow> int \<Rightarrow> happening list \<Rightarrow> u8 list \<Rightarrow> nat \<Rightarrow> nat \<Rightarrow> int \<Rightarrow> astream \<Rightarrow> (int \<times> astream) syscall option" where
  "write_loop q channels env us count took ret st =
     (if count = 0 then Some (Ret (if took \<noteq> 0 then int took else ret, st))
      else Option.bind (write_turn q channels env us count st) (\<lambda>r.
        case r of (io, chunk, env, st) \<Rightarrow>
          (case io of
             Wait \<Rightarrow> Some Sleep
           | Return rc \<Rightarrow> Some (Ret (rc, st))
           | Break rc \<Rightarrow> Some (Ret (if took + chunk \<noteq> 0 then int (took + chunk) else rc, st))
           | Continue chunk \<Rightarrow>
               write_loop q channels env (drop chunk us) (count - chunk) (took + chunk) 0 st)))"

text \<open>\<^verbatim>\<open>wr_mode\<close>: the access mode is O_WRONLY or O_RDWR. The DMA memory is asked for on the first write.\<close>

definition smdk2410_audio_write ::
  "call \<Rightarrow> bool \<Rightarrow> bool \<Rightarrow> (nat \<Rightarrow> nat \<Rightarrow> bool) \<Rightarrow> happening list \<Rightarrow> u8 list \<Rightarrow> nat \<Rightarrow> snd \<Rightarrow> (int \<times> snd) syscall option" where
  "smdk2410_audio_write q wr_mode kmalloc_ok can env us count s =
     (if \<not> wr_mode then Some (Ret (- EPERM, s))
      else let (rc, st, cs) = (if buffers (output_stream s) = None
                               then audio_setup_buf ''out'' kmalloc_ok can (audio_nbfrags s) (audio_fragsize s) (output_stream s)
                               else (0, output_stream s, []));
               s = emit cs (s\<lparr>output_stream := st\<rparr>)
           in if rc \<noteq> 0 then Some (Ret (- ENOMEM, s))
              else map_option (\<lambda>r. case r of Sleep \<Rightarrow> Sleep | Ret (n, st) \<Rightarrow> Ret (n, s\<lparr>output_stream := st\<rparr>))
                     (write_loop q (audio_channels s) env us (count - count mod 4) 0 0 st))"

text \<open>\<^verbatim>\<open>audio_sync\<close> sends what is left in the current buffer and waits for the buffer before the next.\<close>

definition audio_sync :: "happening list \<Rightarrow> astream \<Rightarrow> (int \<times> happening list \<times> astream) syscall" where
  "audio_sync env st =
     (if buffers st = None then Ret (0, env, st)
      else case (if fill (cur st) \<noteq> 0
                 then (case down audio_dmaout_done_callback (buf_idx st) env st of
                         Got (st, env) \<Rightarrow>
                           Got (NEXT_BUF (upd_cur (\<lambda>b. b\<lparr>fill := 0\<rparr>) (dma_enqueue (buf_idx st) (fill (cur st)) st)), env)
                       | w \<Rightarrow> w)
                 else Got (st, env)) of
             Got (st, env) \<Rightarrow>
               (let i = (nbfrags st + buf_idx st - 1) mod nbfrags st
                in case down_interruptible audio_dmaout_done_callback i env st of
                     Got (st, env) \<Rightarrow> Ret (0, env, up i st)
                   | Not_got (st, env) \<Rightarrow> Ret (- EINTR, env, st)
                   | Asleep \<Rightarrow> Sleep)
           | _ \<Rightarrow> Sleep)"

subsection \<open>Recording\<close>

definition read_turn ::
  "call \<Rightarrow> happening list \<Rightarrow> nat \<Rightarrow> nat \<Rightarrow> astream \<Rightarrow> (io \<times> u8 list \<times> happening list \<times> astream) option" where
  "read_turn q env room count st =
     (case (if nonblock q then down_trylock (buf_idx st) env st
            else down_interruptible audio_dmain_done_callback (buf_idx st) env st) of
        Asleep \<Rightarrow> Some (Wait, [], [], st)
      | Not_got (st, env) \<Rightarrow> Some (Break (if nonblock q then - EAGAIN else - ERESTARTSYS), [], env, st)
      | Got (st, env) \<Rightarrow>
          (let b = cur st;
               chunk = min (fill b) count
           in if fill b > fragsize st then None
              else if room < chunk then Some (Return (- EFAULT), [], env, up (buf_idx st) st)
              else let xs = take chunk (drop (fragsize st - fill b) (bytes b));
                       st = upd_cur (\<lambda>b. b\<lparr>fill := fill b - chunk\<rparr>) st
                   in if fill (cur st) > 0
                      then Some (Break (if nonblock q then - EAGAIN else - ERESTARTSYS), xs, env, up (buf_idx st) st)
                      else Some (Continue chunk, xs, env, NEXT_BUF (dma_enqueue (buf_idx st) (fragsize st) st))))"

partial_function (option) audio_read_loop ::
  "call \<Rightarrow> happening list \<Rightarrow> nat \<Rightarrow> nat \<Rightarrow> u8 list \<Rightarrow> int \<Rightarrow> astream \<Rightarrow> (int \<times> u8 list \<times> astream) syscall option" where
  "audio_read_loop q env room count got ret st =
     (if count = 0 then Some (Ret (if got \<noteq> [] then int (length got) else ret, got, st))
      else Option.bind (read_turn q env room count st) (\<lambda>r.
        case r of (io, xs, env, st) \<Rightarrow>
          (case io of
             Wait \<Rightarrow> Some Sleep
           | Return rc \<Rightarrow> Some (Ret (rc, got, st))
           | Break rc \<Rightarrow> Some (Ret (if got @ xs \<noteq> [] then int (length (got @ xs)) else rc, got @ xs, st))
           | Continue chunk \<Rightarrow>
               audio_read_loop q env (room - chunk) (count - chunk) (got @ xs)
                 (if nonblock q then - EAGAIN else - ERESTARTSYS) st)))"

text \<open>All buffers of a fresh input stream are given to the channel.\<close>

fun enqueue_all :: "nat \<Rightarrow> astream \<Rightarrow> astream" where
  "enqueue_all 0 st = st"
| "enqueue_all (Suc n) st =
     (let st = upd_cur (\<lambda>b. b\<lparr>sem := sem b - 1\<rparr>) st
      in enqueue_all n (NEXT_BUF (dma_enqueue (buf_idx st) (fragsize st) st)))"

definition smdk2410_audio_read ::
  "call \<Rightarrow> bool \<Rightarrow> (nat \<Rightarrow> nat \<Rightarrow> bool) \<Rightarrow> happening list \<Rightarrow> nat \<Rightarrow> nat \<Rightarrow> snd \<Rightarrow> (int \<times> u8 list \<times> snd) syscall option" where
  "smdk2410_audio_read q kmalloc_ok can env room count s =
     (let fresh = (buffers (input_stream s) = None);
          (rc, st, cs) = (if fresh
                          then audio_setup_buf ''in'' kmalloc_ok can (audio_nbfrags s) (audio_fragsize s) (input_stream s)
                          else (0, input_stream s, []));
          s = emit cs (s\<lparr>input_stream := st\<rparr>)
      in if rc \<noteq> 0 then Some (Ret (- ENOMEM, [], s))
         else map_option (\<lambda>r. case r of Sleep \<Rightarrow> Sleep | Ret (n, xs, st) \<Rightarrow> Ret (n, xs, s\<lparr>input_stream := st\<rparr>))
                (audio_read_loop q env room count [] 0 (if fresh then enqueue_all (nbfrags st) st else st)))"

subsection \<open>Poll\<close>

text \<open>
  \<^verbatim>\<open>f_read\<close> and \<^verbatim>\<open>f_write\<close> are the modes of the open file. Both loops leave after their first turn:
  only the first buffer is looked at. POLLIN is 1, POLLOUT 4, POLLWRNORM 0x100.
\<close>

definition poll_stream :: "u32 \<Rightarrow> astream \<Rightarrow> u32" where
  "poll_stream bits st =
     (if 0 < nbfrags st \<and> sem (the (buffers st) ! 0) > 0 then bits OR 0x100 else 0)"

definition smdk2410_audio_poll ::
  "bool \<Rightarrow> bool \<Rightarrow> bool \<Rightarrow> (nat \<Rightarrow> nat \<Rightarrow> bool) \<Rightarrow> snd \<Rightarrow> int \<times> snd" where
  "smdk2410_audio_poll f_read f_write kmalloc_ok can s =
     (let (rc, st, cs) = (if f_read \<and> buffers (input_stream s) = None
                          then audio_setup_buf ''in'' kmalloc_ok can (audio_nbfrags s) (audio_fragsize s) (input_stream s)
                          else (0, input_stream s, []));
          s = emit cs (s\<lparr>input_stream := st\<rparr>)
      in if rc \<noteq> 0 then (- ENOMEM, s)
         else let s = (if f_read then emit [Poll_wait ''input_stream.buf->sem.wait''] s else s);
                  mask = (if f_read then poll_stream 1 (input_stream s) else 0);
                  (rc, st, cs) = (if f_write \<and> buffers (output_stream s) = None
                          then audio_setup_buf ''out'' kmalloc_ok can (audio_nbfrags s) (audio_fragsize s) (output_stream s)
                          else (0, output_stream s, []));
                  s = emit cs (s\<lparr>output_stream := st\<rparr>)
              in if rc \<noteq> 0 then (- ENOMEM, s)
                 else let s = (if f_write then emit [Poll_wait ''output_stream.buf->sem.wait''] s else s);
                          mask = mask OR (if f_write then poll_stream 4 (output_stream s) else 0)
                      in (sint mask, s))"

definition smdk2410_audio_llseek :: int where
  "smdk2410_audio_llseek = - ESPIPE"

subsection \<open>The I2S controller\<close>

text \<open>The bits of its registers, as the kernel headers number them.\<close>

definition iis_write :: "string \<Rightarrow> u32 \<Rightarrow> kcall" where
  "iis_write r v = Other r (unat v)"

definition iis_off :: "kcall list" where
  "iis_off = [iis_write ''IISPSR'' 0, iis_write ''IISCON'' 0, iis_write ''IISMOD'' 0, iis_write ''IISFCON'' 0]"

definition init_s3c2410_iis_bus :: "snd \<Rightarrow> snd" where
  "init_s3c2410_iis_bus s = emit (iis_off @ [Other ''clk_disable iis'' 0]) s"

text \<open>
  \<^verbatim>\<open>psr\<close> is the value of IISPSR for a rate (Codec). \<^verbatim>\<open>audio_set_dsp_speed\<close> returns what it stored in
  the unsigned \<^verbatim>\<open>audio_rate\<close>, as a \<^verbatim>\<open>long\<close>.
\<close>

definition audio_set_dsp_speed :: "(u32 \<Rightarrow> u32) \<Rightarrow> u32 \<Rightarrow> snd \<Rightarrow> int \<times> snd" where
  "audio_set_dsp_speed psr val s = (sint val, emit [iis_write ''IISPSR'' (psr val)] (s\<lparr>audio_rate := val\<rparr>))"

definition IISMOD_base :: u32 where
  "IISMOD_base = push_bit 4 1 OR push_bit 3 1 OR push_bit 2 1 OR push_bit 0 1"

definition init_s3c2410_iis_bus_rx :: "(u32 \<Rightarrow> u32) \<Rightarrow> snd \<Rightarrow> snd" where
  "init_s3c2410_iis_bus_rx psr s =
     (let s = emit (iis_off @ [Other ''clk_enable iis'' 0]) s;
          iiscon = push_bit 1 1 OR push_bit 0 1;
          iismod = IISMOD_base;
          iisfcon = push_bit 14 1 OR push_bit 15 1;
          iiscon = iiscon OR push_bit 4 1 OR push_bit 3 1;
          iismod = iismod OR push_bit 6 1;
          iisfcon = iisfcon OR push_bit 12 1;
          (_, s) = audio_set_dsp_speed psr (audio_rate s) s
      in emit [iis_write ''IISMOD'' iismod, iis_write ''IISFCON'' iisfcon, iis_write ''IISCON'' iiscon] s)"

definition init_s3c2410_iis_bus_tx :: "(u32 \<Rightarrow> u32) \<Rightarrow> snd \<Rightarrow> snd" where
  "init_s3c2410_iis_bus_tx psr s =
     (let s = emit (iis_off @ [Other ''clk_enable iis'' 0]) s;
          iiscon = push_bit 1 1 OR push_bit 0 1;
          iismod = IISMOD_base;
          iisfcon = push_bit 14 1 OR push_bit 15 1;
          iiscon = iiscon OR push_bit 5 1 OR push_bit 2 1;
          iismod = iismod OR push_bit 7 1;
          iisfcon = iisfcon OR push_bit 13 1;
          (_, s) = audio_set_dsp_speed psr (audio_rate s) s
      in emit [iis_write ''IISMOD'' iismod, iis_write ''IISFCON'' iisfcon, iis_write ''IISCON'' iiscon] s)"

subsection \<open>The controls of the device\<close>

datatype dsp_cmd =
    SNDCTL_DSP_SETFMT | SNDCTL_DSP_CHANNELS | SNDCTL_DSP_STEREO | SOUND_PCM_READ_CHANNELS | SNDCTL_DSP_SPEED
  | SOUND_PCM_READ_RATE | SNDCTL_DSP_GETFMTS | SNDCTL_DSP_GETBLKSIZE | SNDCTL_DSP_SETFRAGMENT | SNDCTL_DSP_SYNC
  | SNDCTL_DSP_GETOSPACE | SNDCTL_DSP_GETISPACE | SNDCTL_DSP_RESET | SNDCTL_DSP_NONBLOCK
  | Dsp_unsupported          \<comment> \<open>the eleven commands from \<^verbatim>\<open>SNDCTL_DSP_POST\<close> to \<^verbatim>\<open>SNDCTL_DSP_SETDUPLEX\<close>\<close>
  | Dsp_mixer mixer_cmd      \<comment> \<open>all others\<close>

definition AFMT_S16_LE :: u32 where "AFMT_S16_LE = 0x10"

text \<open>The fragment size and count that a request asks for. A shift by 32 or more is undefined.\<close>

definition fragment_request :: "u32 \<Rightarrow> (nat \<times> nat) option" where
  "fragment_request val =
     (let sh = unat (val AND 0xFFFF)
      in if sh \<ge> 32 then None
         else let fs = 2 ^ sh;
                  fs = (if fs < 16 then 16 else fs);
                  fs = (if fs > 16384 then 16384 else fs);
                  nb = unat (drop_bit 16 val AND 0x7FFF);
                  nb = (if nb < 2 then 2 else nb);
                  nb = (if nb * fs > 128 * 1024 then 128 * 1024 div fs else nb)
              in Some (fs, nb))"

text \<open>
  One half of SNDCTL_DSP_SETFRAGMENT, for the stream that \<^verbatim>\<open>get\<close> and \<^verbatim>\<open>put\<close> select. The result is the
  value returned if the command ends here.
\<close>

definition set_fragment ::
  "string \<Rightarrow> (snd \<Rightarrow> astream) \<Rightarrow> (astream \<Rightarrow> snd \<Rightarrow> snd) \<Rightarrow> bool \<Rightarrow> (nat \<Rightarrow> nat \<Rightarrow> bool) \<Rightarrow> u32 \<Rightarrow> snd
    \<Rightarrow> (int option \<times> snd) option" where
  "set_fragment nm get put kmalloc_ok can val s =
     (if buffers (get s) \<noteq> None then Some (Some (- EBUSY), s)
      else map_option (\<lambda>(fs, nb).
             let s = s\<lparr>audio_fragsize := fs, audio_nbfrags := nb\<rparr>;
                 (rc, st, cs) = audio_setup_buf nm kmalloc_ok can nb fs (get s)
             in (if rc \<noteq> 0 then Some (- ENOMEM) else None, emit cs (put st s))) (fragment_request val))"

definition put_out :: "astream \<Rightarrow> snd \<Rightarrow> snd" where "put_out st s = s\<lparr>output_stream := st\<rparr>"
definition put_in :: "astream \<Rightarrow> snd \<Rightarrow> snd" where "put_in st s = s\<lparr>input_stream := st\<rparr>"

text \<open>The free space: fragments wholly free, and bytes.\<close>

definition ospace :: "astream \<Rightarrow> nat \<times> nat" where
  "ospace st = (let free = filter (\<lambda>b. sem b > 0) (take (nbfrags st) (the (buffers st)))
                in (length (filter (\<lambda>b. fill b = 0) free), sum_list (map (\<lambda>b. fragsize st - fill b) free)))"

definition ispace :: "astream \<Rightarrow> nat \<times> nat" where
  "ispace st = (let full = filter (\<lambda>b. sem b > 0) (take (nbfrags st) (the (buffers st)))
                in (length (filter (\<lambda>b. fill b = fragsize st) full), sum_list (map fill full)))"

definition space_info :: "(astream \<Rightarrow> nat \<times> nat) \<Rightarrow> bool \<Rightarrow> astream \<Rightarrow> (int \<times> int list) option" where
  "space_info space access_ok st =
     (if access_ok then Some (1, [])
      else if buffers st = None \<and> nbfrags st \<noteq> 0 then None
      else (case (if buffers st = None then (0, 0) else space st) of (frags, nbytes) \<Rightarrow>
              Some (0, [int frags, int (nbfrags st), int (fragsize st), int nbytes])))"

text \<open>
  The whole command: \<^verbatim>\<open>arg\<close> is what \<^verbatim>\<open>get_user\<close> finds. Where the code does not look whether it could
  read the value, an unreadable one is 0. \<^verbatim>\<open>Ret (rc, out, nb, s)\<close>: the value returned,
  what is put for the user, and whether the file is made nonblocking.
\<close>

definition smdk2410_audio_ioctl ::
  "(u32 \<Rightarrow> u32) \<Rightarrow> bool \<Rightarrow> bool \<Rightarrow> bool \<Rightarrow> bool \<Rightarrow> (nat \<Rightarrow> nat \<Rightarrow> bool) \<Rightarrow> happening list \<Rightarrow> int
    \<Rightarrow> dsp_cmd \<Rightarrow> u32 option \<Rightarrow> snd \<Rightarrow> (int \<times> int list \<times> bool \<times> snd) syscall option" where
  "smdk2410_audio_ioctl psr f_read f_write access_ok kmalloc_ok can env put_rc cmd arg s =
     (let done = (\<lambda>rc out s. Some (Ret (rc, out, False, s)));
          val = (case arg of None \<Rightarrow> 0 | Some v \<Rightarrow> v)
      in case cmd of
        SNDCTL_DSP_SETFMT \<Rightarrow>
          (if val AND AFMT_S16_LE \<noteq> 0 then done 0 [] (s\<lparr>audio_fmt := sint val\<rparr>) else done (- EINVAL) [] s)
      | SNDCTL_DSP_CHANNELS \<Rightarrow>
          (if val \<noteq> 1 \<and> val \<noteq> 2 then done (- EINVAL) [] s else done 0 [] (s\<lparr>audio_channels := sint val\<rparr>))
      | SNDCTL_DSP_STEREO \<Rightarrow> done 0 [] (s\<lparr>audio_channels := (if val \<noteq> 0 then 2 else 1)\<rparr>)
      | SOUND_PCM_READ_CHANNELS \<Rightarrow> done 0 [audio_channels s] s
      | SNDCTL_DSP_SPEED \<Rightarrow>
          (case audio_set_dsp_speed psr val s of (v, s) \<Rightarrow> if v < 0 then done (- EINVAL) [] s else done 0 [v] s)
      | SOUND_PCM_READ_RATE \<Rightarrow> done 0 [uint (audio_rate s)] s
      | SNDCTL_DSP_GETFMTS \<Rightarrow> done 0 [uint AFMT_S16_LE] s
      | SNDCTL_DSP_GETBLKSIZE \<Rightarrow> done put_rc [int (audio_fragsize s)] s
      | SNDCTL_DSP_SETFRAGMENT \<Rightarrow>
          Option.bind (if f_write then set_fragment ''out'' output_stream put_out kmalloc_ok can val s else Some (None, s))
            (\<lambda>(e, s). case e of Some rc \<Rightarrow> done rc [] s
               | None \<Rightarrow>
                   Option.bind (if f_read then set_fragment ''in'' input_stream put_in kmalloc_ok can val s else Some (None, s))
                     (\<lambda>(e, s). done (case e of Some rc \<Rightarrow> rc | None \<Rightarrow> 0) [] s))
      | SNDCTL_DSP_SYNC \<Rightarrow>
          (case audio_sync env (output_stream s) of Sleep \<Rightarrow> Some Sleep
           | Ret (rc, _, st) \<Rightarrow> done rc [] (put_out st s))
      | SNDCTL_DSP_GETOSPACE \<Rightarrow>
          map_option (\<lambda>(rc, out). Ret (rc, out, False, s)) (space_info ospace access_ok (output_stream s))
      | SNDCTL_DSP_GETISPACE \<Rightarrow>
          (if \<not> f_read then done (- EINVAL) [] s
           else map_option (\<lambda>(rc, out). Ret (rc, out, False, s)) (space_info ispace access_ok (input_stream s)))
      | SNDCTL_DSP_RESET \<Rightarrow>
          (let s = (if f_read then (case audio_clear_buf ''in'' (input_stream s) of (st, cs) \<Rightarrow> emit cs (put_in st s)) else s);
               s = (if f_write then (case audio_clear_buf ''out'' (output_stream s) of (st, cs) \<Rightarrow> emit cs (put_out st s)) else s)
           in done 0 [] s)
      | SNDCTL_DSP_NONBLOCK \<Rightarrow> Some (Ret (0, [], True, s))
      | Dsp_unsupported \<Rightarrow> done (- ENOSYS) [] s
      | Dsp_mixer c \<Rightarrow>
          (case smdk2410_mixer_ioctl c (map_option sint arg) put_rc s of ((rc, out), s) \<Rightarrow>
             done rc (case out of None \<Rightarrow> [] | Some v \<Rightarrow> [v]) s))"

subsection \<open>Opening and closing\<close>

definition smdk2410_audio_open :: "(u32 \<Rightarrow> u32) \<Rightarrow> nat \<Rightarrow> bool \<Rightarrow> bool \<Rightarrow> snd \<Rightarrow> int \<times> snd" where
  "smdk2410_audio_open psr accmode f_read f_write s =
     (let cold = (audio_rd_refcount s = 0 \<and> audio_wr_refcount s = 0);
          r = (if accmode = 0
               then (if audio_rd_refcount s \<noteq> 0 \<or> audio_wr_refcount s \<noteq> 0 then Inl (- EBUSY)
                     else Inr (s\<lparr>audio_rd_refcount := audio_rd_refcount s + 1\<rparr>))
               else if accmode = 1
               then (if audio_wr_refcount s \<noteq> 0 then Inl (- EBUSY)
                     else Inr (s\<lparr>audio_wr_refcount := audio_wr_refcount s + 1\<rparr>))
               else if accmode = 2
               then (if audio_rd_refcount s \<noteq> 0 \<or> audio_wr_refcount s \<noteq> 0 then Inl (- EBUSY)
                     else Inr (s\<lparr>audio_rd_refcount := audio_rd_refcount s + 1, audio_wr_refcount := audio_wr_refcount s + 1\<rparr>))
               else Inl (- EINVAL))
      in case r of Inl e \<Rightarrow> (e, s)
         | Inr s \<Rightarrow>
             if \<not> cold then (0, s)
             else let s = s\<lparr>audio_rate := 44100, audio_channels := 2, audio_fragsize := 8192, audio_nbfrags := 8\<rparr>;
                      s = (if f_write
                           then (case audio_clear_buf ''out'' (output_stream s) of (st, cs) \<Rightarrow>
                                   emit cs (put_out st (init_s3c2410_iis_bus_tx psr s)))
                           else s);
                      s = (if f_read
                           then (case audio_clear_buf ''in'' (input_stream s) of (st, cs) \<Rightarrow>
                                   emit cs (put_in st (init_s3c2410_iis_bus_rx psr s)))
                           else s)
                  in (0, s))"

definition smdk2410_audio_release :: "happening list \<Rightarrow> bool \<Rightarrow> bool \<Rightarrow> snd \<Rightarrow> (int \<times> snd) syscall" where
  "smdk2410_audio_release env f_read f_write s =
     (let s = (if f_read
               then (let s = (if audio_rd_refcount s = 1
                              then (case audio_clear_buf ''in'' (input_stream s) of (st, cs) \<Rightarrow> emit cs (put_in st s)) else s)
                     in s\<lparr>audio_rd_refcount := 0\<rparr>)
               else s)
      in if f_write \<and> audio_wr_refcount s = 1
         then (case audio_sync env (output_stream s) of Sleep \<Rightarrow> Sleep
               | Ret (_, _, st) \<Rightarrow>
                   (case audio_clear_buf ''out'' st of (st, cs) \<Rightarrow>
                      Ret (0, (emit cs (put_out st s))\<lparr>audio_wr_refcount := 0\<rparr>)))
         else Ret (0, s))"

definition smdk2410_mixer_open :: int where "smdk2410_mixer_open = 0"
definition smdk2410_mixer_release :: int where "smdk2410_mixer_release = 0"

subsection \<open>Loading and unloading\<close>

text \<open>\<^verbatim>\<open>DMACH_I2S_IN\<close> is 9 and \<^verbatim>\<open>DMACH_I2S_OUT\<close> is 10. \<^verbatim>\<open>ret\<close> is what \<^verbatim>\<open>s3c2410_dma_request\<close> returns.\<close>

definition audio_init_dma :: "int \<Rightarrow> astream \<Rightarrow> int \<times> astream \<times> kcall list" where
  "audio_init_dma ret st =
     (if dma_ch st = 10 \<or> dma_ch st = 9
      then (ret, st\<lparr>dma_ok := True\<rparr>,
            (if ret = 0 then [Acquire (Dma_chan (dma_ch st)) 0] else [])
            @ [Other ''s3c2410_dma_devconfig'' (dma_ch st), Other ''s3c2410_dma_config'' (dma_ch st),
               Other ''s3c2410_dma_set_buffdone_fn'' (dma_ch st), Other ''s3c2410_dma_setflags'' (dma_ch st)])
      else (1, st, []))"

definition audio_clear_dma :: "astream \<Rightarrow> kcall list" where
  "audio_clear_dma st = [Other ''s3c2410_dma_set_buffdone_fn NULL'' (dma_ch st), Release (Dma_chan (dma_ch st))]"

definition iis_pins :: "kcall list" where
  "iis_pins =
     [Other ''cfgpin GPB4 OUTP'' 0, Other ''pullup GPB4'' 1, Other ''cfgpin GPB3 OUTP'' 0, Other ''cfgpin GPB2 OUTP'' 0,
      Other ''pullup GPB2'' 1, Other ''cfgpin GPE3 I2SSDI'' 0, Other ''pullup GPE3'' 0, Other ''cfgpin GPE0 I2SLRCK'' 0,
      Other ''pullup GPE0'' 0, Other ''cfgpin GPE1 I2SSCLK'' 0, Other ''pullup GPE1'' 0, Other ''cfgpin GPE2 CDCLK'' 0,
      Other ''pullup GPE2'' 0, Other ''cfgpin GPE4 I2SSDO'' 0, Other ''pullup GPE4'' 0]"

definition s3c2410iis_probe :: "bool \<Rightarrow> bool \<Rightarrow> int \<Rightarrow> int \<Rightarrow> snd \<Rightarrow> int \<times> snd" where
  "s3c2410iis_probe res_ok clk_ok ret_out ret_in s =
     (if \<not> res_ok then (- ENOENT, s)
      else if \<not> clk_ok then (- ENOENT, s)
      else let s = emit ([Acquire (Clock ''iis'') 0, Other ''clk_enable iis'' 0, Other ''local_irq_save'' 0] @ iis_pins
                         @ [Other ''local_irq_restore'' 0]) s;
               s = init_wm8976 (init_s3c2410_iis_bus s);
               (rc, st, cs) = audio_init_dma ret_out ((output_stream s)\<lparr>dma_ch := 10\<rparr>);
               s = emit cs (put_out st s)
           in if rc \<noteq> 0 then (- EBUSY, emit (audio_clear_dma st) s)
              else let (rc, st, cs) = audio_init_dma ret_in ((input_stream s)\<lparr>dma_ch := 9\<rparr>);
                       s = emit cs (put_in st s)
                   in if rc \<noteq> 0 then (- EBUSY, emit (audio_clear_dma st) s)
                      else (0, emit [Acquire (Sound_dev ''dsp'') 0, Acquire (Sound_dev ''mixer'') 0] s))"

definition s3c2410iis_remove :: "snd \<Rightarrow> int \<times> snd" where
  "s3c2410iis_remove s =
     (0, emit ([Release (Sound_dev ''dsp''), Release (Sound_dev ''mixer'')]
               @ audio_clear_dma (output_stream s) @ audio_clear_dma (input_stream s)) s)"

definition zero_stream :: astream where
  "zero_stream = \<lparr>buffers = None, buf_idx = 0, fragsize = 0, nbfrags = 0, dma_ch = 0, dma_ok = False, pending = [], sent = []\<rparr>"

definition s3c2410_uda1341_init :: "int \<Rightarrow> snd \<Rightarrow> int \<times> snd" where
  "s3c2410_uda1341_init register_rc s =
     (register_rc, emit (if register_rc = 0 then [Register_driver ''s3c2410-iis''] else [])
                     (s\<lparr>input_stream := zero_stream, output_stream := zero_stream\<rparr>))"

definition s3c2410_uda1341_exit :: "snd \<Rightarrow> snd" where
  "s3c2410_uda1341_exit s = emit [Unregister_driver ''s3c2410-iis''] s"

end
