(* ===== verification/SoundPlay.thy ===== *)
theory SoundPlay
  imports Sound
begin

text \<open>
  Playing through \<^verbatim>\<open>sound/s3c-wm8976.c\<close>: the ring of fragments between \<^verbatim>\<open>smdk2410_audio_write\<close> and the DMA
  channel. The fragments the channel has are the ones before the current one; an invariant ties the
  semaphores to them, and with it the device is a byte queue: a write appends what it says it took,
  and a sync hands everything over.
\<close>

subsection \<open>The fragments the channel has\<close>

text \<open>The \<^verbatim>\<open>n\<close> buffers before buffer \<^verbatim>\<open>i\<close> in a ring of \<^verbatim>\<open>N\<close>.\<close>

definition before :: "nat \<Rightarrow> nat \<Rightarrow> nat \<Rightarrow> nat list" where
  "before N i n = map (\<lambda>k. (i + N - n + k) mod N) [0..<n]"

lemma before_0 [simp]: "before N i 0 = []"
  by (simp add: before_def)

lemma before_pop: "n < N \<Longrightarrow> before N i (Suc n) = (i + N - Suc n) mod N # before N i n"
  by (simp add: before_def upt_conv_Cons map_Suc_upt [symmetric] Suc_diff_Suc del: upt_Suc)

lemma before_push:
  assumes "i < N" "n < N"
  shows "before N ((i + 1) mod N) (Suc n) = before N i n @ [i]"
proof -
  have "((i + 1) mod N + N - Suc n + k) mod N = (i + N - n + k) mod N" if "k \<le> n" for k
  proof (cases "i + 1 = N")
    case True
    with assms have "i + N - n + k = (N - Suc n + k) + N" by linarith
    then have "(i + N - n + k) mod N = (N - Suc n + k) mod N" by (metis mod_add_self2)
    with True assms show ?thesis by simp
  next
    case False
    with assms show ?thesis by simp
  qed
  moreover have "(i + N - n + n) mod N = i" using assms by simp
  ultimately show ?thesis
    by (simp add: before_def)
qed

lemma before_own:
  assumes "i < N" "n \<le> N"
  shows "i \<in> set (before N i n) \<longleftrightarrow> n = N \<and> 0 < N"
proof
  assume "i \<in> set (before N i n)"
  then obtain k where k: "k < n" "(i + N - n + k) mod N = i" by (auto simp: before_def)
  show "n = N \<and> 0 < N"
  proof (cases "i + N - n + k < N")
    case True
    with k assms show ?thesis by auto
  next
    case False
    with k assms have "i + N - n + k - N < N" by simp
    then have "(i + N - n + k) mod N = i + N - n + k - N" using False by (simp add: mod_if)
    with k assms False show ?thesis by simp
  qed
next
  assume "n = N \<and> 0 < N"
  then show "i \<in> set (before N i n)" using assms by (auto simp: before_def intro!: image_eqI [of _ _ 0])
qed

lemma before_less: "0 < N \<Longrightarrow> j \<in> set (before N i n) \<Longrightarrow> j < N"
  by (auto simp: before_def)

lemma before_full: "i < N \<Longrightarrow> before N i N = i # before N i (N - 1)"
  using before_pop [of "N - 1" N i] by simp

lemma before_distinct:
  assumes "n \<le> N"
  shows "distinct (before N i n)"
proof -
  have "\<not> (k < l \<and> (a + k) mod N = (a + l) mod N)" if "l < n" for a k l
  proof
    assume eq: "k < l \<and> (a + k) mod N = (a + l) mod N"
    then have "N dvd a + l - (a + k)" using mod_eq_dvd_iff_nat [of "a + k" "a + l" N] by simp
    with eq assms that show False by (auto dest: dvd_imp_le)
  qed
  then have "inj_on (\<lambda>k. (i + N - n + k) mod N) {0..<n}"
    by (intro linorder_inj_onI) (auto dest: sym)
  then show ?thesis by (simp add: before_def distinct_map)
qed

lemma before_last: "n < N \<Longrightarrow> (i + N - 1) mod N \<in> set (before N i (Suc n))"
  by (auto simp: before_def intro!: image_eqI [of _ _ n])

subsection \<open>A stream in order\<close>

text \<open>
  The channel has the buffers before the current one, in order; only the current one is partly filled,
  and a semaphore is 0 exactly when its buffer is with the channel or held by the running operation.
\<close>

definition stream_at :: "abuf list \<Rightarrow> nat \<Rightarrow> bool \<Rightarrow> astream \<Rightarrow> bool" where
  "stream_at bs n own st \<longleftrightarrow>
     buffers st = Some bs \<and> length bs = nbfrags st \<and> buf_idx st < nbfrags st \<and> 0 < fragsize st
     \<and> (\<forall>i < nbfrags st. length (bytes (bs ! i)) = fragsize st)
     \<and> (\<forall>i < nbfrags st. i \<noteq> buf_idx st \<longrightarrow> fill (bs ! i) = 0) \<and> fill (bs ! buf_idx st) < fragsize st
     \<and> n \<le> nbfrags st \<and> pending st = before (nbfrags st) (buf_idx st) n \<and> (own \<longrightarrow> n < nbfrags st)
     \<and> (\<forall>i < nbfrags st. sem (bs ! i) =
          (if i \<in> set (before (nbfrags st) (buf_idx st) n) \<or> own \<and> i = buf_idx st then 0 else 1))"

definition stream_inv :: "bool \<Rightarrow> astream \<Rightarrow> bool" where
  "stream_inv own st \<longleftrightarrow> (\<exists>bs n. stream_at bs n own st)"

text \<open>The bytes accepted so far: those sent, and those waiting in the current buffer.\<close>

definition accepted :: "astream \<Rightarrow> u8 list" where
  "accepted st = concat (sent st) @ (if buffers st = None then [] else take (fill (cur st)) (bytes (cur st)))"

text \<open>Two streams that differ only in semaphores and pending transfers.\<close>

definition same_data :: "astream \<Rightarrow> astream \<Rightarrow> bool" where
  "same_data st st' \<longleftrightarrow> accepted st' = accepted st \<and> fill (cur st') = fill (cur st) \<and> buf_idx st' = buf_idx st
     \<and> fragsize st' = fragsize st \<and> sent st' = sent st"

lemma hold_cur:
  assumes "stream_inv False st" "sem (cur st) > 0"
  shows "stream_inv True (upd_buf (buf_idx st) (\<lambda>b. b\<lparr>sem := sem b - 1\<rparr>) st)
    \<and> same_data st (upd_buf (buf_idx st) (\<lambda>b. b\<lparr>sem := sem b - 1\<rparr>) st)"
proof -
  obtain bs n where at: "stream_at bs n False st" using assms(1) by (auto simp: stream_inv_def)
  then have bs: "buffers st = Some bs" "length bs = nbfrags st" "buf_idx st < nbfrags st"
    by (simp_all add: stream_at_def)
  let ?st = "upd_buf (buf_idx st) (\<lambda>b. b\<lparr>sem := sem b - 1\<rparr>) st"
  have out: "buf_idx st \<notin> set (before (nbfrags st) (buf_idx st) n)"
    using assms(2) at by (auto simp: cur_def stream_at_def split: if_split_asm)
  then have "n < nbfrags st" using at before_own [of "buf_idx st" "nbfrags st" n] by (auto simp: stream_at_def)
  then have "stream_at (bs[buf_idx st := (bs ! buf_idx st)\<lparr>sem := sem (bs ! buf_idx st) - 1\<rparr>]) n True ?st"
    using at out by (auto simp: stream_at_def upd_buf_def nth_list_update)
  moreover have "same_data st ?st"
    using bs by (simp add: same_data_def accepted_def cur_def upd_buf_def)
  ultimately show ?thesis by (auto simp: stream_inv_def)
qed

text \<open>A transfer ends: the oldest fragment of the channel is free again.\<close>

lemma complete_first:
  assumes "stream_at bs (Suc n) False st"
  shows "\<exists>bs'. stream_at bs' n False (audio_dmaout_done_callback d st)
    \<and> same_data st (audio_dmaout_done_callback d st)"
proof -
  let ?N = "nbfrags st" and ?i = "buf_idx st"
  let ?q = "before ?N ?i n"
  define j where "j = (?i + ?N - Suc n) mod ?N"
  have n: "n < ?N" using assms by (simp add: stream_at_def)
  have pop: "before ?N ?i (Suc n) = j # ?q" unfolding j_def using n by (rule before_pop)
  have j: "j < ?N" "j \<notin> set ?q"
    using before_distinct [of "Suc n" ?N ?i] n by (simp_all add: pop j_def)
  then have bs: "buffers st = Some bs" "length bs = ?N" "?i < ?N" "sem (bs ! j) = 0" "pending st = j # ?q"
    using assms pop j by (simp_all add: stream_at_def)
  have cb: "audio_dmaout_done_callback d st =
      st\<lparr>pending := ?q, buffers := Some (bs[j := (bs ! j)\<lparr>sem := 1\<rparr>])\<rparr>"
    using bs by (simp add: audio_dmaout_done_callback_def up_def upd_buf_def)
  have "set (before ?N ?i (Suc n)) = insert j (set ?q)" using pop by simp
  with assms j have "stream_at (bs[j := (bs ! j)\<lparr>sem := 1\<rparr>]) n False (audio_dmaout_done_callback d st)"
    unfolding cb stream_at_def by (auto simp: nth_list_update)
  moreover have "same_data st (audio_dmaout_done_callback d st)"
    using bs j(1) by (cases "j = ?i") (simp_all add: cb same_data_def accepted_def cur_def)
  ultimately show ?thesis by blast
qed

lemma complete_cur:
  assumes "stream_inv False st" "sem (cur st) = 0"
  shows "stream_inv False (audio_dmaout_done_callback d st) \<and> sem (cur (audio_dmaout_done_callback d st)) > 0
    \<and> same_data st (audio_dmaout_done_callback d st)"
proof -
  obtain bs n where at: "stream_at bs n False st" using assms(1) by (auto simp: stream_inv_def)
  let ?N = "nbfrags st" and ?i = "buf_idx st" and ?st = "audio_dmaout_done_callback d st"
  have "?i \<in> set (before ?N ?i n)"
    using assms(2) at by (auto simp: cur_def stream_at_def split: if_split_asm)
  then have n: "n = Suc (?N - 1)" using at before_own [of ?i ?N n] by (auto simp: stream_at_def)
  obtain bs' where bs': "stream_at bs' (?N - 1) False ?st" "same_data st ?st"
    using complete_first [OF at [unfolded n]] by blast
  moreover have "?i \<notin> set (before ?N ?i (?N - 1))"
    using before_own [of ?i ?N "?N - 1"] at by (auto simp: stream_at_def)
  moreover have "nbfrags ?st = ?N"
    by (simp add: audio_dmaout_done_callback_def up_def upd_buf_def split: list.split)
  ultimately have "sem (cur ?st) > 0" by (simp add: stream_at_def cur_def same_data_def)
  with bs' show ?thesis by (auto simp: stream_inv_def)
qed

lemma same_data_trans: "same_data a b \<Longrightarrow> same_data b c \<Longrightarrow> same_data a c"
  by (simp add: same_data_def)

lemma down_takes:
  assumes "stream_inv False st"
    and "down_interruptible audio_dmaout_done_callback (buf_idx st) env st = Got (st', env')"
  shows "stream_inv True st' \<and> same_data st st' \<and> env' \<in> {env, tl env}"
proof (cases "sem (cur st) > 0")
  case True
  then show ?thesis
    using assms hold_cur [OF assms(1)] by (auto simp: cur_def)
next
  case False
  then obtain d env1 where env: "env = Some d # env1"
      "down_interruptible audio_dmaout_done_callback (buf_idx st) env1 (audio_dmaout_done_callback d st) = Got (st', env')"
    using assms(2) by (auto simp: cur_def split: list.split_asm option.split_asm)
  let ?t = "audio_dmaout_done_callback d st"
  have t: "stream_inv False ?t" "sem (cur ?t) > 0" "same_data st ?t"
    using complete_cur [OF assms(1)] False by auto
  have "buf_idx ?t = buf_idx st" using t(3) by (simp add: same_data_def)
  then have "st' = upd_buf (buf_idx ?t) (\<lambda>b. b\<lparr>sem := sem b - 1\<rparr>) ?t" "env' = env1"
    using env(2) t(2) by (simp_all add: cur_def)
  then show ?thesis using hold_cur [OF t(1,2)] t(3) env(1) same_data_trans by auto
qed

lemma down_waits:
  assumes "stream_inv False st" "env \<noteq> []" "None \<notin> set env"
  shows "\<exists>st' env'. down_interruptible audio_dmaout_done_callback (buf_idx st) env st = Got (st', env')"
proof (cases "sem (cur st) > 0")
  case False
  obtain d env1 where env: "env = Some d # env1"
    using assms(2,3) by (cases env; cases "hd env") auto
  have "sem (cur (audio_dmaout_done_callback d st)) > 0" "same_data st (audio_dmaout_done_callback d st)"
    using complete_cur [OF assms(1)] False by auto
  then show ?thesis using False env by (simp add: cur_def same_data_def)
qed (simp add: cur_def)

text \<open>An operation that gives up leaves the stream in order.\<close>

lemma down_gives_up:
  assumes "stream_inv False st"
    and "down_interruptible audio_dmaout_done_callback (buf_idx st) env st = Not_got (st', env')"
  shows "st' = st"
proof (cases "sem (cur st) > 0")
  case False
  show ?thesis
  proof (cases env)
    case (Cons h env1)
    show ?thesis
    proof (cases h)
      case (Some d)
      have "sem (cur (audio_dmaout_done_callback d st)) > 0" "same_data st (audio_dmaout_done_callback d st)"
        using complete_cur [OF assms(1)] False by auto
      then show ?thesis using assms(2) False Cons Some by (simp add: cur_def same_data_def)
    qed (use assms(2) False Cons in \<open>simp add: cur_def\<close>)
  qed (use assms(2) False in \<open>simp add: cur_def\<close>)
qed (use assms(2) in \<open>simp add: cur_def\<close>)

subsection \<open>One turn of the write loop\<close>

lemma poke_mid:
  "length (bytes b) = fs \<Longrightarrow> i + length xs \<le> fs \<Longrightarrow>
    poke i xs b = Some (b\<lparr>bytes := take i (bytes b) @ xs @ drop (i + length xs) (bytes b)\<rparr>)"
  by (simp add: poke_def)

text \<open>The current buffer after a chunk was copied in.\<close>

definition filled :: "u8 list \<Rightarrow> abuf \<Rightarrow> abuf" where
  "filled xs b = b\<lparr>bytes := take (fill b) (bytes b) @ xs @ drop (fill b + length xs) (bytes b),
                  fill := fill b + length xs\<rparr>"

lemma copy_chunk_stereo:
  assumes "stream_at bs n True st" "count \<le> length us"
  shows "copy_chunk q 2 us count st =
    (let xs = take (min (fragsize st - fill (cur st)) count) us
     in Some (0, length xs, st\<lparr>buffers := Some (bs[buf_idx st := filled xs (cur st)])\<rparr>))"
proof -
  let ?chunk = "min (fragsize st - fill (cur st)) count"
  have cur: "cur st = bs ! buf_idx st" using assms(1) by (simp add: stream_at_def cur_def)
  have "length (bytes (cur st)) = fragsize st" "fill (cur st) < fragsize st"
    using assms(1) by (simp_all add: stream_at_def cur)
  moreover have "copy_from_user us ?chunk = (take ?chunk us, 0)"
    using assms(2) by (intro copy_from_user_all) simp
  moreover have "length (take ?chunk us) = ?chunk" using assms(2) by simp
  ultimately have "poke (fill (cur st)) (take ?chunk us) (cur st) =
      Some ((cur st)\<lparr>bytes := take (fill (cur st)) (bytes (cur st)) @ take ?chunk us
          @ drop (fill (cur st) + length (take ?chunk us)) (bytes (cur st))\<rparr>)"
    by (intro poke_mid) auto
  then show ?thesis
    using assms \<open>copy_from_user us ?chunk = (take ?chunk us, 0)\<close> \<open>fill (cur st) < fragsize st\<close>
      \<open>length (take ?chunk us) = ?chunk\<close>
    by (simp add: copy_chunk_def Let_def upd_cur_def upd_buf_def filled_def stream_at_def)
qed

text \<open>A chunk that leaves room: the buffer stays current and is given up.\<close>

lemma part_filled:
  assumes "stream_at bs n True st" "fill (cur st) + length xs < fragsize st"
  defines "st' \<equiv> up (buf_idx st) (st\<lparr>buffers := Some (bs[buf_idx st := filled xs (cur st)])\<rparr>)"
  shows "stream_inv False st' \<and> accepted st' = accepted st @ xs"
proof -
  let ?i = "buf_idx st"
  have cur: "cur st = bs ! ?i" "?i < length bs" "sem (bs ! ?i) = 0" "buffers st = Some bs"
    using assms(1) by (simp_all add: stream_at_def cur_def)
  have st': "st' = st\<lparr>buffers := Some (bs[?i := (filled xs (cur st))\<lparr>sem := 1\<rparr>])\<rparr>"
    using cur by (simp add: st'_def up_def upd_buf_def filled_def)
  have "?i \<notin> set (before (nbfrags st) ?i n)"
    using assms(1) before_own [of ?i "nbfrags st" n] by (auto simp: stream_at_def)
  then have "stream_at (bs[?i := (filled xs (cur st))\<lparr>sem := 1\<rparr>]) n False st'"
    using assms(1,2) cur(1) by (auto simp: stream_at_def st' nth_list_update filled_def)
  moreover have "fill (bs ! ?i) \<le> length (bytes (bs ! ?i))"
    using assms(1) by (auto simp: stream_at_def intro: less_imp_le)
  then have "accepted st' = accepted st @ xs"
    using cur by (simp add: accepted_def st' cur_def filled_def)
  ultimately show ?thesis by (auto simp: stream_inv_def)
qed

text \<open>A chunk that fills the buffer: it is sent, and the next one is current.\<close>

lemma fully_filled:
  assumes "stream_at bs n True st" "fill (cur st) + length xs \<le> fragsize st"
  defines "t \<equiv> st\<lparr>buffers := Some (bs[buf_idx st := filled xs (cur st)])\<rparr>"
  defines "st' \<equiv> NEXT_BUF (upd_cur (\<lambda>b. b\<lparr>fill := 0\<rparr>) (dma_enqueue (buf_idx t) (fill (cur t)) t))"
  shows "stream_inv False st' \<and> accepted st' = accepted st @ xs \<and> concat (sent st') = accepted st'"
proof -
  let ?i = "buf_idx st" and ?N = "nbfrags st"
  let ?j = "(?i + 1) mod ?N"
  have cur: "cur st = bs ! ?i" "?i < length bs" "buffers st = Some bs" "n < ?N" "?i < ?N" "?N = length bs"
      "pending st = before ?N ?i n" "fill (bs ! ?i) \<le> length (bytes (bs ! ?i))"
      "length (bytes (bs ! ?i)) = fragsize st"
    using assms(1) by (auto simp: stream_at_def cur_def intro: less_imp_le)
  let ?b = "(filled xs (bs ! ?i))\<lparr>fill := 0\<rparr>"
  have bytes: "take (fill (bs ! ?i) + length xs) (bytes (filled xs (bs ! ?i))) = take (fill (bs ! ?i)) (bytes (bs ! ?i)) @ xs"
    using assms(2) cur by (simp add: filled_def)
  have p: "pending st @ [?i] = before ?N ?j (Suc n)"
    using before_push [OF cur(5,4)] cur(7) by simp
  have st': "st' = st\<lparr>buffers := Some (bs[?i := ?b]), pending := before ?N ?j (Suc n),
      sent := sent st @ [take (fill (bs ! ?i)) (bytes (bs ! ?i)) @ xs], buf_idx := ?j\<rparr>"
    using cur bytes assms(2) p
    by (simp add: st'_def t_def NEXT_BUF_def upd_cur_def upd_buf_def dma_enqueue_def cur_def filled_def)
  have "set (before ?N ?j (Suc n)) = insert ?i (set (before ?N ?i n))"
    using before_push [OF cur(5,4)] by simp
  moreover have j: "Suc ?i mod length bs < length bs" by (rule mod_less_divisor) (use cur(5,6) in linarith)
  ultimately have "stream_at (bs[?i := ?b]) (Suc n) False st'"
    using assms(1,2) cur by (auto simp: stream_at_def st' nth_list_update filled_def)
  moreover have "accepted st' = accepted st @ xs \<and> concat (sent st') = accepted st'"
  proof -
    have "fill (cur st') = 0"
    proof (cases "?j = ?i")
      case False
      moreover have "?j < ?N" using j cur(6) by simp
      ultimately have "fill (bs ! ?j) = 0" using assms(1) by (auto simp: stream_at_def)
      with False show ?thesis by (simp add: st' cur_def)
    qed (use cur in \<open>simp add: st' cur_def\<close>)
    then show ?thesis using cur by (simp add: accepted_def st' cur_def)
  qed
  ultimately show ?thesis by (auto simp: stream_inv_def)
qed

text \<open>What a turn does, in one relation.\<close>

definition turn_ok :: "u8 list \<Rightarrow> nat \<Rightarrow> astream \<Rightarrow> io \<times> nat \<times> happening list \<times> astream \<Rightarrow> bool" where
  "turn_ok us count st r \<longleftrightarrow> (case r of (io, chunk, env', st') \<Rightarrow> (case io of
       Wait \<Rightarrow> True
     | Return _ \<Rightarrow> False
     | Break rc \<Rightarrow> rc < 0 \<and> chunk \<le> count \<and> stream_inv False st' \<and> accepted st' = accepted st @ take chunk us
     | Continue c \<Rightarrow> c = chunk \<and> 0 < chunk \<and> chunk \<le> count \<and> stream_inv False st'
                     \<and> accepted st' = accepted st @ take chunk us))"

lemma turn_ok_cong: "same_data st t \<Longrightarrow> turn_ok us count t r = turn_ok us count st r"
  by (cases r; cases "fst r") (simp_all add: turn_ok_def same_data_def)

lemma after_down:
  assumes "stream_inv True st" "0 < count" "count \<le> length us" "\<And>n. enq q n = 0"
  shows "\<exists>r. Option.bind (copy_chunk q 2 us count st) (\<lambda>(rc, chunk, st).
            if rc \<noteq> 0 then Some (Return rc, 0, env, up (buf_idx st) st)
            else if fill (cur st) < fragsize st
            then Some (Break (if nonblock q then - EAGAIN else - ERESTARTSYS), chunk, env, up (buf_idx st) st)
            else let rc = enq q (length (sent st))
                 in if rc \<noteq> 0 then Some (Return rc, 0, env, st)
                    else let st = dma_enqueue (buf_idx st) (fill (cur st)) st;
                             st = upd_cur (\<lambda>b. b\<lparr>fill := 0\<rparr>) st
                         in Some (Continue chunk, chunk, env, NEXT_BUF st)) = Some r
    \<and> turn_ok us count st r \<and> fst (snd (snd r)) = env \<and> (case r of (Break _, c, _) \<Rightarrow> c = count | _ \<Rightarrow> True)
    \<and> fst r \<noteq> Wait"
proof -
  obtain bs n where at: "stream_at bs n True st" using assms(1) by (auto simp: stream_inv_def)
  define xs where "xs = take (min (fragsize st - fill (cur st)) count) us"
  let ?t = "st\<lparr>buffers := Some (bs[buf_idx st := filled xs (cur st)])\<rparr>"
  have cur: "cur st = bs ! buf_idx st" "buf_idx st < length bs" "fill (cur st) < fragsize st"
    using at by (auto simp: stream_at_def cur_def)
  have xs: "length xs = min (fragsize st - fill (cur st)) count" using assms(3) by (simp add: xs_def)
  have copy: "copy_chunk q 2 us count st = Some (0, length xs, ?t)"
    using copy_chunk_stereo [OF at assms(3)] by (simp add: xs_def Let_def)
  have fill: "fill (cur ?t) = fill (cur st) + length xs" using cur by (simp add: cur_def filled_def)
  have us: "take (length xs) us = xs" by (subst xs) (simp add: xs_def)
  show ?thesis
  proof (cases "fill (cur st) + length xs < fragsize st")
    case True
    then have "length xs = count" using xs by simp
    with True copy fill part_filled [OF at True] us show ?thesis
      by (simp add: turn_ok_def)
  next
    case False
    then have full: "fill (cur st) + length xs = fragsize st" using xs cur(3) by simp
    then have "0 < length xs" using cur(3) by linarith
    moreover have "length xs \<le> count" using xs by simp
    ultimately show ?thesis
      using False copy fill fully_filled [OF at eq_refl [OF full]] us assms(4) by (simp add: turn_ok_def Let_def)
  qed
qed

lemma write_turn_ok:
  assumes "stream_inv False st" "0 < count" "count \<le> length us" "\<And>n. enq q n = 0"
  shows "\<exists>r. write_turn q 2 env us count st = Some r \<and> turn_ok us count st r
    \<and> (\<not> nonblock q \<and> env \<noteq> [] \<and> None \<notin> set env \<longrightarrow>
         fst r \<noteq> Wait \<and> fst (snd (snd r)) \<in> {env, tl env} \<and> (case r of (Break _, c, _) \<Rightarrow> c = count | _ \<Rightarrow> True))"
proof (cases "nonblock q")
  case True
  show ?thesis
  proof (cases "sem (cur st) > 0")
    case True
    let ?t = "upd_buf (buf_idx st) (\<lambda>b. b\<lparr>sem := sem b - 1\<rparr>) st"
    have t: "stream_inv True ?t" "same_data st ?t" using hold_cur [OF assms(1) True] by auto
    obtain r where "turn_ok us count ?t r" "write_turn q 2 env us count st = Some r"
      using after_down [OF t(1) assms(2-4), of env] True \<open>nonblock q\<close>
      by (auto simp: write_turn_def down_trylock_def cur_def)
    moreover have "turn_ok us count ?t r = turn_ok us count st r"
      using t(2) by (rule turn_ok_cong)
    ultimately show ?thesis using \<open>nonblock q\<close> by auto
  next
    case False
    then show ?thesis
      using \<open>nonblock q\<close> assms(1) by (simp add: write_turn_def down_trylock_def cur_def turn_ok_def)
  qed
next
  case False
  show ?thesis
  proof (cases "down_interruptible audio_dmaout_done_callback (buf_idx st) env st")
    case (Got p)
    obtain t env' where p: "p = (t, env')" by (cases p)
    have t: "stream_inv True t" "same_data st t" "env' \<in> {env, tl env}"
      using down_takes [OF assms(1) Got [unfolded p]] by auto
    obtain r where r: "turn_ok us count t r" "write_turn q 2 env us count st = Some r" "fst r \<noteq> Wait"
        "fst (snd (snd r)) = env'" "case r of (Break _, c, _) \<Rightarrow> c = count | _ \<Rightarrow> True"
      using after_down [OF t(1) assms(2-4), of env'] False Got p
      by (auto simp: write_turn_def simp del: down_interruptible.simps)
    moreover have "turn_ok us count t r = turn_ok us count st r"
      using t(2) by (rule turn_ok_cong)
    ultimately show ?thesis using t(3) by auto
  next
    case (Not_got p)
    obtain t env' where p: "p = (t, env')" by (cases p)
    have "t = st" using down_gives_up [OF assms(1) Not_got [unfolded p]] .
    then show ?thesis
      using Not_got p False assms(1) down_waits [OF assms(1), of env]
      by (auto simp: write_turn_def turn_ok_def simp del: down_interruptible.simps)
  next
    case Asleep
    then show ?thesis
      using False down_waits [OF assms(1), of env]
      by (auto simp: write_turn_def turn_ok_def simp del: down_interruptible.simps)
  qed
qed

lemma write_loop_ok:
  assumes "\<And>n. enq q n = 0"
  shows "stream_inv False st \<Longrightarrow> count \<le> length us \<Longrightarrow> ret \<le> 0 \<Longrightarrow>
    \<exists>r. write_loop q 2 env us count took ret st = Some r
      \<and> (\<forall>n st'. r = Ret (n, st') \<longrightarrow> stream_inv False st' \<and> n \<le> int (took + count)
           \<and> accepted st' = accepted st @ take (nat n - took) us \<and> (took = 0 \<or> int took \<le> n))
      \<and> (\<not> nonblock q \<and> count \<le> length env \<and> None \<notin> set env \<longrightarrow>
           (\<exists>st'. r = Ret (if took + count \<noteq> 0 then int (took + count) else ret, st')))"
proof (induction count arbitrary: st env us took ret rule: less_induct)
  case (less count)
  show ?case
  proof (cases "count = 0")
    case True
    with less.prems show ?thesis by (subst write_loop.simps) auto
  next
    case False
    obtain io chunk env' st' where t: "write_turn q 2 env us count st = Some (io, chunk, env', st')"
        "turn_ok us count st (io, chunk, env', st')"
        "\<not> nonblock q \<and> env \<noteq> [] \<and> None \<notin> set env \<longrightarrow> io \<noteq> Wait \<and> env' \<in> {env, tl env}
           \<and> (case io of Break _ \<Rightarrow> chunk = count | _ \<Rightarrow> True)"
      using write_turn_ok [OF less.prems(1) _ less.prems(2) assms, of env] False by fastforce
    show ?thesis
    proof (cases io)
      case Wait
      then show ?thesis
        using t False by (subst write_loop.simps) auto
    next
      case (Return rc)
      then show ?thesis using t(2) by (simp add: turn_ok_def)
    next
      case (Break rc)
      then show ?thesis
        using t False less.prems(3) by (subst write_loop.simps) (auto simp: turn_ok_def nat_int_add)
    next
      case (Continue c)
      then have c: "c = chunk" "0 < chunk" "chunk \<le> count" "stream_inv False st'"
          "accepted st' = accepted st @ take chunk us"
        using t(2) by (auto simp: turn_ok_def)
      have step: "write_loop q 2 env us count took ret st
          = write_loop q 2 env' (drop chunk us) (count - chunk) (took + chunk) 0 st'"
        using t(1) False Continue c(1) by (subst write_loop.simps) simp
      obtain r where r: "write_loop q 2 env' (drop chunk us) (count - chunk) (took + chunk) 0 st' = Some r"
          "\<And>n st''. r = Ret (n, st'') \<Longrightarrow> stream_inv False st'' \<and> n \<le> int (took + chunk + (count - chunk))
             \<and> accepted st'' = accepted st' @ take (nat n - (took + chunk)) (drop chunk us) \<and> (took + chunk = 0 \<or> int (took + chunk) \<le> n)"
          "\<not> nonblock q \<and> count - chunk \<le> length env' \<and> None \<notin> set env' \<Longrightarrow>
             \<exists>st''. r = Ret (if took + chunk + (count - chunk) \<noteq> 0 then int (took + chunk + (count - chunk)) else 0, st'')"
        using less.IH [of "count - chunk" st' "drop chunk us" 0 env' "took + chunk"] c less.prems(2) by fastforce
      have first: "accepted st'' = accepted st @ take (nat n - took) us"
        if "r = Ret (n, st'')" for n st''
      proof -
        have "nat n - took = chunk + (nat n - (took + chunk))" using r(2) [OF that] c(2) by linarith
        then show ?thesis using r(2) [OF that] c(5) by (simp add: take_add)
      qed
      have live: "\<exists>st''. r = Ret (int (took + count), st'')"
        if "\<not> nonblock q" "count \<le> length env" "None \<notin> set env"
      proof -
        have "env \<noteq> []" using that(2) False by auto
        with t(3) that Continue have "env' \<in> {env, tl env}" by auto
        then have "count - chunk \<le> length env'" "None \<notin> set env'"
          using that c(2,3) by (cases env; auto)+
        then show ?thesis using r(3) that(1) c(2,3) by auto
      qed
      show ?thesis
        using step r first live c False by fastforce
    qed
  qed
qed

subsection \<open>Waiting for the last transfer\<close>

lemma take_and_give:
  assumes "stream_at bs n False st" "i < nbfrags st" "sem (bs ! i) = 1"
  shows "up i (upd_buf i (\<lambda>b. b\<lparr>sem := sem b - 1\<rparr>) st) = st"
proof -
  have "(bs ! i)\<lparr>sem := 1\<rparr> = bs ! i" using assms(3) by (cases "bs ! i") simp
  then have "st\<lparr>buffers := Some (bs[i := (bs ! i)\<lparr>sem := 1\<rparr>])\<rparr> = st"
    using assms(1) by (simp add: stream_at_def)
  moreover have "buffers st = Some bs" "i < length bs" using assms(1,2) by (simp_all add: stream_at_def)
  ultimately show ?thesis using assms(3) by (simp add: up_def upd_buf_def)
qed

lemma wait_last:
  assumes "stream_at bs n False st"
    and "down_interruptible audio_dmaout_done_callback ((buf_idx st + nbfrags st - 1) mod nbfrags st) env st = Got (st', env')"
  shows "stream_inv False (up ((buf_idx st + nbfrags st - 1) mod nbfrags st) st')
    \<and> pending (up ((buf_idx st + nbfrags st - 1) mod nbfrags st) st') = []
    \<and> same_data st (up ((buf_idx st + nbfrags st - 1) mod nbfrags st) st')"
  using assms
proof (induction n arbitrary: bs st env)
  case 0
  let ?i = "(buf_idx st + nbfrags st - 1) mod nbfrags st"
  have "0 < nbfrags st" using 0(1) by (auto simp: stream_at_def)
  then have i: "?i < nbfrags st" by simp
  then have "sem (bs ! ?i) = 1" "the (buffers st) = bs" using 0(1) by (auto simp: stream_at_def)
  with 0 i take_and_give [OF 0(1) i] have "up ?i st' = st" by auto
  then show ?case using 0(1) by (auto simp: stream_inv_def stream_at_def same_data_def)
next
  case (Suc n)
  let ?i = "(buf_idx st + nbfrags st - 1) mod nbfrags st"
  have n: "n < nbfrags st" using Suc.prems(1) by (simp add: stream_at_def)
  then have "?i < nbfrags st" by simp
  then have "sem (bs ! ?i) = 0" "the (buffers st) = bs"
    using Suc.prems(1) before_last [OF n, of "buf_idx st"] by (auto simp: stream_at_def)
  then obtain d env1 where env: "env = Some d # env1"
      "down_interruptible audio_dmaout_done_callback ?i env1 (audio_dmaout_done_callback d st) = Got (st', env')"
    using Suc.prems(2) by (auto split: list.split_asm option.split_asm)
  let ?t = "audio_dmaout_done_callback d st"
  obtain bs' where t: "stream_at bs' n False ?t" "same_data st ?t"
    using complete_first [OF Suc.prems(1)] by blast
  have same: "buf_idx ?t = buf_idx st" "nbfrags ?t = nbfrags st"
    using t(2) by (simp_all add: same_data_def audio_dmaout_done_callback_def up_def upd_buf_def split: list.split)
  show ?case
    using Suc.IH [OF t(1), of env1] env(2) same_data_trans [OF t(2)] by (simp only: same)
qed

lemma down_uninterrupted:
  assumes "down audio_dmaout_done_callback (buf_idx st) env st = Got (st', env')" "stream_inv False st"
  shows "stream_inv True st' \<and> same_data st st'"
  using assms
proof (induction env arbitrary: st env')
  case Nil
  then show ?case using hold_cur [of st] by (auto simp: cur_def split: if_split_asm)
next
  case (Cons h env)
  show ?case
  proof (cases "sem (cur st) > 0")
    case True
    then show ?thesis using Cons.prems hold_cur [of st] by (auto simp: cur_def)
  next
    case False
    show ?thesis
    proof (cases h)
      case None
      then obtain env1 where "down audio_dmaout_done_callback (buf_idx st) env st = Got (st', env1)"
        using Cons.prems(1) False by (auto simp: cur_def split: wait.split_asm)
      then show ?thesis using Cons.IH Cons.prems(2) by blast
    next
      case (Some d)
      let ?t = "audio_dmaout_done_callback d st"
      have t: "stream_inv False ?t" "same_data st ?t"
        using complete_cur [OF Cons.prems(2)] False by auto
      have "down audio_dmaout_done_callback (buf_idx ?t) env ?t = Got (st', env')"
        using Cons.prems(1) False Some t(2) by (simp add: cur_def same_data_def)
      then show ?thesis using Cons.IH t same_data_trans by blast
    qed
  qed
qed

text \<open>The rest of the current fragment is sent as it is.\<close>

lemma flush_cur:
  assumes "stream_inv True st"
  defines "st' \<equiv> NEXT_BUF (upd_cur (\<lambda>b. b\<lparr>fill := 0\<rparr>) (dma_enqueue (buf_idx st) (fill (cur st)) st))"
  shows "stream_inv False st' \<and> accepted st' = accepted st \<and> concat (sent st') = accepted st"
proof -
  obtain bs n where at: "stream_at bs n True st" using assms(1) by (auto simp: stream_inv_def)
  then have "filled [] (cur st) = cur st" by (simp add: filled_def)
  moreover have "bs[buf_idx st := cur st] = bs" using at by (simp add: stream_at_def cur_def)
  ultimately have "st\<lparr>buffers := Some (bs[buf_idx st := filled [] (cur st)])\<rparr> = st"
    using at by (simp add: stream_at_def)
  moreover have "fill (cur st) + length ([] :: u8 list) \<le> fragsize st"
    using at by (auto simp: stream_at_def cur_def)
  ultimately show ?thesis
    using fully_filled [OF at, of "[]"] by (simp add: st'_def)
qed

end
