(* ===== verification/SoundFile.thy ===== *)
theory SoundFile
  imports SoundPlay
begin

text \<open>
  What the sound device promises to programs: bytes written come out in order and none twice, a sync
  waits until the channel has nothing left, a fragment request leaves a usable ring, and the
  memory of the fragments is given back.
\<close>

subsection \<open>Setting up a ring\<close>

lemma setup_frags_new:
  "setup_frags nm can fs n blk avail off = (True, bs, cs) \<Longrightarrow>
    length bs = n \<and> (\<forall>b\<in>set bs. fill b = 0 \<and> length (bytes b) = fs \<and> sem b = 1)"
proof (induction nm can fs n blk avail off arbitrary: bs cs rule: setup_frags.induct)
  case (2 nm can fs n blk avail off)
  then show ?case by (fastforce simp: Let_def split: if_split_asm prod.split_asm)
qed simp

lemma setup_ready:
  assumes "audio_setup_buf nm kmalloc_ok can nb fs st = (rc, st', cs)" "buffers st = None" "pending st = []"
    and "0 < nb" "0 < fs"
  shows "accepted st' = accepted st \<and>
    (if rc = 0 then stream_inv False st' \<and> fragsize st' = fs \<and> nbfrags st' = nb
     else rc = - ENOMEM \<and> buffers st' = None \<and> pending st' = [])"
proof -
  obtain ok bs ds where frags: "setup_frags nm can fs nb 0 0 0 = (ok, bs, ds)" by (cases "setup_frags nm can fs nb 0 0 0")
  show ?thesis
  proof (cases "kmalloc_ok \<and> ok")
    case True
    then have new: "length bs = nb" "\<forall>b\<in>set bs. fill b = 0 \<and> length (bytes b) = fs \<and> sem b = 1"
      using setup_frags_new frags by auto
    have st': "rc = 0" "st' = st\<lparr>nbfrags := nb, fragsize := fs, buffers := Some bs, buf_idx := 0\<rparr>"
      using assms(1,2) True frags by (auto simp: audio_setup_buf_def)
    have "stream_at bs 0 False st'"
      using assms(3-5) new by (auto simp: stream_at_def st'(2))
    moreover have "accepted st' = accepted st"
      using assms(2,4) new by (simp add: accepted_def st'(2) cur_def)
    ultimately show ?thesis using st' by (auto simp: stream_inv_def)
  next
    case False
    then show ?thesis
      using assms(1-3) frags
      by (auto simp: audio_setup_buf_def audio_clear_buf_def accepted_def Let_def split: if_split_asm)
  qed
qed

text \<open>The output stream can be written: it has no fragments yet, or its ring is in order.\<close>

definition play_ready :: "snd \<Rightarrow> bool" where
  "play_ready s \<longleftrightarrow> 0 < audio_nbfrags s \<and> 0 < audio_fragsize s \<and>
     (if buffers (output_stream s) = None then pending (output_stream s) = [] else stream_inv False (output_stream s))"

lemma stream_inv_buffers: "stream_inv own st \<Longrightarrow> buffers st \<noteq> None"
  by (auto simp: stream_inv_def stream_at_def)

subsection \<open>Properties\<close>


text \<open>A fresh device with two fragments of 16 bytes.\<close>

definition sound_start :: snd where
  "sound_start = \<lparr>kt = [], uda1341_volume = 0, uda1341_boost = 0, mixer_igain = 4, audio_mix_modcnt = 0,
     output_stream = zero_stream\<lparr>dma_ch := 10, dma_ok := True\<rparr>, input_stream = zero_stream\<lparr>dma_ch := 9, dma_ok := True\<rparr>,
     audio_rate = 44100, audio_channels = 2, audio_fmt = 16, audio_fragsize = 16, audio_nbfrags = 2,
     audio_rd_refcount = 0, audio_wr_refcount = 1\<rparr>"

lemma sound_start_ready: "play_ready sound_start"
  by (simp add: play_ready_def sound_start_def zero_stream_def)


text \<open>The first half of a sync sends the rest of the current fragment, the second waits.\<close>

definition send_rest :: "happening list \<Rightarrow> astream \<Rightarrow> (astream \<times> happening list) wait" where
  "send_rest env st =
     (if fill (cur st) \<noteq> 0
      then (case down audio_dmaout_done_callback (buf_idx st) env st of
              Got (st, env) \<Rightarrow>
                Got (NEXT_BUF (upd_cur (\<lambda>b. b\<lparr>fill := 0\<rparr>) (dma_enqueue (buf_idx st) (fill (cur st)) st)), env)
            | w \<Rightarrow> w)
      else Got (st, env))"

lemma send_rest_ok:
  assumes "stream_inv False st" "send_rest env st = Got (t, env')"
  shows "stream_inv False t \<and> accepted t = accepted st \<and> concat (sent t) = accepted st"
proof (cases "fill (cur st) \<noteq> 0")
  case True
  then obtain u env1 where u: "down audio_dmaout_done_callback (buf_idx st) env st = Got (u, env1)"
      "t = NEXT_BUF (upd_cur (\<lambda>b. b\<lparr>fill := 0\<rparr>) (dma_enqueue (buf_idx u) (fill (cur u)) u))"
    using assms(2) by (auto simp: send_rest_def simp del: down.simps split: wait.split_asm)
  then have "stream_inv True u" "same_data st u" using down_uninterrupted assms(1) by auto
  then show ?thesis using flush_cur [of u] by (simp add: u(2) same_data_def)
next
  case False
  with assms stream_inv_buffers [OF assms(1)] show ?thesis by (auto simp: send_rest_def accepted_def)
qed

lemma sync_stream:
  assumes "stream_inv False st" "audio_sync env st = Ret (0, env', st')"
  shows "stream_inv False st' \<and> pending st' = [] \<and> concat (sent st') = accepted st \<and> accepted st' = accepted st"
proof -
  obtain t env1 where t: "send_rest env st = Got (t, env1)"
    using assms stream_inv_buffers [OF assms(1)] unfolding audio_sync_def send_rest_def [symmetric]
    by (auto split: wait.split_asm)
  let ?i = "(buf_idx t + nbfrags t - 1) mod nbfrags t"
  obtain u env2 where u: "down_interruptible audio_dmaout_done_callback ?i env1 t = Got (u, env2)" "st' = up ?i u"
    using assms(2) t stream_inv_buffers [OF assms(1)] unfolding audio_sync_def send_rest_def [symmetric]
    by (auto simp: Let_def add.commute simp del: down_interruptible.simps split: wait.split_asm)
  have ok: "stream_inv False t" "accepted t = accepted st" "concat (sent t) = accepted st"
    using send_rest_ok [OF assms(1) t] by auto
  then obtain bs n where "stream_at bs n False t" by (auto simp: stream_inv_def)
  from wait_last [OF this u(1)] show ?thesis using ok by (simp add: u(2) same_data_def)
qed


text \<open>Five bytes were written to a fragment of 16; the sync sends them.\<close>

definition sound_five :: snd where
  "sound_five = sound_start\<lparr>output_stream := \<lparr>
     buffers = Some [\<lparr>fill = 5, bytes = replicate 16 7, sem = 1, master = 32, place = (0, 0)\<rparr>,
                     \<lparr>fill = 0, bytes = replicate 16 0, sem = 1, master = 0, place = (0, 16)\<rparr>],
     buf_idx = 0, fragsize = 16, nbfrags = 2, dma_ch = 10, dma_ok = True, pending = [], sent = []\<rparr>\<rparr>"

lemma sound_five_ready: "play_ready sound_five"
proof -
  have "stream_at (the (buffers (output_stream sound_five))) 0 False (output_stream sound_five)"
    by (auto simp: stream_at_def sound_five_def less_Suc_eq_0_disj numeral_2_eq_2)
  then have "stream_inv False (output_stream sound_five)" unfolding stream_inv_def by blast
  then show ?thesis by (simp add: play_ready_def sound_five_def sound_start_def)
qed


subsection \<open>Fragment requests\<close>

lemma fragment_size:
  "\<exists>k. 4 \<le> k \<and> k \<le> 14 \<and>
    (let fs = (2 :: nat) ^ sh; fs = (if fs < 16 then 16 else fs) in if fs > 16384 then 16384 else fs) = 2 ^ k"
proof -
  consider "sh < 4" | "4 \<le> sh" "sh \<le> 14" | "14 < sh" by linarith
  then show ?thesis
  proof cases
    case 1
    then have "(2 :: nat) ^ sh < 2 ^ 4" by (intro power_strict_increasing) auto
    then show ?thesis by (intro exI [of _ 4]) simp
  next
    case 2
    then have "(2 :: nat) ^ 4 \<le> 2 ^ sh" "(2 :: nat) ^ sh \<le> 2 ^ 14"
      using power_increasing [of 4 sh "2 :: nat"] power_increasing [of sh 14 "2 :: nat"] by simp_all
    then show ?thesis using 2 by (intro exI [of _ sh]) auto
  next
    case 3
    then have "(2 :: nat) ^ 14 < 2 ^ sh" by (intro power_strict_increasing) auto
    then show ?thesis by (intro exI [of _ 14]) simp
  qed
qed

lemma fragment_bounds:
  assumes "fragment_request v = Some (fs, nb)"
  shows "(\<exists>k. 4 \<le> k \<and> k \<le> 14 \<and> fs = 2 ^ k) \<and> 2 \<le> nb \<and> nb * fs \<le> 128 * 1024"
proof -
  have k: "\<exists>k. 4 \<le> k \<and> k \<le> 14 \<and> fs = 2 ^ k"
    using assms fragment_size [of "unat (v AND 0xFFFF)"]
    by (auto simp only: fragment_request_def Let_def split: if_split_asm)
  then have "fs \<le> 2 ^ 14" "0 < fs" using power_increasing [of _ 14 "2 :: nat"] by auto
  then have "2 \<le> 128 * 1024 div fs" by (simp add: less_eq_div_iff_mult_less_eq)
  then have "2 \<le> nb \<and> nb * fs \<le> 128 * 1024"
    using assms by (auto simp only: fragment_request_def Let_def div_times_less_eq_dividend split: if_split_asm)
  with k show ?thesis by blast
qed



text \<open>
  A mono write from valid memory fails with EFAULT: the driver takes what \<^verbatim>\<open>access_ok\<close> says the wrong
  way round. Nothing is accepted.
\<close>

theorem mono_write_fails:
  assumes "stream_inv False (output_stream s)" "sem (cur (output_stream s)) = 1" "audio_channels s = 1"
    and "valid q" "4 \<le> count"
  shows "smdk2410_audio_write q True kmalloc_ok can env us count s = Some (Ret (- EFAULT, s))"
proof -
  let ?st = "output_stream s"
  obtain bs n where at: "stream_at bs n False ?st" using assms(1) by (auto simp: stream_inv_def)
  then have st: "the (buffers ?st) = bs" "buffers ?st = Some bs" "buf_idx ?st < nbfrags ?st"
    by (simp_all add: stream_at_def)
  let ?t = "upd_buf (buf_idx ?st) (\<lambda>b. b\<lparr>sem := sem b - 1\<rparr>) ?st"
  have t: "up (buf_idx ?st) ?t = ?st" using take_and_give [OF at st(3)] assms(2) st(1) by (simp add: cur_def)
  have "\<not> fill (cur ?t) > fragsize ?t" "buf_idx ?t = buf_idx ?st"
    using at by (auto simp: stream_at_def cur_def upd_buf_def)
  then have "copy_chunk q 1 us (count - count mod 4) ?t = Some (- EFAULT, 0, ?t)"
    using assms(4) by (simp add: copy_chunk_def copy_from_user_mono_stereo_def)
  then have "write_turn q 1 env us (count - count mod 4) ?st = Some (Return (- EFAULT), 0, env, ?st)"
    using assms(2) t \<open>buf_idx ?t = buf_idx ?st\<close> by (simp add: write_turn_def down_trylock_def cur_def)
  moreover have "count - count mod 4 \<noteq> 0" using assms(5) by (metis diff_is_0_eq mod_less_divisor not_le order_less_le_trans zero_less_numeral)
  ultimately have "write_loop q 1 env us (count - count mod 4) 0 0 ?st = Some (Ret (- EFAULT, ?st))"
    by (subst write_loop.simps) simp
  then show ?thesis using st(2) assms(3) by (simp add: smdk2410_audio_write_def)
qed

theorem mono_write_fails_witness:
  "smdk2410_audio_write \<lparr>nonblock = False, valid = True, odd_addr = False, enq = (\<lambda>_. 0)\<rparr> True True (\<lambda>_ _. True)
     [] [1, 2, 3, 4] 4 (sound_five\<lparr>audio_channels := 1\<rparr>) = Some (Ret (- EFAULT, sound_five\<lparr>audio_channels := 1\<rparr>))"
proof -
  have "stream_inv False (output_stream (sound_five\<lparr>audio_channels := 1\<rparr>))"
    using sound_five_ready by (simp add: play_ready_def sound_five_def)
  then show ?thesis
    by (rule mono_write_fails) (simp_all add: sound_five_def cur_def)
qed

subsection \<open>The memory of the fragments\<close>

lemma setup_frags_blocks:
  "setup_frags nm can fs n blk avail off = (ok, bs, cs) \<Longrightarrow> 0 < fs \<Longrightarrow>
    length bs \<le> n \<and> cs = map (\<lambda>b. Acquire (Dma_mem nm (fst (place b))) (master b)) (filter (\<lambda>b. master b \<noteq> 0) bs)"
proof (induction nm can fs n blk avail off arbitrary: ok bs cs rule: setup_frags.induct)
  case (2 nm can fs n blk avail off)
  then show ?case by (fastforce simp: Let_def split: if_split_asm prod.split_asm)
qed simp

lemma held_acquires [simp]: "held_from h (map (\<lambda>b. Acquire (r b) (f b)) bs) = h @ map r bs"
  by (induction bs arbitrary: h) simp_all

lemma held_releases:
  "k \<notin> r ` set bs \<Longrightarrow> held_from (k # map r bs) (map (\<lambda>b. Release (r b)) bs) = [k]"
  by (induction bs) auto

lemma clear_buf_calls:
  "buffers st = Some bs \<Longrightarrow>
    held_from (Memory nm # map (\<lambda>b. Dma_mem nm (fst (place b))) (filter (\<lambda>b. master b \<noteq> 0) bs)) (snd (audio_clear_buf nm st)) = []"
  by (simp add: audio_clear_buf_def Let_def held_releases image_iff)

text \<open>Load is the setup of a stream, unload its clearing; a fragment has at least one byte.\<close>

definition frag_load :: "string \<Rightarrow> bool \<times> (nat \<Rightarrow> nat \<Rightarrow> bool) \<times> nat \<times> nat \<Rightarrow> int \<times> astream \<times> kcall list" where
  "frag_load nm e = (case e of (kmalloc_ok, can, nb, fs) \<Rightarrow> audio_setup_buf nm kmalloc_ok can nb (Suc fs) zero_stream)"

lemma frag_load_held:
  assumes "frag_load nm e = (rc, st, cs)"
  shows "held cs = [] \<and> rc \<noteq> 0 \<or> rc = 0 \<and> held (cs @ snd (audio_clear_buf nm st)) = []"
proof -
  obtain kmalloc_ok can nb fs where e: "e = (kmalloc_ok, can, nb, fs)" by (metis prod_cases4)
  obtain ok bs ds where frags: "setup_frags nm can (Suc fs) nb 0 0 0 = (ok, bs, ds)"
    by (metis prod_cases3)
  let ?bs = "bs @ replicate (nb - length bs) zero_buf"
  have ds: "ds = map (\<lambda>b. Acquire (Dma_mem nm (fst (place b))) (master b)) (filter (\<lambda>b. master b \<noteq> 0) bs)"
    using setup_frags_blocks [OF frags] by simp
  have none: "filter (\<lambda>b. 0 < master b) (replicate k zero_buf) = []" for k
    by (simp add: zero_buf_def)
  show ?thesis
  proof (cases "kmalloc_ok")
    case False
    then show ?thesis
      using assms e by (auto simp: frag_load_def audio_setup_buf_def audio_clear_buf_def zero_stream_def)
  next
    case True
    note held = clear_buf_calls [of _ ?bs nm] clear_buf_calls [of _ bs nm]
    show ?thesis
      using assms True held
      by (cases ok) (auto simp: frag_load_def e audio_setup_buf_def frags ds none zero_stream_def split: prod.split_asm
          dest!: arg_cong [of "audio_clear_buf _ _" _ snd])
  qed
qed

interpretation play_life: lifecycle "\<lambda>e. case frag_load ''out'' e of (rc, st, cs) \<Rightarrow> (rc, cs)"
  "\<lambda>e. case frag_load ''out'' e of (rc, st, cs) \<Rightarrow> snd (audio_clear_buf ''out'' st)"
  by unfold_locales (auto split: prod.splits dest!: frag_load_held)

text \<open>
  C26. The memory of the fragments is given back: after any number of rounds of setting up a stream and
  clearing it, each with its own size and its own failures to get memory, the driver holds none.
\<close>

theorem fragments_given_back:
  "held (concat (map (\<lambda>e. case frag_load ''out'' e of (rc, st, cs) \<Rightarrow>
      if rc = 0 then cs @ snd (audio_clear_buf ''out'' st) else cs) es)) = []"
proof -
  have "play_life.session = (\<lambda>e. case frag_load ''out'' e of (rc, st, cs) \<Rightarrow>
      if rc = 0 then cs @ snd (audio_clear_buf ''out'' st) else cs)"
    by (auto simp: play_life.session_def split: prod.splits)
  with play_life.held_sessions show ?thesis by simp
qed

end
