(* ===== verification/SysHello.thy ===== *)
theory SysHello
  imports Kernel
begin

text \<open>
  The added system call sys_hello. In app_system_call it prints a string of the caller. In
  debug_with_system_call it is a breakpoint: in the program test_sc_sleep the instruction at 0x8504,
  \<^verbatim>\<open>add r3, r3, #2\<close>, is replaced by the system call, which looks at two variables, does the addition
  on the saved registers, and in the last version puts the instruction back the fifth time. The
  program is modelled as the listing test_sc_sleep.dis shows it, on the instructions its loop uses.
\<close>

subsection \<open>Printing a string of the caller\<close>

text \<open>
  \<^verbatim>\<open>stack\<close> is what was in \<^verbatim>\<open>ker_buf\<close>, \<^verbatim>\<open>user\<close> the readable bytes at \<^verbatim>\<open>buf\<close> (\<^verbatim>\<open>None\<close>: a null
  pointer). The result is the string printed. A negative \<^verbatim>\<open>count\<close> is a huge size: the copy overruns \<^verbatim>\<open>ker_buf\<close>.
\<close>

definition sys_hello :: "u8 list \<Rightarrow> u8 list option \<Rightarrow> int \<Rightarrow> u8 list option option" where
  "sys_hello stack buf count =
     (case buf of None \<Rightarrow> Some None
      | Some user \<Rightarrow>
          let n = (if count < 100 then count else 100)
          in if n < 0 then None
             else let ker_buf = fst (copy_from_user user (nat n)) @ drop (nat n) stack;
                      ker_buf = ker_buf[99 := 0]
                  in Some (Some (takeWhile (\<lambda>c. c \<noteq> 0) ker_buf)))"

text \<open>What is printed is at most 99 bytes; a string that ends within the count is printed as it is.\<close>

lemma sys_hello_short:
  assumes "length stack = 100" "sys_hello stack (Some user) count = Some (Some out)"
  shows "length out \<le> 99"
proof -
  obtain ker_buf where k: "out = takeWhile (\<lambda>c. c \<noteq> 0) (ker_buf[99 := 0])" "length ker_buf = 100"
    using assms by (auto simp: sys_hello_def Let_def split: if_split_asm)
  then have "ker_buf[99 := 0] = take 99 ker_buf @ [0]"
    using upd_conv_take_nth_drop [of 99 ker_buf 0] by simp
  then show ?thesis
    using k length_takeWhile_le [of "\<lambda>c. c \<noteq> 0" "take 99 ker_buf"] by (auto simp: takeWhile_append)
qed

lemma sys_hello_prints:
  assumes "length stack = 100" "0 \<notin> set str" "length str < 99" "int (length str) < count"
  shows "sys_hello stack (Some (str @ 0 # rest)) count = Some (Some str)"
proof -
  define n where "n = nat (if count < 100 then count else 100)"
  have n: "length str < n" using assms(3,4) by (auto simp: n_def)
  then have "fst (copy_from_user (str @ 0 # rest) n) = str @ fst (copy_from_user (0 # rest) (n - length str))"
    by (simp add: copy_from_user_def Let_def)
  moreover have "fst (copy_from_user (0 # rest) (n - length str)) = 0 # fst (copy_from_user rest (n - length str - 1))"
    using n by (cases "n - length str") (simp_all add: copy_from_user_def Let_def)
  ultimately have "fst (copy_from_user (str @ 0 # rest) n) = str @ 0 # fst (copy_from_user rest (n - length str - 1))"
    by simp
  then have "takeWhile (\<lambda>c. c \<noteq> 0) ((fst (copy_from_user (str @ 0 # rest) n) @ drop n stack)[99 := 0]) = str"
    using assms(2,3) by (auto simp: list_update_append takeWhile_tail nth_Cons' list_update.simps takeWhile_append
        split: nat.split)
  then show ?thesis using assms(4) by (simp add: sys_hello_def Let_def n_def)
qed

text \<open>A count that stops before the end of the string prints what was on the kernel's stack behind it.\<close>

lemma sys_hello_leaks:
  "sys_hello (replicate 4 83 @ replicate 96 0) (Some [104, 105, 0]) 2 = Some (Some [104, 105, 83, 83])"
  by code_simp

subsection \<open>The processor and the debugged program\<close>

text \<open>
  A process: registers (11 is fp, 14 lr, 15 the address of the instruction), words of memory,
  what it printed (the two numbers of its line), and of the kernel what \<^verbatim>\<open>sys_hello\<close> printed and its static
  counter.
\<close>

datatype hello_line = Hello_cnt int | Hello_i int | Hello_code u32 | Hello_lr u32 | Hello_vm int

record proc =
  reg :: "nat \<Rightarrow> u32"
  mem :: "u32 \<Rightarrow> u32 option"
  printed :: "(u32 \<times> u32) list"
  hello_log :: "hello_line list"
  hello_cnt :: nat

text \<open>\<^verbatim>\<open>copy_from_user\<close> of a word: zeros when the address is not mapped.\<close>

definition read_user :: "proc \<Rightarrow> u32 \<Rightarrow> u32" where
  "read_user p a = (case mem p a of None \<Rightarrow> 0 | Some v \<Rightarrow> v)"

definition hello_says :: "hello_line list \<Rightarrow> proc \<Rightarrow> proc" where
  "hello_says ls p = p\<lparr>hello_log := hello_log p @ ls\<rparr>"

text \<open>The version of debug_with_system_call/kernel, and the one with the counter.\<close>

definition sys_hello_peek :: "proc \<Rightarrow> proc" where
  "sys_hello_peek p =
     (let p = hello_says [Hello_cnt (sint (read_user p 0x000107c8))] p;
          p = p\<lparr>reg := (reg p)(3 := reg p 3 + 2)\<rparr>
      in hello_says [Hello_i (sint (read_user p (reg p 11 - 16)))] p)"

definition sys_hello_restore :: "proc \<Rightarrow> proc" where
  "sys_hello_restore p =
     (let p = sys_hello_peek p;
          p = p\<lparr>hello_cnt := hello_cnt p + 1\<rparr>
      in if hello_cnt p = 5
         then let p = hello_says [Hello_code (read_user p 0x8504), Hello_lr (reg p 14)] p;
                  ret = (if mem p 0x8504 = None then 0 else 4);
                  p = (if ret = 4 then p\<lparr>mem := (mem p)(0x8504 \<mapsto> 0xe2833002)\<rparr> else p)
              in (hello_says [Hello_vm ret] p)\<lparr>hello_cnt := 0\<rparr>
         else p)"

text \<open>The instructions of the loop, and their encoding.\<close>

datatype instr =
    Mov nat u32 | Add_imm nat nat u32 | Ldr nat nat u32 | Str nat nat u32
  | Bl u32 | Br u32 | Swi u32

definition field :: "nat \<Rightarrow> u32 \<Rightarrow> nat" where
  "field k w = unat (drop_bit k w AND 15)"

text \<open>Offsets of branches are words, sign extended from 24 bits and counted from 8 bytes on.\<close>

definition branch_offset :: "u32 \<Rightarrow> u32" where
  "branch_offset w = 8 + push_bit 2 (word_of_int (signed_take_bit 23 (uint w)))"

definition decode :: "u32 \<Rightarrow> instr option" where
  "decode w =
     (let op = drop_bit 20 w; imm = w AND 0xfff
      in if op = 0xe3a \<and> imm < 256 then Some (Mov (field 12 w) imm)
         else if op = 0xe28 \<and> imm < 256 then Some (Add_imm (field 12 w) (field 16 w) imm)
         else if op = 0xe59 then Some (Ldr (field 12 w) (field 16 w) imm)
         else if op = 0xe51 then Some (Ldr (field 12 w) (field 16 w) (- imm))
         else if op = 0xe58 then Some (Str (field 12 w) (field 16 w) imm)
         else if op = 0xe50 then Some (Str (field 12 w) (field 16 w) (- imm))
         else if drop_bit 24 w = 0xeb then Some (Bl (branch_offset w))
         else if drop_bit 24 w = 0xea then Some (Br (branch_offset w))
         else if drop_bit 24 w = 0xef then Some (Swi (w AND 0xffffff))
         else None)"

text \<open>
  One instruction; \<^verbatim>\<open>None\<close> is a fault. The functions of the C library leave in the scratch registers what
  \<^verbatim>\<open>clob\<close> says and change nothing the loop looks at; \<^verbatim>\<open>printf\<close> with the format at 0x8688 prints
  the two numbers. The system call 352 is \<^verbatim>\<open>hello\<close>.
\<close>

definition next_instr :: "proc \<Rightarrow> proc" where
  "next_instr p = p\<lparr>reg := (reg p)(15 := reg p 15 + 4)\<rparr>"

definition operand :: "proc \<Rightarrow> nat \<Rightarrow> u32" where
  "operand p r = (if r = 15 then reg p 15 + 8 else reg p r)"

definition clobber :: "(proc \<Rightarrow> nat \<Rightarrow> u32) \<Rightarrow> proc \<Rightarrow> proc" where
  "clobber clob p = p\<lparr>reg := (\<lambda>r. if r \<in> {0, 1, 2, 3, 12, 14} then clob p r else reg p r)\<rparr>"

fun exec :: "(proc \<Rightarrow> proc) \<Rightarrow> (proc \<Rightarrow> nat \<Rightarrow> u32) \<Rightarrow> instr \<Rightarrow> proc \<Rightarrow> proc option" where
  "exec hello clob (Mov d v) p = Some (next_instr (p\<lparr>reg := (reg p)(d := v)\<rparr>))"
| "exec hello clob (Add_imm d n v) p = Some (next_instr (p\<lparr>reg := (reg p)(d := operand p n + v)\<rparr>))"
| "exec hello clob (Ldr d n off) p =
     map_option (\<lambda>v. next_instr (p\<lparr>reg := (reg p)(d := v)\<rparr>)) (mem p (operand p n + off))"
| "exec hello clob (Str d n off) p =
     (let a = operand p n + off in if mem p a = None then None else Some (next_instr (p\<lparr>mem := (mem p)(a \<mapsto> reg p d)\<rparr>)))"
| "exec hello clob (Bl off) p =
     (let f = reg p 15 + off
      in if f = 0x83b4 \<and> reg p 0 = 0x8688
         then Some (next_instr (clobber clob (p\<lparr>printed := printed p @ [(reg p 1, reg p 2)]\<rparr>)))
         else if f = 0x83c0 then Some (next_instr (clobber clob p)) else None)"
| "exec hello clob (Br off) p = Some (p\<lparr>reg := (reg p)(15 := reg p 15 + off)\<rparr>)"
| "exec hello clob (Swi n) p =
     (if n = 0x900160 then (let p = hello p in Some (next_instr (p\<lparr>reg := (reg p)(0 := clob p 0)\<rparr>))) else None)"

definition step :: "(proc \<Rightarrow> proc) \<Rightarrow> (proc \<Rightarrow> nat \<Rightarrow> u32) \<Rightarrow> proc \<Rightarrow> proc option" where
  "step hello clob p = Option.bind (mem p (reg p 15)) (\<lambda>w. Option.bind (decode w) (\<lambda>i. exec hello clob i p))"

fun steps :: "(proc \<Rightarrow> proc) \<Rightarrow> (proc \<Rightarrow> nat \<Rightarrow> u32) \<Rightarrow> nat \<Rightarrow> proc \<Rightarrow> proc option" where
  "steps hello clob 0 p = Some p"
| "steps hello clob (Suc n) p = Option.bind (step hello clob p) (steps hello clob n)"

lemma steps_add: "steps hello clob (m + n) p = Option.bind (steps hello clob m p) (steps hello clob n)"
  by (induction m arbitrary: p) (auto split: bind_split)

text \<open>The loop of \<^verbatim>\<open>C\<close> in the listing; the word at 0x8504 is given apart.\<close>

definition loop_code :: "(u32 \<times> u32) list" where
  "loop_code =
     [(0x84d8, 0xe59f3038), (0x84dc, 0xe59f0038), (0x84e0, 0xe5931000), (0x84e4, 0xe51b2010),
      (0x84e8, 0xebffffb1), (0x84ec, 0xe59f2024), (0x84f0, 0xe59f3020), (0x84f4, 0xe5933000),
      (0x84f8, 0xe2833001), (0x84fc, 0xe5823000), (0x8500, 0xe51b3010),
      (0x8508, 0xe50b3010), (0x850c, 0xe3a00005), (0x8510, 0xebffffaa), (0x8514, 0xeaffffef),
      (0x8518, 0x000107c8), (0x851c, 0x00008688)]"

definition add_instr :: u32 where "add_instr = 0xe2833002"
definition swi_instr :: u32 where "swi_instr = 0xef900160"

lemma instrs_differ [simp]: "add_instr \<noteq> swi_instr" "swi_instr \<noteq> add_instr"
  by (simp_all add: add_instr_def swi_instr_def)

text \<open>The C function: what one round prints, and the variables after it.\<close>

definition C_round :: "u32 \<times> u32 \<Rightarrow> (u32 \<times> u32) \<times> (u32 \<times> u32)" where
  "C_round v = (case v of (cnt, i) \<Rightarrow> ((cnt, i), (cnt + 1, i + 2)))"

fun C_lines :: "nat \<Rightarrow> u32 \<times> u32 \<Rightarrow> (u32 \<times> u32) list" where
  "C_lines 0 v = []"
| "C_lines (Suc n) v = (case C_round v of (line, v) \<Rightarrow> line # C_lines n v)"

lemma C_lines_map: "C_lines n (c, i) = map (\<lambda>k. (c + of_nat k, i + 2 * of_nat k)) [0..<n]"
  by (induction n arbitrary: c i)
    (simp_all add: C_round_def upt_conv_Cons map_Suc_upt [symmetric] algebra_simps del: upt_Suc)

lemma decode_loop:
  "decode 0xe59f3038 = Some (Ldr 3 15 0x38)" "decode 0xe59f0038 = Some (Ldr 0 15 0x38)"
  "decode 0xe5931000 = Some (Ldr 1 3 0)" "decode 0xe51b2010 = Some (Ldr 2 11 (- 16))"
  "decode 0xebffffb1 = Some (Bl (- 308))" "decode 0xe59f2024 = Some (Ldr 2 15 0x24)"
  "decode 0xe59f3020 = Some (Ldr 3 15 0x20)" "decode 0xe5933000 = Some (Ldr 3 3 0)"
  "decode 0xe2833001 = Some (Add_imm 3 3 1)" "decode 0xe5823000 = Some (Str 3 2 0)"
  "decode 0xe51b3010 = Some (Ldr 3 11 (- 16))" "decode 0xe50b3010 = Some (Str 3 11 (- 16))"
  "decode 0xe3a00005 = Some (Mov 0 5)" "decode 0xebffffaa = Some (Bl (- 336))"
  "decode 0xeaffffef = Some (Br (- 60))"
  "decode 0xe2833002 = Some (Add_imm 3 3 2)" "decode 0xef900160 = Some (Swi 0x900160)"
  by code_simp+

subsection \<open>One round of the loop\<close>

definition at_loop :: "u32 \<Rightarrow> u32 \<Rightarrow> u32 \<Rightarrow> proc \<Rightarrow> bool" where
  "at_loop w c i p \<longleftrightarrow>
     reg p 15 = 0x84d8 \<and> (\<forall>(a, v)\<in>set loop_code. mem p a = Some v \<and> reg p 11 - 16 \<noteq> a)
     \<and> mem p 0x8504 = Some w \<and> mem p 0x107c8 = Some c \<and> mem p (reg p 11 - 16) = Some i
     \<and> reg p 11 - 16 \<noteq> 0x8504 \<and> reg p 11 - 16 \<noteq> 0x107c8"

lemma steps_fun:
  "steps h cl 0 = Some"
  "steps h cl (Suc n) = (\<lambda>p. Option.bind (step h cl p) (steps h cl n))"
  by (auto simp: fun_eq_iff split: bind_split)

lemma steps_11: "steps h cl 11 p = Option.bind (step h cl p) (\<lambda>p. Option.bind (step h cl p) (\<lambda>p.
    Option.bind (step h cl p) (\<lambda>p. Option.bind (step h cl p) (\<lambda>p. Option.bind (step h cl p) (\<lambda>p.
    Option.bind (step h cl p) (\<lambda>p. Option.bind (step h cl p) (\<lambda>p. Option.bind (step h cl p) (\<lambda>p.
    Option.bind (step h cl p) (\<lambda>p. Option.bind (step h cl p) (step h cl))))))))))"
  by (simp add: numeral_eq_Suc steps_fun bind_runit del: steps.simps)

lemma steps_4: "steps h cl 4 p = Option.bind (step h cl p) (\<lambda>p. Option.bind (step h cl p) (\<lambda>p.
    Option.bind (step h cl p) (step h cl)))"
  by (simp add: numeral_eq_Suc steps_fun bind_runit del: steps.simps)

lemmas exec_simps = step_def next_instr_def operand_def clobber_def decode_loop

text \<open>Up to the instruction at 0x8504: a line is printed and \<^verbatim>\<open>cnt\<close> counted.\<close>

lemma round_prints:
  assumes "at_loop w c i p"
  shows "\<exists>q. steps hello clob 11 p = Some q \<and> reg q 15 = 0x8504 \<and> reg q 3 = i \<and> reg q 11 = reg p 11
    \<and> mem q = (mem p)(0x107c8 \<mapsto> c + 1) \<and> printed q = printed p @ [(c, i)]
    \<and> hello_log q = hello_log p \<and> hello_cnt q = hello_cnt p"
  using assms unfolding steps_11 at_loop_def loop_code_def
  by (simp add: exec_simps)

text \<open>After it: \<^verbatim>\<open>i\<close> is stored and the loop begins again.\<close>

lemma round_stores:
  assumes "reg r 15 = 0x8508" "\<forall>(a, v)\<in>set loop_code. mem r a = Some v \<and> reg r 11 - 16 \<noteq> a"
    and "mem r (reg r 11 - 16) \<noteq> None"
  shows "\<exists>q. steps hello clob 4 r = Some q \<and> reg q 15 = 0x84d8 \<and> reg q 11 = reg r 11
    \<and> mem q = (mem r)(reg r 11 - 16 \<mapsto> reg r 3) \<and> printed q = printed r
    \<and> hello_log q = hello_log r \<and> hello_cnt q = hello_cnt r"
  using assms unfolding steps_4 loop_code_def
  by (auto simp: exec_simps Let_def)

subsection \<open>A breakpoint that does what the instruction did\<close>

text \<open>
  What makes a system call a transparent breakpoint: it adds 2 to r3 and leaves the other registers, and
  of the memory it changes at most the breakpoint, back into the instruction.
\<close>

locale breakpoint =
  fixes hello :: "proc \<Rightarrow> proc"
  assumes hello_reg: "reg (hello p) = (reg p)(3 := reg p 3 + 2)"
    and hello_mem: "mem p 0x8504 \<noteq> None \<Longrightarrow> mem (hello p) = (mem p)(0x8504 \<mapsto> the (mem (hello p) 0x8504))"
    and hello_word: "mem p 0x8504 = Some swi_instr \<Longrightarrow> mem (hello p) 0x8504 \<in> {Some swi_instr, Some add_instr}"
    and hello_printed: "printed (hello p) = printed p"
begin

text \<open>The state at 0x8504 of a round that is given to \<^verbatim>\<open>hello\<close>, if it is a breakpoint then.\<close>

lemma round_runs:
  assumes "at_loop w c i p" "w \<in> {swi_instr, add_instr}"
  shows "\<exists>q r p' w'. reg q 11 = reg p 11 \<and> mem q = (mem p)(0x107c8 \<mapsto> c + 1) \<and> reg q 3 = i
    \<and> hello_log q = hello_log p \<and> hello_cnt q = hello_cnt p
    \<and> r = (if w = swi_instr then hello q else q)
    \<and> steps hello clob 16 p = Some p' \<and> at_loop w' (c + 1) (i + 2) p' \<and> mem r 0x8504 = Some w'
    \<and> w' \<in> {swi_instr, add_instr} \<and> reg p' 11 = reg p 11 \<and> printed p' = printed p @ [(c, i)]
    \<and> hello_log p' = hello_log r \<and> hello_cnt p' = hello_cnt r"
proof -
  obtain q where q: "steps hello clob 11 p = Some q" "reg q 15 = 0x8504" "reg q 3 = i" "reg q 11 = reg p 11"
      "mem q = (mem p)(0x107c8 \<mapsto> c + 1)" "printed q = printed p @ [(c, i)]"
      "hello_log q = hello_log p" "hello_cnt q = hello_cnt p"
    using round_prints [OF assms(1)] by blast
  define r where "r = (if w = swi_instr then hello q else q)"
  have w: "mem q 0x8504 = Some w" using assms(1) by (simp add: q(5) at_loop_def)
  have "\<exists>u. step hello clob q = Some u \<and> reg u 15 = 0x8508 \<and> reg u 3 = i + 2 \<and> reg u 11 = reg p 11
      \<and> mem u = mem r \<and> printed u = printed q \<and> hello_log u = hello_log r \<and> hello_cnt u = hello_cnt r"
  proof (cases "w = swi_instr")
    case True
    then show ?thesis
      using q(2-4) w by (simp add: exec_simps swi_instr_def r_def Let_def hello_reg hello_printed)
  next
    case False
    then have "w = add_instr" using assms(2) by simp
    then show ?thesis using q(2-4) w by (simp add: exec_simps add_instr_def swi_instr_def r_def)
  qed
  then obtain u where u: "step hello clob q = Some u" "reg u 15 = 0x8508" "reg u 3 = i + 2" "reg u 11 = reg p 11"
      "mem u = mem r" "printed u = printed q" "hello_log u = hello_log r" "hello_cnt u = hello_cnt r" by blast
  have word: "\<exists>w'. mem r 0x8504 = Some w' \<and> w' \<in> {swi_instr, add_instr}"
    using hello_word [of q] w assms(2) by (auto simp: r_def)
  have other: "mem u a = mem q a" if "a \<noteq> 0x8504" for a
    using fun_cong [OF hello_mem [of q], of a] w that by (simp add: u(5) r_def)
  have code: "\<forall>(a, v)\<in>set loop_code. mem u a = Some v \<and> reg u 11 - 16 \<noteq> a"
  proof -
    have "\<forall>(a, v)\<in>set loop_code. a \<noteq> 0x8504 \<and> a \<noteq> 0x107c8" by (simp add: loop_code_def)
    then show ?thesis using assms(1) other by (fastforce simp: at_loop_def q(5) u(4))
  qed
  have fp: "mem u (reg u 11 - 16) = Some i" "mem u 0x107c8 = Some (c + 1)" "reg u 11 - 16 \<noteq> 0x8504" "reg u 11 - 16 \<noteq> 0x107c8"
    using assms(1) other [of "reg u 11 - 16"] other [of "0x107c8"] by (auto simp: at_loop_def u(4) q(5))
  obtain p' where p': "steps hello clob 4 u = Some p'" "reg p' 15 = 0x84d8" "reg p' 11 = reg u 11"
      "mem p' = (mem u)(reg u 11 - 16 \<mapsto> reg u 3)" "printed p' = printed u"
      "hello_log p' = hello_log u" "hello_cnt p' = hello_cnt u"
    using round_stores [OF u(2) code] fp(1) by auto
  obtain w' where w': "mem r 0x8504 = Some w'" "w' \<in> {swi_instr, add_instr}" using word by blast
  have "at_loop w' (c + 1) (i + 2) p'"
    using code fp w' by (fastforce simp: at_loop_def p'(2-4) u(3) u(5) [symmetric])
  moreover have "steps hello clob 16 p = Some p'"
    using steps_add [of hello clob 11 5 p] steps_add [of hello clob 1 4 q] q(1) u(1) p'(1) by simp
  ultimately show ?thesis using q u p' w' r_def by (metis (no_types))
qed

text \<open>The loop prints what the C function prints, round for round.\<close>

lemma loop_runs:
  "at_loop w c i p \<Longrightarrow> w \<in> {swi_instr, add_instr} \<Longrightarrow>
    \<exists>p' w'. steps hello clob (16 * n) p = Some p' \<and> w' \<in> {swi_instr, add_instr}
      \<and> at_loop w' (c + of_nat n) (i + 2 * of_nat n) p' \<and> printed p' = printed p @ C_lines n (c, i)"
proof (induction n arbitrary: w c i p)
  case (Suc n)
  obtain p' w' where p': "steps hello clob 16 p = Some p'" "at_loop w' (c + 1) (i + 2) p'" "w' \<in> {swi_instr, add_instr}"
      "printed p' = printed p @ [(c, i)]"
    using round_runs [OF Suc.prems] by blast
  obtain p'' w'' where p'': "steps hello clob (16 * n) p' = Some p''" "w'' \<in> {swi_instr, add_instr}"
      "at_loop w'' (c + 1 + of_nat n) (i + 2 + 2 * of_nat n) p''"
      "printed p'' = printed p' @ C_lines n (c + 1, i + 2)"
    using Suc.IH [OF p'(2,3)] by blast
  have "steps hello clob (16 * Suc n) p = Some p''"
    using steps_add [of hello clob 16 "16 * n" p] p'(1) p''(1) by simp
  then show ?case using p'' p'(4) by (auto simp: C_round_def algebra_simps)
qed (auto intro: exI)

end

interpretation peek: breakpoint sys_hello_peek
  by unfold_locales (auto simp: sys_hello_peek_def hello_says_def Let_def)

interpretation restore: breakpoint sys_hello_restore
  by unfold_locales
    (auto simp: sys_hello_restore_def sys_hello_peek_def hello_says_def Let_def add_instr_def swi_instr_def)

subsection \<open>Properties\<close>

lemma restore_round:
  assumes "at_loop swi_instr c i p" "hello_cnt p < 5"
  shows "\<exists>p' lr. steps sys_hello_restore clob 16 p = Some p'
    \<and> at_loop (if hello_cnt p = 4 then add_instr else swi_instr) (c + 1) (i + 2) p'
    \<and> hello_cnt p' = (if hello_cnt p = 4 then 0 else hello_cnt p + 1)
    \<and> hello_log p' = hello_log p @ [Hello_cnt (sint (c + 1)), Hello_i (sint i)]
        @ (if hello_cnt p = 4 then [Hello_code swi_instr, Hello_lr lr, Hello_vm 4] else [])"
proof -
  obtain q r p' w' where q: "reg q 11 = reg p 11" "mem q = (mem p)(0x107c8 \<mapsto> c + 1)"
      "hello_log q = hello_log p" "hello_cnt q = hello_cnt p" "r = sys_hello_restore q"
      "steps sys_hello_restore clob 16 p = Some p'" "at_loop w' (c + 1) (i + 2) p'" "mem r 0x8504 = Some w'"
      "hello_log p' = hello_log r" "hello_cnt p' = hello_cnt r"
    using restore.round_runs [OF assms(1), of clob] by auto
  have "mem q 0x8504 = Some swi_instr" "read_user q 0x107c8 = c + 1" "read_user q (reg q 11 - 16) = i"
    using assms(1) by (auto simp: q(1,2) read_user_def at_loop_def)
  then have "w' = (if hello_cnt p = 4 then add_instr else swi_instr)"
    "hello_cnt p' = (if hello_cnt p = 4 then 0 else hello_cnt p + 1)"
    "hello_log p' = hello_log p @ [Hello_cnt (sint (c + 1)), Hello_i (sint i)]
        @ (if hello_cnt p = 4 then [Hello_code swi_instr, Hello_lr (reg q 14), Hello_vm 4] else [])"
    using q(8) by (auto simp: q(3-5,9,10) sys_hello_restore_def sys_hello_peek_def hello_says_def Let_def read_user_def
        add_instr_def)
  then show ?thesis using q(6,7) by auto
qed

lemma plain_round:
  assumes "at_loop add_instr c i p"
  shows "\<exists>p'. steps sys_hello_restore clob 16 p = Some p' \<and> at_loop add_instr (c + 1) (i + 2) p'
    \<and> hello_cnt p' = hello_cnt p \<and> hello_log p' = hello_log p"
proof -
  obtain q r :: proc and p' w' where q: "mem q = (mem p)(0x107c8 \<mapsto> c + 1)"
      "hello_log q = hello_log p" "hello_cnt q = hello_cnt p" "r = q"
      "steps sys_hello_restore clob 16 p = Some p'" "at_loop w' (c + 1) (i + 2) p'" "mem r 0x8504 = Some w'"
      "hello_log p' = hello_log r" "hello_cnt p' = hello_cnt r"
    using restore.round_runs [OF assms, of clob, simplified] by blast
  have "w' = add_instr" using assms q(7) by (simp add: q(1,4) at_loop_def)
  with q show ?thesis by auto
qed

text \<open>What the kernel says about the variables; the other lines are about the restored word.\<close>

fun about_variables :: "hello_line \<Rightarrow> bool" where
  "about_variables (Hello_cnt _) = True"
| "about_variables (Hello_i _) = True"
| "about_variables _ = False"

text \<open>
  C6. The system call is a transparent breakpoint: the patched program prints, for any number of rounds,
  exactly what the C program prints; the kernel reports the two variables in each of the first five
  rounds, and then the instruction is back in place.
\<close>

theorem breakpoint_transparent:
  assumes "at_loop swi_instr 0 0 p" "hello_cnt p = 0" "hello_log p = []"
  shows "\<exists>p'. steps sys_hello_restore clob (16 * n) p = Some p' \<and> printed p' = printed p @ C_lines n (0, 0)
    \<and> mem p' 0x8504 = Some (if n < 5 then swi_instr else add_instr)
    \<and> filter about_variables (hello_log p') =
        concat (map (\<lambda>k. [Hello_cnt (int k + 1), Hello_i (2 * int k)]) [0..<min n 5])"
proof -
  have "\<exists>p'. steps sys_hello_restore clob (16 * n) p = Some p'
    \<and> at_loop (if n < 5 then swi_instr else add_instr) (of_nat n) (2 * of_nat n) p'
    \<and> hello_cnt p' = (if n < 5 then n else 0)
    \<and> filter about_variables (hello_log p') =
        concat (map (\<lambda>k. [Hello_cnt (int k + 1), Hello_i (2 * int k)]) [0..<min n 5])"
  proof (induction n)
    case 0
    then show ?case using assms by simp
  next
    case (Suc n)
    then obtain q where q: "steps sys_hello_restore clob (16 * n) p = Some q"
      "at_loop (if n < 5 then swi_instr else add_instr) (of_nat n) (2 * of_nat n) q"
      "hello_cnt q = (if n < 5 then n else 0)"
      "filter about_variables (hello_log q) =
        concat (map (\<lambda>k. [Hello_cnt (int k + 1), Hello_i (2 * int k)]) [0..<min n 5])" by blast
    have run: "steps sys_hello_restore clob (16 * Suc n) p = steps sys_hello_restore clob 16 q"
      using steps_add [of sys_hello_restore clob "16 * n" 16 p] q(1) by (simp add: add.commute)
    show ?case
    proof (cases "n < 5")
      case True
      then have small: "sint (of_nat n + 1 :: u32) = int n + 1" "sint (2 * of_nat n :: u32) = 2 * int n"
        by (auto simp: less_Suc_eq numeral_eq_Suc)
      obtain p' lr where "steps sys_hello_restore clob 16 q = Some p'"
          "at_loop (if n = 4 then add_instr else swi_instr) (of_nat n + 1) (2 * of_nat n + 2) p'"
          "hello_cnt p' = (if n = 4 then 0 else n + 1)"
          "hello_log p' = hello_log q @ [Hello_cnt (int n + 1), Hello_i (2 * int n)]
             @ (if n = 4 then [Hello_code swi_instr, Hello_lr lr, Hello_vm 4] else [])"
        using restore_round [of "of_nat n" "2 * of_nat n" q clob] q(2,3) True by (auto simp: small)
      then show ?thesis using True q(4) run by (auto simp: algebra_simps min_def)
    next
      case False
      then show ?thesis
        using plain_round [of "of_nat n" "2 * of_nat n" q clob] q(2-4) run by (auto simp: algebra_simps min_def)
    qed
  qed
  moreover obtain p' where "steps sys_hello_restore clob (16 * n) p = Some p'" "printed p' = printed p @ C_lines n (0, 0)"
    using restore.loop_runs [OF assms(1), of clob n] by auto
  ultimately show ?thesis by (auto simp: at_loop_def)
qed

definition hello_start :: proc where
  "hello_start = \<lparr>reg = (\<lambda>r. if r = 15 then 0x84d8 else if r = 11 then 0xbefffd00 else 0),
     mem = map_of (loop_code @ [(0x8504, swi_instr), (0x107c8, 0), (0xbefffcf0, 0)]),
     printed = [], hello_log = [], hello_cnt = 0\<rparr>"

lemma hello_start_at_loop: "at_loop swi_instr 0 0 hello_start"
  by (simp add: at_loop_def hello_start_def loop_code_def)

theorem breakpoint_transparent_witness:
  "\<exists>p'. steps sys_hello_restore (\<lambda>_ _. 1) 112 hello_start = Some p'
    \<and> printed p' = [(0, 0), (1, 2), (2, 4), (3, 6), (4, 8), (5, 10), (6, 12)]
    \<and> mem p' 0x8504 = Some add_instr"
proof -
  have "C_lines 7 (0, 0) = [(0, 0), (1, 2), (2, 4), (3, 6), (4, 8), (5, 10), (6, 12)]" by code_simp
  moreover have "hello_cnt hello_start = 0" "hello_log hello_start = []" "printed hello_start = []"
    by (simp_all add: hello_start_def)
  ultimately show ?thesis
    using breakpoint_transparent [OF hello_start_at_loop, of "\<lambda>_ _. 1" 7] by auto
qed

end
