(* ===== verification/InputReplay.thy ===== *)
theory InputReplay
  imports Replay
begin

text \<open>
  The command line program debug_input_emulate/input_replay.c in front of the player: it copies a
  recording to /dev/input_emu in pieces of 100 bytes, starts the player, or puts a tag into the log.
  What the program asks of the driver goes through \<^verbatim>\<open>replay_write\<close> and \<^verbatim>\<open>replay_ioctl\<close>.
\<close>

subsection \<open>The program\<close>

text \<open>
  \<^verbatim>\<open>rd k\<close> is what the \<^verbatim>\<open>k\<close>-th read of 100 bytes from the file gives, \<^verbatim>\<open>None\<close> an error. The program does
  not look at errors: it then asks to write \<^verbatim>\<open>-1\<close> bytes, which the file layer refuses before the driver
  is called, and reads again. It does not look at what the driver returns either.
\<close>

partial_function (option) write_recording :: "nat \<Rightarrow> (nat \<Rightarrow> u8 list option) \<Rightarrow> nat \<Rightarrow> replay \<Rightarrow> replay option" where
  "write_recording L rd k s =
     (case rd k of
        None \<Rightarrow> write_recording L rd (k + 1) s
      | Some bs \<Rightarrow>
          if bs = [] then Some s
          else Option.bind (replay_write L bs (of_nat (length bs)) s) (\<lambda>(_, s). write_recording L rd (k + 1) s))"

datatype said = Usage | No_device | No_file | Write_ok | Finish

text \<open>
  \<^verbatim>\<open>dev_ok\<close>, \<^verbatim>\<open>file_ok\<close>: the two opens succeed; \<^verbatim>\<open>env\<close> the readable memory behind an argument. The
  result is the exit status, what is printed, and the states of player and log.
\<close>

definition user_string :: "string \<Rightarrow> u8 list \<Rightarrow> u8 list" where
  "user_string str env = map (\<lambda>c. of_nat (of_char c)) str @ 0 # env"

definition input_replay_main ::
  "nat \<Rightarrow> nat \<Rightarrow> nat \<Rightarrow> string list \<Rightarrow> bool \<Rightarrow> bool \<Rightarrow> (nat \<Rightarrow> u8 list option) \<Rightarrow> u8 list \<Rightarrow> replay \<times> mylog
    \<Rightarrow> (int \<times> said list \<times> replay \<times> mylog) option" where
  "input_replay_main L N tmp argv dev_ok file_ok rd env sm =
     (let argc = length argv in
      if argc \<noteq> 2 \<and> argc \<noteq> 3 then Some (-1, [Usage], sm)
      else if \<not> dev_ok then Some (-1, [No_device], sm)
      else if argv ! 1 = ''replay''
      then map_option (\<lambda>(_, sm). (0, [Finish], sm)) (replay_ioctl N tmp INPUT_REPLAY [] sm)
      else if argv ! 1 = ''write''
      then if argc \<noteq> 3 then Some (-1, [Usage], sm)
           else if \<not> file_ok then Some (-1, [No_file], sm)
           else map_option (\<lambda>s. (0, [Write_ok, Finish], s, snd sm)) (write_recording L rd 0 (fst sm))
      else if argv ! 1 = ''tag''
      then if argc \<noteq> 3 then Some (-1, [Usage], sm)
           else map_option (\<lambda>(_, sm). (0, [Finish], sm)) (replay_ioctl N tmp INPUT_TAG (user_string (argv ! 2) env) sm)
      else Some (-1, [Usage], sm))"

subsection \<open>A whole recording is written\<close>

text \<open>A regular file read in pieces.\<close>

definition read_file :: "u8 list \<Rightarrow> nat \<Rightarrow> u8 list option" where
  "read_file data k = Some (take 100 (drop (100 * k) data))"

lemma write_piece:
  assumes "replay_inv L s" "length bs < 2 ^ 31" "replay_w s + length bs < L"
  shows "replay_write L bs (of_nat (length bs)) s = Some (int (length bs),
      s\<lparr>replay_buf := take (replay_w s) (replay_buf s) @ bs @ drop (replay_w s + length bs) (replay_buf s),
        replay_w := replay_w s + length bs\<rparr>)"
proof -
  have n: "unat (of_nat (length bs) :: u32) = length bs" using assms(2) by (simp add: unat_of_nat)
  then have "unat (of_nat (replay_w s) + of_nat (length bs) :: u32) = replay_w s + length bs"
    using guard_sum [OF assms(1), of "of_nat (length bs)"] assms(2) by simp
  then show ?thesis
    using assms n by (simp add: replay_write_def copy_from_user_all store_at_def replay_inv_def)
qed

lemma two_pieces:
  assumes "w \<le> length b"
  shows "take (w + length xs) (take w b @ xs @ c) @ ys
      @ drop (w + length xs + length ys) (take w b @ xs @ drop (w + length xs) b)
    = take w b @ (xs @ ys) @ drop (w + length (xs @ ys)) b"
  using assms by (simp add: ac_simps)

lemma write_recording_all:
  assumes "replay_inv L s" "replay_w s + length (drop (100 * k) data) < L"
  shows "write_recording L (read_file data) k s = Some
      (s\<lparr>replay_buf := take (replay_w s) (replay_buf s) @ drop (100 * k) data
            @ drop (replay_w s + length (drop (100 * k) data)) (replay_buf s),
         replay_w := replay_w s + length (drop (100 * k) data)\<rparr>)"
  using assms
proof (induction "length data - 100 * k" arbitrary: k s rule: less_induct)
  case less
  let ?bs = "take 100 (drop (100 * k) data)" and ?rest = "drop (100 * (k + 1)) data"
  show ?case
  proof (cases "?bs = []")
    case True
    then show ?thesis
      by (subst write_recording.simps) (simp add: read_file_def)
  next
    case False
    let ?s = "s\<lparr>replay_buf := take (replay_w s) (replay_buf s) @ ?bs @ drop (replay_w s + length ?bs) (replay_buf s),
        replay_w := replay_w s + length ?bs\<rparr>"
    have split: "drop (100 * k) data = ?bs @ ?rest" by (simp flip: drop_drop add: add.commute)
    have len: "length (drop (100 * k) data) = length ?bs + length ?rest"
      using arg_cong [OF split, of length] by simp
    have "length ?bs < 2 ^ 31" "replay_w s + length ?bs < L" using less.prems(2) len by auto
    then have w: "replay_write L ?bs (of_nat (length ?bs)) s = Some (int (length ?bs), ?s)"
      using less.prems(1) by (intro write_piece)
    have "replay_inv L ?s" "replay_w ?s + length ?rest < L"
      using less.prems len by (auto simp: replay_inv_def)
    then have "write_recording L (read_file data) (k + 1) ?s = Some
        (?s\<lparr>replay_buf := take (replay_w ?s) (replay_buf ?s) @ ?rest @ drop (replay_w ?s + length ?rest) (replay_buf ?s),
            replay_w := replay_w ?s + length ?rest\<rparr>)"
      using False by (intro less.hyps) auto
    moreover have "write_recording L (read_file data) k s = write_recording L (read_file data) (k + 1) ?s"
      using w False by (subst write_recording.simps) (simp add: read_file_def)
    moreover have "replay_w s \<le> length (replay_buf s)" using less.prems(1) by (simp add: replay_inv_def)
    note pieces = two_pieces [OF this, of ?bs _ ?rest, folded split]
    have buf: "replay_buf ?s = take (replay_w s) (replay_buf s) @ ?bs @ drop (replay_w s + length ?bs) (replay_buf s)"
      "replay_w ?s = replay_w s + length ?bs" by simp_all
    have w: "replay_w s + length ?bs + length ?rest = replay_w s + length (drop (100 * k) data)"
      by (simp only: len add.assoc)
    have upd: "?s\<lparr>replay_buf := u, replay_w := v\<rparr> = s\<lparr>replay_buf := u, replay_w := v\<rparr>" for u v by simp
    ultimately show ?thesis
      by (simp only: buf w pieces [unfolded w] upd)
  qed
qed

subsection \<open>A recording replays\<close>

text \<open>
  From the recorder's file to the input events: when the program has written a recording that fits to
  an empty player and starts it, the player runs to its end and reports exactly the recorded
  events, in their order.
\<close>

theorem recorded_session_replays:
  assumes "replay_inv L s" "replay_r s = 0" "replay_w s = 0" "pending s = no_event"
    and "data = concat (map event_text es)" "length data < L" "stale (replay_buf s ! length data) = []"
    and "\<forall>e \<in> set es. val_ok (snd (snd (snd e))) \<and> (e = no_event \<or> fst e \<noteq> 0)" "length es < fuel"
  shows "\<exists>s1 s2 s3. input_replay_main L N tmp [prog, ''write'', f] True True (read_file data) env (s, m)
        = Some (0, [Write_ok, Finish], s1, m)
    \<and> input_replay_main L N tmp [prog, ''replay''] True ok rd env (s1, m) = Some (0, [Finish], s2, m)
    \<and> replay_run fuel s2 = Some s3
    \<and> reported (kt s3) = reported (kt s) @ map report_event (real_events es)
    \<and> pending s3 = no_event \<and> replay_r s3 = 0 \<and> replay_w s3 = 0"
proof -
  let ?n = "length data"
  define s1 where "s1 = s\<lparr>replay_buf := data @ drop ?n (replay_buf s), replay_w := ?n\<rparr>"
  define s2 where "s2 = emit [Acquire (Timer ''replay_timer'') 1] s1"
  have wr: "input_replay_main L N tmp [prog, ''write'', f] True True (read_file data) env (s, m)
      = Some (0, [Write_ok, Finish], s1, m)"
    using write_recording_all [OF assms(1), of 0 data] assms(3,6) by (simp add: input_replay_main_def s1_def)
  have start: "input_replay_main L N tmp [prog, ''replay''] True ok rd env (s1, m) = Some (0, [Finish], s2, m)"
    by (simp add: input_replay_main_def replay_ioctl_def INPUT_REPLAY_def s2_def)
  have "?n < length (replay_buf s)" using assms(1,6) by (simp add: replay_inv_def)
  then have "replay_buf s2 = concat (map event_text es) @ (replay_buf s ! ?n) # drop (Suc ?n) (replay_buf s)"
    using assms(5) by (simp add: s2_def s1_def emit_def Cons_nth_drop_Suc)
  then have ev: "replay_events s2 = Some (real_events es)"
    using assms(2,5,7,8) replay_events_text [of s2 "[]" "[]" es "replay_buf s ! ?n" "drop (Suc ?n) (replay_buf s)"]
    by (simp add: s2_def s1_def emit_def)
  have "\<forall>e \<in> set (real_events es). fst e \<noteq> 0" using assms(8) by (auto simp: real_events_def)
  moreover have "length (real_events es) < fuel"
    unfolding real_events_def using length_filter_le assms(9) by (rule le_less_trans)
  moreover have "pre_time s2 = 0" "reported (kt s2) = reported (kt s)"
    using assms(4) by (simp_all add: pending_def no_event_def s2_def s1_def emit_def reported_def)
  ultimately show ?thesis
    using replay_run_events [OF ev] wr start by auto
qed

definition empty_player :: replay where
  "empty_player = \<lparr>kt = [], replay_buf = replicate 64 0, replay_r = 0, replay_w = 0,
     pre_time = 0, pre_type = 0, pre_code = 0, pre_val = 0\<rparr>"

definition empty_log :: mylog where
  "empty_log = \<lparr>kt = [], mylog_buf = replicate 8 0, mylog_r = 0, mylog_r_for_read = 0, mylog_w = 0\<rparr>"

theorem recorded_session_replays_witness:
  "\<exists>s1 s2 s3. input_replay_main 64 8 8 [''input_replay'', ''write'', ''log.txt''] True True
        (read_file (event_text (5, 1, 330, 1))) [] (empty_player, empty_log) = Some (0, [Write_ok, Finish], s1, empty_log)
    \<and> input_replay_main 64 8 8 [''input_replay'', ''replay''] True True (\<lambda>_. None) [] (s1, empty_log) = Some (0, [Finish], s2, empty_log)
    \<and> replay_run 2 s2 = Some s3 \<and> reported (kt s3) = [Input_event ''s3c_ts_dev'' 1 330 1]"
proof -
  have "fmt_nat 1 = [49]" by (subst fmt_nat.simps) simp
  then have data: "length (event_text (5, 1, 330, 1)) = 35" "stale (replay_buf empty_player ! 35) = []"
    "event_text (5, 1, 330, 1) = concat (map event_text [(5, 1, 330, 1)])"
    by (simp add: event_text_def event_line_def fmt_d_def, code_simp, simp)
  have start: "replay_inv 64 empty_player" "replay_r empty_player = 0" "replay_w empty_player = 0"
    "pending empty_player = no_event"
    by (simp_all add: empty_player_def replay_inv_def pending_def no_event_def)
  have len: "length (event_text (5, 1, 330, 1)) < 64" using data(1) by simp
  have blank: "stale (replay_buf empty_player ! length (event_text (5, 1, 330, 1))) = []"
    using data(1,2) by simp
  have vals: "\<forall>e \<in> set [(5, 1, 330, 1)]. val_ok (snd (snd (snd e))) \<and> (e = no_event \<or> fst e \<noteq> 0)"
    by (simp add: val_ok_def)
  have fuel: "length [(5 :: u32, 1 :: u32, 330 :: u32, 1 :: int)] < 2" by simp
  have shown: "reported (kt empty_player) @ map report_event (real_events [(5, 1, 330, 1)])
      = [Input_event ''s3c_ts_dev'' 1 330 1]"
    by (simp add: empty_player_def reported_def real_events_def no_event_def report_event_def report_def)
  note run = recorded_session_replays [OF start data(3) len blank vals fuel]
  show ?thesis
    using run [where N = 8 and tmp = 8 and prog = "''input_replay''" and f = "''log.txt''" and env = "[]" and m = empty_log
        and ok = True and rd = "\<lambda>_. None"]
    unfolding shown by blast
qed

end
