(* ===== verification/Recording.thy ===== *)
theory Recording
  imports TouchScreen InputReplay
begin

text \<open>
  The three parts of debug_input_emulate joined the way they are used: the recording touch screen driver
  prints into the kernel log, a process reads /proc/mymsg into a file, the program input_replay copies
  the file to the player, and the player reports the events again.
\<close>

lemma length_event_text:
  assumes "val_ok (snd (snd (snd e)))"
  shows "1 \<le> length (event_text e)" "length (event_text e) < 60"
proof -
  obtain t ty c v where e: "e = (t, ty, c, v)" by (metis prod_cases4)
  show "length (event_text e) < 60" using length_event_line [of v] assms by (simp add: e event_text_def)
  show "1 \<le> length (event_text e)" by (simp add: e event_text_def event_line_def)
qed

lemma length_recording:
  assumes "\<forall>e \<in> set es. val_ok (snd (snd (snd e)))"
  shows "length es \<le> length (concat (map event_text es))" "length (concat (map event_text es)) \<le> 60 * length es"
  using assms
proof (induction es)
  case (Cons e es)
  case 1
  then show ?case using Cons(1) length_event_text(1) [of e] by simp
next
  case (Cons e es)
  case 2
  then show ?case using Cons(2) length_event_text(2) [of e] by simp
qed simp_all

lemma real_events_clocked: "\<forall>e \<in> set es. fst e \<noteq> 0 \<Longrightarrow> real_events es = es"
  by (induction es) (auto simp: real_events_def no_event_def)



end
