(* ===== verification/FbTest.thy ===== *)
theory FbTest
  imports Kernel
begin

text \<open>
  The test program lcd/fb_test/fb_test.c of the 3.4.2 tree: it paints a picture into the mapped frame
  buffer, or reads and writes single cells of it. The mapped memory is a list of bytes at
  \<^verbatim>\<open>fb_base_addr\<close>; an access outside of it, and a shift by 32 or more, are \<^verbatim>\<open>None\<close>. Words are little endian.
\<close>

subsection \<open>Pixels\<close>

record fb_info =
  bits_per_pixel :: u32
  xres :: u32
  yres :: u32
  fb_base_addr :: u32

definition mem_store :: "nat \<Rightarrow> u8 list \<Rightarrow> u8 list \<Rightarrow> u8 list option" where
  "mem_store i xs m = (if i + length xs \<le> length m then Some (take i m @ xs @ drop (i + length xs) m) else None)"

definition le_bytes :: "nat \<Rightarrow> u32 \<Rightarrow> u8 list" where
  "le_bytes n v = map (\<lambda>i. ucast (drop_bit (8 * i) v)) [0..<n]"

text \<open>\<^verbatim>\<open>y*fb_var.xres+x\<close> is an unsigned 32-bit product and sum.\<close>

definition pixel_index :: "fb_info \<Rightarrow> u32 \<Rightarrow> u32 \<Rightarrow> u32" where
  "pixel_index fb x y = y * xres fb + x"

text \<open>
  Below a byte per pixel the code computes the position in the byte as
  \<^verbatim>\<open>(RMuint32) ((RMuint8 *)fb_base_addr + index % n)\<close>: the cast covers the pointer too, so the base
  address is part of the shift, which is an unsigned 32-bit product. The mask is an \<^verbatim>\<open>int\<close>, cut to a byte.
\<close>

definition packed_pixel :: "nat \<Rightarrow> (u8 \<Rightarrow> nat \<Rightarrow> u8) \<Rightarrow> fb_info \<Rightarrow> u32 \<Rightarrow> u8 list \<Rightarrow> u8 list option" where
  "packed_pixel per change fb idx m =
     (let a = unat idx div per;
          shift = unat ((fb_base_addr fb + of_nat (unat idx mod per)) * of_nat (8 div per))
      in if shift \<ge> 32 \<or> a \<ge> length m then None
         else mem_store a [change (m ! a) shift] m)"

definition set_pixel :: "fb_info \<Rightarrow> u32 \<Rightarrow> u32 \<Rightarrow> u32 \<Rightarrow> u8 list \<Rightarrow> u8 list option" where
  "set_pixel fb x y color m =
     (let idx = pixel_index fb x y; i = unat idx; bpp = bits_per_pixel fb
      in if bpp = 32 then mem_store (i * 4) (le_bytes 4 color) m
         else if bpp = 24 then mem_store (unat (idx * 3)) (le_bytes 3 color) m
         else if bpp = 16 then mem_store (i * 2) (le_bytes 2 color) m
         else if bpp = 8 then mem_store i (le_bytes 1 color) m
         else if bpp = 4
         then packed_pixel 2 (\<lambda>pixel sh. pixel AND push_bit sh 0x0f
                 OR drop_bit sh (ucast (push_bit 4 (color AND 0xf)))) fb idx m
         else if bpp = 2
         then packed_pixel 4 (\<lambda>pixel sh. pixel AND NOT (push_bit sh 3) OR push_bit sh (ucast (color AND 3))) fb idx m
         else if bpp = 1
         then packed_pixel 8 (\<lambda>pixel sh. pixel AND NOT (push_bit sh 1) OR push_bit sh (ucast (color AND 1))) fb idx m
         else Some m)"

subsection \<open>The picture\<close>

text \<open>\<^verbatim>\<open>red\<close>, \<^verbatim>\<open>green\<close>, \<^verbatim>\<open>blue\<close> and \<^verbatim>\<open>alpha\<close> are bytes.\<close>

definition mire_color :: "fb_info \<Rightarrow> u32 \<Rightarrow> u32 \<Rightarrow> u32" where
  "mire_color fb x y =
     (let color = ((x - xres fb div 2) * (x - xres fb div 2) + (y - yres fb div 2) * (y - yres fb div 2)) div 64;
          red = color div 8 mod 256; green = color div 4 mod 256;
          blue = color div 2 mod 256; alpha = color * 2 mod 256
      in color OR push_bit 24 alpha OR push_bit 16 red OR push_bit 8 green OR blue)"

fun mire_row :: "fb_info \<Rightarrow> nat \<Rightarrow> nat \<Rightarrow> nat \<Rightarrow> u8 list \<Rightarrow> u8 list option" where
  "mire_row fb y 0 x m = Some m"
| "mire_row fb y (Suc n) x m =
     Option.bind (set_pixel fb (of_nat x) (of_nat y) (mire_color fb (of_nat x) (of_nat y)) m) (mire_row fb y n (x + 1))"

fun mire_rows :: "fb_info \<Rightarrow> nat \<Rightarrow> nat \<Rightarrow> u8 list \<Rightarrow> u8 list option" where
  "mire_rows fb 0 y m = Some m"
| "mire_rows fb (Suc n) y m = Option.bind (mire_row fb y (unat (xres fb)) 0 m) (mire_rows fb n (y + 1))"

definition mire :: "fb_info \<Rightarrow> u8 list \<Rightarrow> u8 list option" where
  "mire fb m = mire_rows fb (unat (yres fb)) 0 m"

subsection \<open>The program\<close>

text \<open>
  \<^verbatim>\<open>strtoul (s, 0, 0)\<close> on a 32-bit machine: blanks, a sign, the base from the prefix, then the digits;
  a number too large is \<^verbatim>\<open>ULONG_MAX\<close>. What follows the digits is not looked at.
\<close>

definition digit_value :: "nat \<Rightarrow> char \<Rightarrow> nat option" where
  "digit_value base c =
     (let k = of_char c :: nat;
          d = (if 48 \<le> k \<and> k \<le> 57 then k - 48 else if 97 \<le> k \<and> k \<le> 122 then k - 87
               else if 65 \<le> k \<and> k \<le> 90 then k - 55 else 36)
      in if d < base then Some d else None)"

fun digits_value :: "nat \<Rightarrow> nat \<Rightarrow> string \<Rightarrow> nat" where
  "digits_value base acc [] = acc"
| "digits_value base acc (c # cs) =
     (case digit_value base c of None \<Rightarrow> acc | Some d \<Rightarrow> digits_value base (acc * base + d) cs)"

definition unsigned_value :: "string \<Rightarrow> nat" where
  "unsigned_value s =
     (if length s \<ge> 3 \<and> s ! 0 = CHR ''0'' \<and> (s ! 1 = CHR ''x'' \<or> s ! 1 = CHR ''X'') \<and> digit_value 16 (s ! 2) \<noteq> None
      then digits_value 16 0 (drop 2 s)
      else if s \<noteq> [] \<and> hd s = CHR ''0'' then digits_value 8 0 s
      else digits_value 10 0 s)"

definition strtoul :: "string \<Rightarrow> u32" where
  "strtoul s =
     (let t = dropWhile (\<lambda>c. of_char c \<in> {9 :: nat, 10, 11, 12, 13, 32}) s;
          neg = (t \<noteq> [] \<and> hd t = CHR ''-'');
          n = unsigned_value (if t \<noteq> [] \<and> (hd t = CHR ''-'' \<or> hd t = CHR ''+'') then tl t else t)
      in if n > 0xFFFFFFFF then 0xFFFFFFFF else if neg then - of_nat n else of_nat n)"

text \<open>
  What the kernel answers: whether the device opens, the two queries, the change of the mode, and
  the mapping of so many bytes, as an address with the bytes there. Of the mode only the three values
  the program computes with are kept.
\<close>

record fb_dev =
  opens :: bool
  fix_fails :: bool
  var_info :: "(u32 \<times> u32 \<times> u32) option"
  put_fails :: bool
  mapping :: "u32 \<Rightarrow> (u32 \<times> u8 list) option"

datatype fb_out =
    Fb_usage | Fb_open_error | Fb_fix_error | Fb_var_error | Fb_put_error | Fb_map_error
  | Fb_change u32 u32 u32 | Fb_values u32 u32 u32 | Fb_cell u32

text \<open>The loops of the commands on cells: \<^verbatim>\<open>num\<close> cells of \<^verbatim>\<open>w\<close> bytes from an offset.\<close>

fun store_cells :: "nat \<Rightarrow> u32 \<Rightarrow> nat \<Rightarrow> nat \<Rightarrow> u8 list \<Rightarrow> u8 list option" where
  "store_cells w v 0 off m = Some m"
| "store_cells w v (Suc n) off m = Option.bind (mem_store off (le_bytes w v) m) (store_cells w v n (off + w))"

text \<open>
  The format of a cell has three conversions and one argument, the value, which lands in the first
  one; what the other two print is not modelled.
\<close>

definition cell_at :: "nat \<Rightarrow> u8 list \<Rightarrow> nat \<Rightarrow> u32" where
  "cell_at w m off = (\<Sum>i\<leftarrow>[0..<w]. push_bit (8 * i) (ucast (m ! (off + i))))"

definition read_cells :: "nat \<Rightarrow> nat \<Rightarrow> nat \<Rightarrow> u8 list \<Rightarrow> fb_out list option" where
  "read_cells w n off m =
     (if n = 0 \<or> off + w * n \<le> length m then Some (map (\<lambda>k. Fb_cell (cell_at w m (off + w * k))) [0..<n]) else None)"

definition cell_command :: "string list \<Rightarrow> u8 list \<Rightarrow> (fb_out list \<times> u8 list) option" where
  "cell_command argv m =
     (let argc = length argv; cmd = argv ! 2; off = unat (strtoul (argv ! 3));
          num = (\<lambda>k. if argc > k then unat (strtoul (argv ! k)) else 1);
          rd = (\<lambda>w. map_option (\<lambda>out. (out, m)) (read_cells w (num 4) off m));
          wr = (\<lambda>w. map_option (Pair []) (store_cells w (strtoul (argv ! 4)) (num 5) off m))
      in if argc \<ge> 4 \<and> cmd = ''r32'' then rd 4
         else if argc \<ge> 5 \<and> cmd = ''w32'' then wr 4
         else if argc \<ge> 4 \<and> cmd = ''r16'' then rd 2
         else if argc \<ge> 5 \<and> cmd = ''w16'' then wr 2
         else if argc \<ge> 4 \<and> cmd = ''r8'' then rd 1
         else if argc \<ge> 5 \<and> cmd = ''w8'' then wr 1
         else Some ([], m))"

text \<open>The tail of \<^verbatim>\<open>main\<close> once the mode is known: values, mapping, then the picture or a cell command.\<close>

definition fb_test_run :: "fb_dev \<Rightarrow> string list \<Rightarrow> u32 \<times> u32 \<times> u32 \<Rightarrow> (int \<times> fb_out list \<times> u8 list) option" where
  "fb_test_run dev argv mode =
     (case mode of (xr, yr, bpp) \<Rightarrow>
        let paint = (length argv = 2 \<or> length argv > 2 \<and> argv ! 2 = ''set'');
            vals = (if paint then [Fb_values xr yr bpp] else []);
            screensize = xr * yr * bpp div 8
        in case mapping dev screensize of
             None \<Rightarrow> Some (1, vals @ [Fb_map_error], [])
           | Some (base, m) \<Rightarrow>
               if paint
               then Option.bind (mem_store 0 (replicate (unat screensize) 0) m) (\<lambda>m.
                      map_option (\<lambda>m. (0, vals, m))
                        (mire \<lparr>bits_per_pixel = bpp, xres = xr, yres = yr, fb_base_addr = base\<rparr> m))
               else map_option (\<lambda>(out, m). (0, vals @ out, m)) (cell_command argv m))"

definition fb_test_main :: "fb_dev \<Rightarrow> string list \<Rightarrow> (int \<times> fb_out list \<times> u8 list) option" where
  "fb_test_main dev argv =
     (if length argv < 2 then Some (-1, [Fb_usage], [])
      else if \<not> opens dev then Some (1, [Fb_open_error], [])
      else if fix_fails dev then Some (1, [Fb_fix_error], [])
      else case var_info dev of
        None \<Rightarrow> Some (1, [Fb_var_error], [])
      | Some mode \<Rightarrow>
          if argv ! 1 = ''set''
          then if length argv < 6 then None
               else let w = strtoul (argv ! 3); h = strtoul (argv ! 4); b = strtoul (argv ! 5)
                    in if w = 0 \<or> h = 0 \<or> b = 0 then Some (0, [Fb_usage], [])
                       else if put_fails dev then Some (1, [Fb_change w h b, Fb_put_error], [])
                       else map_option (\<lambda>(rc, out, m). (rc, Fb_change w h b # out, m)) (fb_test_run dev argv (w, h, b))
          else fb_test_run dev argv mode)"

subsection \<open>Lemmas\<close>

lemma mem_store_next:
  assumes "length xs = n" "n \<le> length m" "length pre = off"
  shows "mem_store off xs (pre @ m) = Some (pre @ xs @ drop n m)"
  using assms by (simp add: mem_store_def)

lemma length_le_bytes [simp]: "length (le_bytes n v) = n"
  by (simp add: le_bytes_def)

text \<open>At a whole number of bytes per pixel, a pixel is stored at its index.\<close>

definition pixel_bytes :: "fb_info \<Rightarrow> nat \<Rightarrow> bool" where
  "pixel_bytes fb b \<longleftrightarrow> b \<in> {1, 2, 3, 4} \<and> bits_per_pixel fb = of_nat (8 * b)"

lemma set_pixel_bytes:
  assumes "pixel_bytes fb b" "unat (pixel_index fb x y) * 3 < 2 ^ 32"
  shows "set_pixel fb x y c m = mem_store (unat (pixel_index fb x y) * b) (le_bytes b c) m"
proof -
  have "unat (pixel_index fb x y * 3) = unat (pixel_index fb x y) * 3"
    using assms(2) by (subst unat_mult_lem [THEN iffD1]) simp_all
  then show ?thesis using assms(1) by (auto simp: set_pixel_def pixel_bytes_def Let_def)
qed

lemma pixel_index_unat:
  assumes "y * unat (xres fb) + x < 2 ^ 32"
  shows "unat (pixel_index fb (of_nat x) (of_nat y)) = y * unat (xres fb) + x"
proof -
  have "pixel_index fb (of_nat x) (of_nat y) = of_nat (y * unat (xres fb) + x)"
    by (simp add: pixel_index_def)
  then show ?thesis using assms by (simp add: unsigned_of_nat take_bit_nat_eq_self del: of_nat_add of_nat_mult)
qed

text \<open>The bytes of the first \<^verbatim>\<open>k\<close> pixels in the order of the loops.\<close>

definition picture :: "fb_info \<Rightarrow> nat \<Rightarrow> nat \<Rightarrow> u8 list" where
  "picture fb b k = concat (map (\<lambda>i. le_bytes b
      (mire_color fb (of_nat (i mod unat (xres fb))) (of_nat (i div unat (xres fb))))) [0..<k])"

lemma picture_simps [simp]:
  "picture fb b 0 = []"
  "length (picture fb b k) = k * b"
  by (simp_all add: picture_def length_concat comp_def sum_list_triv)

lemma picture_Suc:
  "picture fb b (Suc k) = picture fb b k
     @ le_bytes b (mire_color fb (of_nat (k mod unat (xres fb))) (of_nat (k div unat (xres fb))))"
  by (simp add: picture_def)

lemma mire_row_ok:
  assumes "pixel_bytes fb b" "x + n = unat (xres fb)" "(y * unat (xres fb) + x + n) * 3 < 2 ^ 32"
    "(y * unat (xres fb) + x + n) * b \<le> length m"
  shows "mire_row fb y n x (picture fb b (y * unat (xres fb) + x) @ drop ((y * unat (xres fb) + x) * b) m)
      = Some (picture fb b (y * unat (xres fb) + x + n) @ drop ((y * unat (xres fb) + x + n) * b) m)"
  using assms(2-)
proof (induction n arbitrary: x)
  case (Suc n)
  let ?k = "y * unat (xres fb) + x"
  have x: "x < unat (xres fb)" using Suc.prems by simp
  then have dm: "?k mod unat (xres fb) = x" "?k div unat (xres fb) = y" by simp_all
  have i: "unat (pixel_index fb (of_nat x) (of_nat y)) = ?k"
    by (rule pixel_index_unat) (use Suc.prems in simp)
  have le: "Suc ?k * b \<le> length m"
    using Suc.prems(3) by (rule order_trans [rotated]) (simp add: mult_le_mono1)
  have "set_pixel fb (of_nat x) (of_nat y) (mire_color fb (of_nat x) (of_nat y))
          (picture fb b ?k @ drop (?k * b) m)
      = Some (picture fb b ?k @ le_bytes b (mire_color fb (of_nat x) (of_nat y)) @ drop b (drop (?k * b) m))"
    using Suc.prems le
    by (subst set_pixel_bytes [OF assms(1)]) (simp_all add: i mem_store_next)
  also have "\<dots> = Some (picture fb b (Suc ?k) @ drop (Suc ?k * b) m)"
    by (simp only: picture_Suc dm drop_drop append_assoc) (simp add: add.commute)
  finally show ?case using Suc.IH [of "Suc x"] Suc.prems by simp
qed simp

lemma mire_rows_ok:
  assumes "pixel_bytes fb b" "(y + n) * unat (xres fb) * 3 < 2 ^ 32" "(y + n) * unat (xres fb) * b \<le> length m"
  shows "mire_rows fb n y (picture fb b (y * unat (xres fb)) @ drop (y * unat (xres fb) * b) m)
      = Some (picture fb b ((y + n) * unat (xres fb)) @ drop ((y + n) * unat (xres fb) * b) m)"
  using assms(2-)
proof (induction n arbitrary: y)
  case (Suc n)
  have le: "(y * unat (xres fb) + unat (xres fb)) * c \<le> (y + Suc n) * unat (xres fb) * c" for c
    by (rule mult_le_mono1) (simp add: algebra_simps)
  have "mire_row fb y (unat (xres fb)) 0 (picture fb b (y * unat (xres fb)) @ drop (y * unat (xres fb) * b) m)
      = Some (picture fb b (Suc y * unat (xres fb)) @ drop (Suc y * unat (xres fb) * b) m)"
    using mire_row_ok [of fb b 0 "unat (xres fb)" y m, OF assms(1)]
      le_less_trans [OF le Suc.prems(1)] order_trans [OF le Suc.prems(2)]
    by (simp add: add.commute)
  then show ?case using Suc.IH [of "Suc y"] Suc.prems by simp
qed simp

text \<open>So \<^verbatim>\<open>mire\<close> returns, stays in the mapping and leaves what follows the screen as it was.\<close>

lemma mire_paints_screen:
  assumes "pixel_bytes fb b" "unat (xres fb) * unat (yres fb) * 3 < 2 ^ 32"
    "unat (xres fb) * unat (yres fb) * b \<le> length m"
  shows "mire fb m = Some (picture fb b (unat (yres fb) * unat (xres fb))
      @ drop (unat (yres fb) * unat (xres fb) * b) m)"
  using mire_rows_ok [of fb b 0 "unat (yres fb)" m] assms by (simp add: mire_def mult.commute)

lemma screensize_bytes:
  fixes xr yr bpp :: u32
  assumes "bpp = of_nat (8 * b)" "b \<in> {1, 2, 3, 4}" "unat xr * unat yr * (8 * b) < 2 ^ 32"
  shows "unat (xr * yr * bpp div 8) = unat xr * unat yr * b"
proof -
  have "xr * yr * bpp = of_nat (unat xr * unat yr * (8 * b))"
    by (simp add: assms(1))
  then have "unat (xr * yr * bpp) = unat xr * unat yr * (8 * b)"
    using assms(3) by (simp add: unsigned_of_nat take_bit_nat_eq_self del: of_nat_mult)
  then show ?thesis by (simp add: unat_div)
qed



text \<open>
  The usage text offers \<^verbatim>\<open>set\<close> as the second argument, the code looks for it in the first: the
  mode stays as it is, whatever numbers follow, and the picture is painted in the old mode.
\<close>

lemma set_changes_nothing:
  assumes "d \<noteq> ''set''"
  shows "fb_test_main dev (p # d # ''set'' # rest) = fb_test_main dev [p, d]"
  using assms by (simp add: fb_test_main_def fb_test_run_def Let_def split: option.splits)

text \<open>At four bits a pixel the address of the mapping is in the shift, so the picture is undefined.\<close>

lemma packed_pixel_undefined:
  "set_pixel \<lparr>bits_per_pixel = 4, xres = 2, yres = 2, fb_base_addr = 0x40100000\<rparr> 0 0 5 [0, 0] = None"
  by (simp add: set_pixel_def packed_pixel_def pixel_index_def)

end
