(* ===== verification/LedTests.thy ===== *)
theory LedTests
  imports Leds Replay
begin

text \<open>
  The programs that drive the LEDs, each run on the model of its driver: leds_drive_test.c,
  led_layering_test.c, leddrvtest.c of the 3.4.2 tree (the same text as firstdrvtest.c), and the LED
  driver of proc_mymsg/test_myprintk, which counts and logs its calls through \<^verbatim>\<open>myprintk\<close>, with its
  test program. \<^verbatim>\<open>minor\<close> is the device behind the name given to \<^verbatim>\<open>open\<close>, \<^verbatim>\<open>None\<close> when it cannot be opened.
\<close>

datatype led_said = Led_usage | Led_cant_open

subsection \<open>ledtest\<close>

definition ledtest_main ::
  "gpio_ops \<Rightarrow> (string \<Rightarrow> nat option) \<Rightarrow> string list \<Rightarrow> leds \<Rightarrow> led_said list \<times> leds" where
  "ledtest_main g minor argv s =
     (if length argv \<noteq> 3 then ([Led_usage], s)
      else case minor (argv ! 1) of
        None \<Rightarrow> ([Led_cant_open], s)
      | Some k \<Rightarrow>
          let s = snd (s3c24xx_leds_open g k s)
          in if argv ! 2 = ''on'' then ([], snd (s3c24xx_leds_write g k 0 s))
             else if argv ! 2 = ''off'' then ([], snd (s3c24xx_leds_write g k 1 s))
             else ([Led_usage], s))"

subsection \<open>Programs that write an int\<close>

text \<open>
  leddrvtest.c and led_layering_test.c go on when the device cannot be opened: the write then fails. They
  write the four bytes of \<^verbatim>\<open>val\<close>, in the order of the machine.
\<close>

definition int_bytes :: "u32 \<Rightarrow> u8 list" where
  "int_bytes v = map (\<lambda>i. ucast (drop_bit (8 * i) v)) [0, 1, 2, 3]"

definition on_off :: "string \<Rightarrow> u32" where
  "on_off arg = (if arg = ''on'' then 1 else 0)"

definition leddrvtest_main ::
  "bool \<Rightarrow> u8 list \<Rightarrow> string list \<Rightarrow> first_led \<Rightarrow> (led_said list \<times> first_led) option" where
  "leddrvtest_main opened junk argv s =
     (let s = (if opened then snd (led_drv_open s) else s);
          out = (if opened then [] else [Led_cant_open])
      in if length argv \<noteq> 2 then Some (out @ [Led_usage], s)
         else if opened then map_option (\<lambda>(_, s). (out, s)) (led_drv_write junk (int_bytes (on_off (argv ! 1))) s)
         else Some (out, s))"

definition s3c24xx_leds_test_main ::
  "bool \<Rightarrow> u8 list \<Rightarrow> string list \<Rightarrow> layered \<Rightarrow> (led_said list \<times> layered) option" where
  "s3c24xx_leds_test_main opened junk argv s =
     (let s = (if opened then snd (s3c24xx_layering_leds_open s) else s);
          out = (if opened then [] else [Led_cant_open])
      in if length argv \<noteq> 2 then Some (out @ [Led_usage], s)
         else if opened
         then map_option (\<lambda>(_, s). (out, s)) (s3c24xx_layering_leds_write junk (int_bytes (on_off (argv ! 1))) s)
         else Some (out, s))"

subsection \<open>The driver that logs its calls\<close>

text \<open>The two \<^verbatim>\<open>static int cnt\<close> count the opens and the writes.\<close>

record logged_led = first_led +
  open_cnt :: int
  write_cnt :: int

definition ascii :: "string \<Rightarrow> u8 list" where
  "ascii str = map of_char str"

definition cnt_line :: "string \<Rightarrow> int \<Rightarrow> u8 list" where
  "cnt_line what n = ascii what @ ascii '' : '' @ fmt_d n @ [10]"

definition first_drv_open_log :: "nat \<Rightarrow> nat \<Rightarrow> logged_led \<times> mylog \<Rightarrow> (int \<times> logged_led \<times> mylog) option" where
  "first_drv_open_log N tmp sm =
     (case sm of (s, m) \<Rightarrow>
        let s = s\<lparr>open_cnt := open_cnt s + 1\<rparr>
        in Option.bind (myprintk N tmp (cnt_line ''first_drv_open'' (open_cnt s)) m) (\<lambda>(_, m).
             let s = s\<lparr>gpfcon := clear_mask (push_bit (4*2) 0x3 OR push_bit (5*2) 0x3 OR push_bit (6*2) 0x3) (gpfcon s)\<rparr>;
                 s = s\<lparr>gpfcon := set_mask (push_bit (4*2) 0x1 OR push_bit (5*2) 0x1 OR push_bit (6*2) 0x1) (gpfcon s)\<rparr>
             in Some (0, s, m)))"

definition first_drv_write_log ::
  "nat \<Rightarrow> nat \<Rightarrow> u8 list \<Rightarrow> u8 list \<Rightarrow> logged_led \<times> mylog \<Rightarrow> (int \<times> logged_led \<times> mylog) option" where
  "first_drv_write_log N tmp junk buf sm =
     (case sm of (s, m) \<Rightarrow>
        let s = s\<lparr>write_cnt := write_cnt s + 1\<rparr>
        in Option.bind (myprintk N tmp (cnt_line ''first_drv_write'' (write_cnt s)) m) (\<lambda>(_, m).
             map_option (\<lambda>val. (0, if val = 1
               then s\<lparr>gpfdat := clear_mask (push_bit 4 1 OR push_bit 5 1 OR push_bit 6 1) (gpfdat s)\<rparr>
               else s\<lparr>gpfdat := set_mask (push_bit 4 1 OR push_bit 5 1 OR push_bit 6 1) (gpfdat s)\<rparr>, m))
             (user_int junk buf)))"

definition first_drv_init_log :: "nat \<Rightarrow> nat \<Rightarrow> nat \<Rightarrow> logged_led \<times> mylog \<Rightarrow> (int \<times> logged_led \<times> mylog) option" where
  "first_drv_init_log N tmp major sm =
     (case sm of (s, m) \<Rightarrow>
        map_option (\<lambda>(_, m). (0, emit [Register_chrdev major, Class_create ''firstdrv'', Device_create major 0,
              Ioremap 0x56000050 16] s, m))
          (myprintk N tmp (ascii ''first_drv_init'' @ [10]) m))"

definition first_drv_exit_log :: "nat \<Rightarrow> kcall list" where
  "first_drv_exit_log major =
     [Unregister_chrdev major, Device_destroy major 0, Class_destroy ''firstdrv'', Iounmap 0x56000050]"

text \<open>Its test program, firstdrvtest.c.\<close>

definition firstdrvtest_main ::
  "nat \<Rightarrow> nat \<Rightarrow> bool \<Rightarrow> u8 list \<Rightarrow> string list \<Rightarrow> logged_led \<times> mylog \<Rightarrow> (led_said list \<times> logged_led \<times> mylog) option" where
  "firstdrvtest_main N tmp opened junk argv sm =
     (if opened
      then Option.bind (first_drv_open_log N tmp sm) (\<lambda>(_, sm).
             if length argv \<noteq> 2 then Some ([Led_usage], sm)
             else map_option (\<lambda>(_, sm). ([], sm))
                    (first_drv_write_log N tmp junk (int_bytes (on_off (argv ! 1))) sm))
      else Some (Led_cant_open # (if length argv \<noteq> 2 then [Led_usage] else []), sm))"

subsection \<open>Lemmas\<close>

lemma user_int_bytes: "user_int junk (int_bytes (on_off a)) = Some (on_off a)"
proof -
  have "int_of_bytes (int_bytes 1) = 1" "int_of_bytes (int_bytes 0) = 0" by code_simp+
  then show ?thesis by (auto simp: user_int_def on_off_def int_bytes_def)
qed

lemma cnt_line_fits:
  assumes "0 \<le> n" "n < 10 ^ 9" "length what \<le> 15"
  shows "length (cnt_line what n) \<le> 28"
proof -
  have "nat n < 10 ^ 9" using assms by (simp add: nat_less_iff)
  then have "length (fmt_nat (nat n)) \<le> 9" using length_fmt_nat [of "nat n" 8] by simp
  then show ?thesis using assms by (simp add: cnt_line_def ascii_def fmt_d_def)
qed

lemma myprintk_view:
  assumes "mylog_inv N m" "length msg < tmp"
  obtains m' where "myprintk N tmp msg m = Some (int (length msg), m')" "mylog_inv N m'"
    "log_view N m' = keep (N - 1) (log_view N m @ msg)"
  using assms mylog.inv_puts [OF assms(1), of msg] mylog.view_puts [OF assms(1), of msg]
  by (auto simp: myprintk_def)

text \<open>What the LEDs show: pins 4, 5 and 6 are outputs, and low exactly when lit.\<close>

definition shows_leds :: "bool \<Rightarrow> 'a first_led_scheme \<Rightarrow> bool" where
  "shows_leds lit s \<longleftrightarrow> (\<forall>n \<in> {4, 5, 6}. bit (gpfdat s) n \<longleftrightarrow> \<not> lit)
     \<and> (\<forall>n \<in> {4, 5, 6}. bit (gpfcon s) (2 * n) \<and> \<not> bit (gpfcon s) (2 * n + 1))"

lemma led_masks:
  assumes "n \<in> {4, 5, 6}"
  shows "bit (push_bit 4 1 OR push_bit 5 1 OR push_bit 6 1 :: u32) n"
    "bit (push_bit (4*2) 0x1 OR push_bit (5*2) 0x1 OR push_bit (6*2) 0x1 :: u32) (2 * n)"
    "\<not> bit (push_bit (4*2) 0x1 OR push_bit (5*2) 0x1 OR push_bit (6*2) 0x1 :: u32) (2 * n + 1)"
    "bit (push_bit (4*2) 0x3 OR push_bit (5*2) 0x3 OR push_bit (6*2) 0x3 :: u32) (2 * n + 1)"
proof -
  have "list_all (\<lambda>n. bit (push_bit 4 1 OR push_bit 5 1 OR push_bit 6 1 :: u32) n
      \<and> bit (push_bit (4*2) 0x1 OR push_bit (5*2) 0x1 OR push_bit (6*2) 0x1 :: u32) (2 * n)
      \<and> \<not> bit (push_bit (4*2) 0x1 OR push_bit (5*2) 0x1 OR push_bit (6*2) 0x1 :: u32) (2 * n + 1)
      \<and> bit (push_bit (4*2) 0x3 OR push_bit (5*2) 0x3 OR push_bit (6*2) 0x3 :: u32) (2 * n + 1)) [4, 5, 6]"
    by code_simp
  then show "bit (push_bit 4 1 OR push_bit 5 1 OR push_bit 6 1 :: u32) n"
    "bit (push_bit (4*2) 0x1 OR push_bit (5*2) 0x1 OR push_bit (6*2) 0x1 :: u32) (2 * n)"
    "\<not> bit (push_bit (4*2) 0x1 OR push_bit (5*2) 0x1 OR push_bit (6*2) 0x1 :: u32) (2 * n + 1)"
    "bit (push_bit (4*2) 0x3 OR push_bit (5*2) 0x3 OR push_bit (6*2) 0x3 :: u32) (2 * n + 1)"
    using assms unfolding list_all_iff set_simps by blast+
qed

lemma shows_leds_masks:
  assumes "\<And>n. n \<in> {4, 5, 6} \<Longrightarrow> bit D n \<and> bit A (2 * n) \<and> \<not> bit A (2 * n + 1) \<and> bit B (2 * n + 1)"
    and "gpfdat s = (if lit then clear_mask D d else set_mask D d)" "gpfcon s = set_mask A (clear_mask B c)"
  shows "shows_leds lit s"
  unfolding shows_leds_def assms(2,3) using assms(1) by (auto simp add: bit_set_mask bit_clear_mask)

text \<open>One run of the test program with one argument, the device being there.\<close>

lemma firstdrvtest_step:
  assumes "mylog_inv N m" "100 \<le> tmp" "0 \<le> open_cnt s" "open_cnt s < 10 ^ 8" "0 \<le> write_cnt s" "write_cnt s < 10 ^ 8"
  obtains s' m' where "firstdrvtest_main N tmp True junk [prog, a] (s, m) = Some ([], s', m')" "mylog_inv N m'"
    "log_view N m' = keep (N - 1) (log_view N m @ cnt_line ''first_drv_open'' (open_cnt s + 1)
        @ cnt_line ''first_drv_write'' (write_cnt s + 1))"
    "open_cnt s' = open_cnt s + 1" "write_cnt s' = write_cnt s + 1" "shows_leds (a = ''on'') s'" "kt s' = kt s"
proof -
  let ?o = "cnt_line ''first_drv_open'' (open_cnt s + 1)" and ?w = "cnt_line ''first_drv_write'' (write_cnt s + 1)"
  have "length ?o \<le> 28" "length ?w \<le> 28" using assms(3-6) by (auto intro: cnt_line_fits)
  then have fits: "length ?o < tmp" "length ?w < tmp" using assms(2) by linarith+
  obtain m1 where m1: "myprintk N tmp (cnt_line ''first_drv_open'' (open_cnt s + 1)) m
        = Some (int (length (cnt_line ''first_drv_open'' (open_cnt s + 1))), m1)" "mylog_inv N m1"
    "log_view N m1 = keep (N - 1) (log_view N m @ cnt_line ''first_drv_open'' (open_cnt s + 1))"
    by (rule myprintk_view [OF assms(1) fits(1)])
  obtain m2 where m2: "myprintk N tmp (cnt_line ''first_drv_write'' (write_cnt s + 1)) m1
        = Some (int (length (cnt_line ''first_drv_write'' (write_cnt s + 1))), m2)" "mylog_inv N m2"
    "log_view N m2 = keep (N - 1) (log_view N m1 @ cnt_line ''first_drv_write'' (write_cnt s + 1))"
    by (rule myprintk_view [OF m1(2) fits(2)])
  show thesis
  proof (rule that [OF _ m2(2)])
    let ?s = "s\<lparr>open_cnt := open_cnt s + 1, gpfcon := set_mask (push_bit (4*2) 0x1 OR push_bit (5*2) 0x1 OR push_bit (6*2) 0x1)
          (clear_mask (push_bit (4*2) 0x3 OR push_bit (5*2) 0x3 OR push_bit (6*2) 0x3) (gpfcon s)),
        write_cnt := write_cnt s + 1, gpfdat := (if a = ''on'' then clear_mask (push_bit 4 1 OR push_bit 5 1 OR push_bit 6 1) (gpfdat s)
          else set_mask (push_bit 4 1 OR push_bit 5 1 OR push_bit 6 1) (gpfdat s))\<rparr>"
    show "firstdrvtest_main N tmp True junk [prog, a] (s, m) = Some ([], ?s, m2)"
      using m1(1) m2(1) user_int_bytes [of junk "''on''"] user_int_bytes [of junk "[]"]
      by (simp add: firstdrvtest_main_def first_drv_open_log_def first_drv_write_log_def Let_def on_off_def)
    show "shows_leds (a = ''on'') ?s"
      by (rule shows_leds_masks [where D = "push_bit 4 1 OR push_bit 5 1 OR push_bit 6 1"
            and A = "push_bit (4*2) 0x1 OR push_bit (5*2) 0x1 OR push_bit (6*2) 0x1"
            and B = "push_bit (4*2) 0x3 OR push_bit (5*2) 0x3 OR push_bit (6*2) 0x3" and c = "gpfcon s" and d = "gpfdat s"])
        (intro conjI led_masks, simp_all)
  qed (simp_all add: m1(3) m2(3) keep_append_keep)
qed

fun test_runs ::
  "nat \<Rightarrow> nat \<Rightarrow> u8 list \<Rightarrow> string list \<Rightarrow> logged_led \<times> mylog \<Rightarrow> (logged_led \<times> mylog) option" where
  "test_runs N tmp junk [] sm = Some sm"
| "test_runs N tmp junk (a # as) sm =
     Option.bind (firstdrvtest_main N tmp True junk [''firstdrvtest'', a] sm) (\<lambda>(_, sm). test_runs N tmp junk as sm)"

definition run_lines :: "nat \<Rightarrow> nat \<Rightarrow> u8 list" where
  "run_lines k n = concat (map (\<lambda>i. cnt_line ''first_drv_open'' (int i + 1) @ cnt_line ''first_drv_write'' (int i + 1))
     [k..<n])"

lemma test_runs_log:
  assumes "mylog_inv N m" "100 \<le> tmp" "open_cnt s = int k" "write_cnt s = int k" "k + length as < 10 ^ 8"
  shows "\<exists>s' m'. test_runs N tmp junk as (s, m) = Some (s', m') \<and> mylog_inv N m' \<and> kt s' = kt s
    \<and> log_view N m' = keep (N - 1) (log_view N m @ run_lines k (k + length as))
    \<and> (as \<noteq> [] \<longrightarrow> shows_leds (last as = ''on'') s')"
  using assms
proof (induction as arbitrary: s m k)
  case Nil
  then show ?case using view_lengths by (auto simp: run_lines_def)
next
  case (Cons a as)
  from Cons.prems have c: "open_cnt s < 10 ^ 8" "write_cnt s < 10 ^ 8" by auto
  obtain s1 m1 where s1: "firstdrvtest_main N tmp True junk [''firstdrvtest'', a] (s, m) = Some ([], s1, m1)"
    "mylog_inv N m1" "log_view N m1 = keep (N - 1) (log_view N m @ cnt_line ''first_drv_open'' (open_cnt s + 1)
        @ cnt_line ''first_drv_write'' (write_cnt s + 1))"
    "open_cnt s1 = open_cnt s + 1" "write_cnt s1 = write_cnt s + 1" "shows_leds (a = ''on'') s1" "kt s1 = kt s"
    using firstdrvtest_step [OF Cons.prems(1,2) _ c(1) _ c(2), of junk "''firstdrvtest''" a] Cons.prems(3,4) by auto
  have "k + 1 + length as < 10 ^ 8" using Cons.prems(5) by simp
  with Cons.IH [OF s1(2) Cons.prems(2), of s1 "k + 1"] s1(4,5) Cons.prems(3,4)
  obtain s' m' where r: "test_runs N tmp junk as (s1, m1) = Some (s', m')" "mylog_inv N m'" "kt s' = kt s1"
    "log_view N m' = keep (N - 1) (log_view N m1 @ run_lines (k + 1) (k + 1 + length as))"
    "as \<noteq> [] \<longrightarrow> shows_leds (last as = ''on'') s'" by auto
  have "run_lines k (k + length (a # as)) = cnt_line ''first_drv_open'' (int k + 1)
      @ cnt_line ''first_drv_write'' (int k + 1) @ run_lines (k + 1) (k + 1 + length as)"
    by (simp add: run_lines_def upt_conv_Cons del: upt_Suc)
  then have "log_view N m' = keep (N - 1) (log_view N m @ run_lines k (k + length (a # as)))"
    using r(4) s1(3) Cons.prems(3,4) by (simp add: keep_append_keep)
  moreover have "shows_leds (last (a # as) = ''on'') s'"
    using r(1,5) s1(6) by (cases "as = []") auto
  ultimately show ?case using r(1-3) s1(1,7) by auto
qed

subsection \<open>Properties\<close>

text \<open>
  C24. The logging LED driver and its test program: after the module was loaded onto an empty log and the
  program was run any number of times, each time with any one argument, nothing overran a buffer, the
  log holds the last \<^verbatim>\<open>N - 1\<close> bytes of the load line followed by an open line and a write line for every run,
  numbered from 1 on, and the three LEDs are on exactly when the last argument was \<^verbatim>\<open>on\<close>.
\<close>

theorem logged_runs:
  assumes "mylog_inv N m" "log_view N m = []" "100 \<le> tmp" "open_cnt s = 0" "write_cnt s = 0" "length as < 10 ^ 8"
  shows "\<exists>s0 m0 s' m'. first_drv_init_log N tmp major (s, m) = Some (0, s0, m0)
    \<and> test_runs N tmp junk as (s0, m0) = Some (s', m')
    \<and> log_view N m' = keep (N - 1) (ascii ''first_drv_init'' @ [10] @ run_lines 0 (length as))
    \<and> (as \<noteq> [] \<longrightarrow> shows_leds (last as = ''on'') s')"
proof -
  have "length (ascii ''first_drv_init'' @ [10]) < tmp" using assms(3) by (simp add: ascii_def)
  then obtain m0 where m0: "myprintk N tmp (ascii ''first_drv_init'' @ [10]) m
      = Some (int (length (ascii ''first_drv_init'' @ [10])), m0)" "mylog_inv N m0"
    "log_view N m0 = keep (N - 1) (log_view N m @ ascii ''first_drv_init'' @ [10])"
    by (rule myprintk_view [OF assms(1)])
  define s0 where "s0 = emit [Register_chrdev major, Class_create ''firstdrv'', Device_create major 0,
      Ioremap 0x56000050 16] s"
  have "open_cnt s0 = int 0" "write_cnt s0 = int 0" using assms(4,5) by (simp_all add: s0_def emit_def)
  then obtain s' m' where "test_runs N tmp junk as (s0, m0) = Some (s', m')"
    "log_view N m' = keep (N - 1) (log_view N m0 @ run_lines 0 (0 + length as))"
    "as \<noteq> [] \<longrightarrow> shows_leds (last as = ''on'') s'"
    using test_runs_log [OF m0(2) assms(3), of s0 0 as junk] assms(6) by auto
  moreover have "first_drv_init_log N tmp major (s, m) = Some (0, s0, m0)"
    using m0(1) by (simp add: first_drv_init_log_def s0_def)
  ultimately show ?thesis using m0(3) assms(2) by (auto simp: keep_append_keep)
qed

definition dark :: logged_led where
  "dark = \<lparr>kt = [], gpfcon = 0, gpfdat = 0, open_cnt = 0, write_cnt = 0\<rparr>"

lemma logged_runs_witness:
  "\<exists>s0 m0 s' m'. first_drv_init_log 1024 1024 250 (dark, mylog_start 1024) = Some (0, s0, m0)
    \<and> test_runs 1024 1024 [] [''on'', ''off''] (s0, m0) = Some (s', m') \<and> shows_leds (''off'' = ''on'') s'"
proof -
  have "mylog_inv 1024 (mylog_start 1024)" "log_view 1024 (mylog_start 1024) = []"
    using mylog_start_inv [of 1024] by simp_all
  from logged_runs [OF this, of 1024 dark "[''on'', ''off'']" 250 "[]"] show ?thesis
    by (auto simp: dark_def)
qed

text \<open>\<^verbatim>\<open>ledtest\<close> lights the LED of its device with \<^verbatim>\<open>on\<close> and puts it out with \<^verbatim>\<open>off\<close>.\<close>

lemma ledtest_lights:
  assumes "gpio_ok g" "minor d = Some (k + 1)" "k < 3"
  shows "\<not> bit (GPFDAT (snd (ledtest_main g minor [prog, d, ''on''] s))) (k + 4)"
    "bit (GPFDAT (snd (ledtest_main g minor [prog, d, ''off''] s))) (k + 4)"
proof -
  have "k = 0 \<or> k = 1 \<or> k = 2" using assms(3) by auto
  then show "\<not> bit (GPFDAT (snd (ledtest_main g minor [prog, d, ''on''] s))) (k + 4)"
    "bit (GPFDAT (snd (ledtest_main g minor [prog, d, ''off''] s))) (k + 4)"
    using assms(1,2)
    by (auto simp: ledtest_main_def s3c24xx_leds_open_def s3c24xx_leds_write_def gpio_ok_def Let_def)
qed

end
