(* ===== verification/KeyTests.thy ===== *)
theory KeyTests
  imports KeyDrivers
begin

text \<open>
  The programs that read the keys, each run on its driver: keytest.c, key_interrupttest.c,
  key_interrupt_polltest.c, key_interrupt_fasynctest.c, key_interrupt_fasync_mutextest.c,
  key_anti_shake_alltest.c and buttons_driver_test.c. They loop for ever; a run here is a list of turns, an
  interrupt or a moment at which the program can go on, and the result is what it has printed so far. The
  drivers never fault the copy, and no signal but the one of the fasync programs arrives.
\<close>

subsection \<open>keytest: polling\<close>

text \<open>
  One element of the list for each read: what the two data registers hold then. A device that cannot be
  opened leaves \<^verbatim>\<open>key_vals\<close> as it was, and the program prints from it all the same.
\<close>

fun keytest_loop :: "bool \<Rightarrow> (u32 \<times> u32) list \<Rightarrow> u8 list \<Rightarrow> nat \<Rightarrow> (nat \<times> u8 list) list" where
  "keytest_loop opened [] key_vals cnt = []"
| "keytest_loop opened ((gpfdat, gpgdat) # reads) key_vals cnt =
     (let key_vals = (if opened then snd (second_drv_read gpfdat gpgdat False 4) else key_vals)
      in if 0 \<in> set key_vals then (cnt, key_vals) # keytest_loop opened reads key_vals (cnt + 1)
         else keytest_loop opened reads key_vals cnt)"

text \<open>A line is printed for exactly the reads at which a key is down, in order and numbered from 0.\<close>

lemma keytest_prints:
  "keytest_loop True reads key_vals cnt
     = zip [cnt..<cnt + length reads] (filter (\<lambda>vs. 0 \<in> set vs) (map (\<lambda>(f, g). snd (second_drv_read f g False 4)) reads))"
proof (induction reads arbitrary: key_vals cnt)
  case (Cons r reads)
  obtain f g where r: "r = (f, g)" by (cases r)
  have z: "zip [cnt..<cnt + length xs] ys = zip [cnt..<Suc (cnt + length xs)] ys"
    if "length ys \<le> length xs" for xs :: "(u32 \<times> u32) list" and ys :: "u8 list list"
    using that by (simp add: zip_append1)
  have n: "length (filter (\<lambda>vs. 0 \<in> set vs) (map (\<lambda>(f, g). snd (second_drv_read f g False 4)) reads)) \<le> length reads"
    using length_filter_le by (metis length_map)
  show ?case
    using Cons [of "snd (second_drv_read f g False 4)"] z [OF n]
    by (auto simp: r Let_def upt_conv_Cons simp del: upt_Suc)
qed simp

subsection \<open>Programs that wait\<close>

text \<open>
  An event is what the hardware does: an interrupt of one key with the levels at that time for the drivers
  without a timer, an edge or the expiry of the timer for those that debounce. \<^verbatim>\<open>Run\<close> is a moment at which
  the program runs until it waits again, \<^verbatim>\<open>Five_seconds\<close> the end of a wait of that length. \<^verbatim>\<open>kv\<close> is the
  memory of the program's variable \<^verbatim>\<open>key_val\<close>.
\<close>

datatype 'e turn = Ev 'e | Run | Five_seconds

datatype timer_event = Edge_of pin_desc | Timer_expires "string \<Rightarrow> u32"

datatype line = Key u8 | Key_ret u8 int | Time_out

type_synonym irq = "(string \<Rightarrow> u32) \<times> pin_desc"

text \<open>A read of one byte and the line after it. A read that waits prints nothing yet.\<close>

definition read_and_print ::
  "(u8 \<Rightarrow> int \<Rightarrow> line) \<Rightarrow> (int \<times> u8 list \<times> keys) syscall \<Rightarrow> u8 \<Rightarrow> keys \<Rightarrow> line list \<times> u8 \<times> keys" where
  "read_and_print ln rd kv s =
     (case rd of
        Sleep \<Rightarrow> ([], kv, s)
      | Ret (ret, bs, s') \<Rightarrow>
          let kv = (if bs = [] then kv else hd bs)
          in ([ln kv (if ret < 0 then -1 else ret)], kv, s'))"

text \<open>key_interrupttest.c. After a read the next one waits, so the program prints one line when it runs.\<close>

definition interrupttest_turn :: "irq turn \<Rightarrow> u8 \<Rightarrow> keys \<Rightarrow> line list \<times> u8 \<times> keys" where
  "interrupttest_turn t kv s =
     (case t of
        Ev (gpio, d) \<Rightarrow> ([], kv, buttons_irq_third gpio d s)
      | Run \<Rightarrow> read_and_print (\<lambda>k r. Key k) (third_drv_read False False 1 s) kv s
      | Five_seconds \<Rightarrow> ([], kv, s))"

text \<open>
  key_interrupt_polltest.c: the kernel asks the driver when the program waits, when it is woken and when the
  time is over.
\<close>

definition polltest_turn :: "irq turn \<Rightarrow> u8 \<Rightarrow> keys \<Rightarrow> line list \<times> u8 \<times> keys" where
  "polltest_turn t kv s =
     (case t of
        Ev (gpio, d) \<Rightarrow> ([], kv, buttons_irq_forth gpio d s)
      | _ \<Rightarrow> (case forth_drv_poll s of (revents, s) \<Rightarrow>
          if revents AND 0x0001 \<noteq> 0 then read_and_print (\<lambda>k r. Key k) (forth_drv_read False False 1 s) kv s
          else (if t = Five_seconds then [Time_out] else [], kv, s)))"

text \<open>
  key_interrupt_fasynctest.c: the program sleeps, \<^verbatim>\<open>my_signal_fun\<close> runs once for the signals that arrived
  since it last ran. A signal arrives when the driver calls \<^verbatim>\<open>kill_fasync\<close>; the second component of the
  state tells that one waits.
\<close>

definition signalled :: "keys \<Rightarrow> keys \<Rightarrow> bool" where
  "signalled s s' = (Kill_fasync ''button_async'' \<in> set (drop (length (kt s)) (kt s')))"

definition fasynctest_turn :: "irq turn \<Rightarrow> u8 \<Rightarrow> keys \<times> bool \<Rightarrow> line list \<times> u8 \<times> keys \<times> bool" where
  "fasynctest_turn t kv sp =
     (case sp of (s, pend) \<Rightarrow> (case t of
        Ev (gpio, d) \<Rightarrow> (let s' = buttons_irq_fifth gpio d s in ([], kv, s', pend \<or> signalled s s'))
      | Run \<Rightarrow> if pend then (case read_and_print (\<lambda>k r. Key k) (fifth_drv_read False False 1 s) kv s of
                 (out, kv, s) \<Rightarrow> (out, kv, s, False)) else ([], kv, s, pend)
      | Five_seconds \<Rightarrow> ([], kv, s, pend)))"

text \<open>
  key_interrupt_fasync_mutextest.c: a read that does not wait, every five seconds. The C library turns
  an error into -1, and the line then shows what \<^verbatim>\<open>key_val\<close> held before.
\<close>

definition mutextest_turn :: "irq turn \<Rightarrow> u8 \<Rightarrow> keys \<Rightarrow> line list \<times> u8 \<times> keys" where
  "mutextest_turn t kv s =
     (case t of
        Ev (gpio, d) \<Rightarrow> ([], kv, buttons_irq_sixth gpio d s)
      | Run \<Rightarrow> ([], kv, s)
      | Five_seconds \<Rightarrow> read_and_print Key_ret (sixth_drv_read True False False 1 s) kv s)"

text \<open>key_anti_shake_alltest.c waits in its read, buttons_driver_test.c for the signal.\<close>

definition shaketest_turn :: "timer_event turn \<Rightarrow> u8 \<Rightarrow> keys \<Rightarrow> line list \<times> u8 \<times> keys" where
  "shaketest_turn t kv s =
     (case t of
        Ev (Edge_of d) \<Rightarrow> ([], kv, buttons_irq_shake d s)
      | Ev (Timer_expires gpio) \<Rightarrow> ([], kv, buttons_timer_function gpio s)
      | Run \<Rightarrow> read_and_print Key_ret (sixth_drv_read_shake False False False 1 s) kv s
      | Five_seconds \<Rightarrow> ([], kv, s))"

definition buttons_test_turn ::
  "timer_event turn \<Rightarrow> u8 \<Rightarrow> keys \<times> bool \<Rightarrow> line list \<times> u8 \<times> keys \<times> bool" where
  "buttons_test_turn t kv sp =
     (case sp of (s, pend) \<Rightarrow> (case t of
        Ev (Edge_of d) \<Rightarrow>
          (let s' = s3c24xx_buttons_irq d s in ([], kv, s', pend \<or> signalled s s'))
      | Ev (Timer_expires gpio) \<Rightarrow>
          (let s' = s3c24xx_buttons_timer_function gpio s in ([], kv, s', pend \<or> signalled s s'))
      | Run \<Rightarrow> if pend then
            (case read_and_print (\<lambda>k r. Key k) (s3c24xx_buttons_drv_read True False False 1 s) kv s of
               (out, kv, s) \<Rightarrow> (out, kv, s, False)) else ([], kv, s, pend)
      | Five_seconds \<Rightarrow> ([], kv, s, pend)))"

fun key_session :: "('t \<Rightarrow> u8 \<Rightarrow> 's \<Rightarrow> line list \<times> u8 \<times> 's) \<Rightarrow> 't list \<Rightarrow> u8 \<Rightarrow> 's \<Rightarrow> line list" where
  "key_session step [] kv s = []"
| "key_session step (t # ts) kv s =
     (case step t kv s of (out, kv, s) \<Rightarrow> out @ key_session step ts kv s)"

subsection \<open>A letter box of one place\<close>

text \<open>
  What a user expects of all of them: the last key is kept until the program takes it. The box also holds
  the key that awaits its timer. \<^verbatim>\<open>goes\<close> says when the program looks, \<^verbatim>\<open>ln\<close> the line for a key,
  \<^verbatim>\<open>idle\<close> what it prints when there is none.
\<close>

type_synonym box = "pin_desc option \<times> u8 option"

definition code_of :: "(string \<Rightarrow> u32) \<Rightarrow> pin_desc \<Rightarrow> u8" where
  "code_of gpio d = (if gpio (pin d) \<noteq> 0 then ucast (0x80 OR pin_key d) else ucast (pin_key d))"

fun post_irq :: "irq \<Rightarrow> box \<Rightarrow> box" where
  "post_irq (gpio, d) (pd, slot) = (pd, Some (code_of gpio d))"

fun post_timer :: "timer_event \<Rightarrow> box \<Rightarrow> box" where
  "post_timer (Edge_of d) (pd, slot) = (Some d, slot)"
| "post_timer (Timer_expires gpio) (pd, slot) =
     (pd, case pd of None \<Rightarrow> slot | Some d \<Rightarrow> Some (code_of gpio d))"

definition box_turn ::
  "('e \<Rightarrow> box \<Rightarrow> box) \<Rightarrow> 'e turn set \<Rightarrow> (u8 \<Rightarrow> line) \<Rightarrow> ('e turn \<Rightarrow> u8 \<Rightarrow> line list)
     \<Rightarrow> 'e turn \<Rightarrow> u8 \<Rightarrow> box \<Rightarrow> line list \<times> u8 \<times> box" where
  "box_turn post goes ln idle t kv b =
     (case t of
        Ev e \<Rightarrow> ([], kv, post e b)
      | _ \<Rightarrow> if t \<in> goes
             then (case snd b of None \<Rightarrow> (idle t kv, kv, b) | Some k \<Rightarrow> ([ln k], k, (fst b, None)))
             else ([], kv, b))"

definition box_of :: "keys \<Rightarrow> box" where
  "box_of s = (irq_pd s, if ev_press s then Some (key_val s) else None)"

text \<open>A run of the program prints what a run over the abstract state prints when every turn does.\<close>

lemma key_session_simulated:
  assumes "\<And>t kv s b. R s b \<Longrightarrow>
      \<exists>out kv' s' b'. step t kv s = (out, kv', s') \<and> spec t kv b = (out, kv', b') \<and> R s' b'"
    and "R s b"
  shows "key_session step ts kv s = key_session spec ts kv b"
  using assms(2)
proof (induction ts arbitrary: kv s b)
  case (Cons t ts)
  obtain out kv' s' b' where "step t kv s = (out, kv', s')" "spec t kv b = (out, kv', b')" "R s' b'"
    using assms(1) [OF Cons.prems] by blast
  with Cons.IH show ?case by simp
qed simp

lemma taken_box: "box_of (s\<lparr>ev_press := False\<rparr>) = (fst (box_of s), None)"
  by (simp add: box_of_def)

text \<open>
  What a program relies on in its driver: an event changes the letter box as it should, and a read takes the
  key that is there, otherwise it waits or fails.
\<close>

locale key_reader =
  fixes event :: "'e \<Rightarrow> keys \<Rightarrow> keys"
    and post :: "'e \<Rightarrow> box \<Rightarrow> box"
    and read_one :: "keys \<Rightarrow> (int \<times> u8 list \<times> keys) syscall"
    and err :: "int option"
  assumes posts: "box_of (event e s) = post e (box_of s)"
    and takes: "ev_press s \<Longrightarrow> read_one s = Ret (1, [key_val s], s\<lparr>ev_press := False\<rparr>)"
    and waits: "\<not> ev_press s \<Longrightarrow> read_one s = (case err of None \<Rightarrow> Sleep | Some r \<Rightarrow> Ret (r, [], s))"
begin

lemma prints:
  "read_and_print ln (read_one s) kv s = (case snd (box_of s) of
     Some k \<Rightarrow> ([ln k 1], k, s\<lparr>ev_press := False\<rparr>)
   | None \<Rightarrow> (case err of None \<Rightarrow> [] | Some r \<Rightarrow> [ln kv (if r < 0 then -1 else r)], kv, s))"
  by (simp add: box_of_def read_and_print_def takes waits Let_def split: option.splits)

text \<open>A program that reads at the turns in \<^verbatim>\<open>goes\<close>.\<close>

lemma reader_session:
  assumes "\<And>e kv s. step (Ev e) kv s = ([], kv, event e s)"
    and "\<And>t kv s. t \<in> {Run, Five_seconds} \<inter> goes \<Longrightarrow> step t kv s = read_and_print ln (read_one s) kv s"
    and "\<And>t kv s. t \<in> {Run, Five_seconds} - goes \<Longrightarrow> step t kv s = ([], kv, s)"
    and "\<And>t kv. idle t kv = (case err of None \<Rightarrow> [] | Some r \<Rightarrow> [ln kv (if r < 0 then -1 else r)])"
  shows "key_session step ts kv s = key_session (box_turn post goes (\<lambda>k. ln k 1) idle) ts kv (box_of s)"
proof (rule key_session_simulated [where R = "\<lambda>s b. b = box_of s"])
  fix t kv s b assume b: "b = box_of s"
  have go: "\<exists>out kv' s' b'. read_and_print ln (read_one s) kv s = (out, kv', s')
      \<and> box_turn post goes (\<lambda>k. ln k 1) idle t kv b = (out, kv', b') \<and> b' = box_of s'"
    if "t \<in> {Run, Five_seconds} \<inter> goes"
    using that by (auto simp: prints b box_turn_def assms(4) taken_box prod_eq_iff split: option.splits)
  show "\<exists>out kv' s' b'. step t kv s = (out, kv', s')
      \<and> box_turn post goes (\<lambda>k. ln k 1) idle t kv b = (out, kv', b') \<and> b' = box_of s'"
  proof (cases "t \<in> {Run, Five_seconds} \<inter> goes")
    case False
    then show ?thesis
      using assms(1,3) by (cases t) (auto simp: b box_turn_def posts)
  qed (use go assms(2) in auto)
qed simp

text \<open>A program that reads in its signal handler: a signal waits as long as the box is full.\<close>

lemma signal_session:
  fixes step :: "'e turn \<Rightarrow> u8 \<Rightarrow> keys \<times> bool \<Rightarrow> line list \<times> u8 \<times> keys \<times> bool"
  assumes ev: "\<And>e kv s. step (Ev e) kv (s, ev_press s) = ([], kv, event e s, ev_press (event e s))"
    and full: "\<And>kv s. ev_press s
      \<Longrightarrow> step Run kv (s, True) = ([Key (key_val s)], key_val s, s\<lparr>ev_press := False\<rparr>, False)"
    and other: "\<And>kv s. step Run kv (s, False) = ([], kv, s, False)"
      "\<And>kv sp. step Five_seconds kv sp = ([], kv, sp)"
  shows "key_session step ts kv (s, ev_press s)
    = key_session (box_turn post {Run} Key (\<lambda>t kv. [])) ts kv (box_of s)"
proof (rule key_session_simulated [where R = "\<lambda>sp b. b = box_of (fst sp) \<and> snd sp = ev_press (fst sp)"])
  fix t kv sp b assume "b = box_of (fst sp) \<and> snd sp = ev_press (fst sp)"
  then obtain s where sp: "sp = (s, ev_press s)" and b: "b = box_of s" by (cases sp) auto
  show "\<exists>out kv' s' b'. step t kv sp = (out, kv', s')
      \<and> box_turn post {Run} Key (\<lambda>t kv. []) t kv b = (out, kv', b')
      \<and> b' = box_of (fst s') \<and> snd s' = ev_press (fst s')"
  proof (cases t)
    case (Ev e)
    then show ?thesis by (simp add: sp b box_turn_def ev posts)
  next
    case Run
    then show ?thesis
      by (cases "ev_press s") (simp_all add: sp b box_turn_def full other box_of_def)
  next
    case Five_seconds
    then show ?thesis by (simp add: sp b box_turn_def other)
  qed
qed simp

end

lemma emit_keys [simp]:
  "key_val (emit cs s) = key_val s" "ev_press (emit cs s) = ev_press s" "irq_pd (emit cs s) = irq_pd s"
  by (simp_all add: emit_def)

interpretation third_reader: key_reader "\<lambda>(gpio, d). buttons_irq_third gpio d" post_irq
    "third_drv_read False False 1" None
  by unfold_locales (auto simp: dev_defs key_parts box_of_def code_of_def)

interpretation forth_reader: key_reader "\<lambda>(gpio, d). buttons_irq_forth gpio d" post_irq
    "forth_drv_read False False 1" None
  by unfold_locales (auto simp: dev_defs key_parts box_of_def code_of_def)

interpretation fifth_reader: key_reader "\<lambda>(gpio, d). buttons_irq_fifth gpio d" post_irq
    "fifth_drv_read False False 1" None
  by unfold_locales (auto simp: dev_defs key_parts box_of_def code_of_def)

interpretation sixth_reader: key_reader "\<lambda>(gpio, d). buttons_irq_sixth gpio d" post_irq
    "sixth_drv_read True False False 1" "Some (- EAGAIN)"
  by unfold_locales (auto simp: dev_defs key_parts box_of_def code_of_def)

definition timer_event_shake :: "timer_event \<Rightarrow> keys \<Rightarrow> keys" where
  "timer_event_shake e = (case e of Edge_of d \<Rightarrow> buttons_irq_shake d | Timer_expires gpio \<Rightarrow> buttons_timer_function gpio)"

definition timer_event_buttons :: "timer_event \<Rightarrow> keys \<Rightarrow> keys" where
  "timer_event_buttons e = (case e of Edge_of d \<Rightarrow> s3c24xx_buttons_irq d
     | Timer_expires gpio \<Rightarrow> s3c24xx_buttons_timer_function gpio)"

interpretation shake_reader: key_reader timer_event_shake post_timer
    "sixth_drv_read_shake False False False 1" None
proof
  fix e s show "box_of (timer_event_shake e s) = post_timer e (box_of s)"
    by (cases e) (auto simp: timer_event_shake_def dev_defs key_parts box_of_def code_of_def split: option.splits)
qed (auto simp: dev_defs key_parts)

interpretation buttons_reader: key_reader timer_event_buttons post_timer
    "s3c24xx_buttons_drv_read True False False 1" "Some (- EAGAIN)"
proof
  fix e s show "box_of (timer_event_buttons e s) = post_timer e (box_of s)"
    by (cases e) (auto simp: timer_event_buttons_def dev_defs box_of_def code_of_def split: option.splits)
qed (auto simp: dev_defs)

lemma polltest_step:
  "\<exists>out kv' s'. polltest_turn t kv s = (out, kv', s')
     \<and> box_turn post_irq {Run, Five_seconds} Key (\<lambda>t kv. if t = Five_seconds then [Time_out] else []) t kv
         (box_of s) = (out, kv', box_of s')"
proof (cases t)
  case (Ev e)
  obtain gpio d where "e = (gpio, d)" by (cases e)
  then show ?thesis
    using forth_reader.posts [of e s] by (simp add: Ev polltest_turn_def box_turn_def)
next
  case Run
  then show ?thesis
    by (cases "ev_press s")
      (auto simp: polltest_turn_def box_turn_def forth_drv_poll_def poll_mask_def forth_reader.prints
        box_of_def simp del: One_nat_def)
next
  case Five_seconds
  then show ?thesis
    by (cases "ev_press s")
      (auto simp: polltest_turn_def box_turn_def forth_drv_poll_def poll_mask_def forth_reader.prints
        box_of_def simp del: One_nat_def)
qed

subsection \<open>Properties\<close>

text \<open>
  C21. Every program shows the keys as a letter box of one place would: the line is for the key whose event
  came last before the program ran, with the level read at that event, each key is shown at most once, and
  nothing else is printed, except that the poll program says "time out" when five seconds pass with
  an empty box, and the one that does not wait says -1 and repeats its old key then. So the way a program
  waits (sleeping, \<^verbatim>\<open>poll\<close>, a signal, every five seconds) makes no difference to what is shown when.
  With a debounce timer the key counts from the timer's expiry.
\<close>

theorem key_programs_show_last_key:
  "key_session interrupttest_turn ts kv s
     = key_session (box_turn post_irq {Run} Key (\<lambda>t kv. [])) ts kv (box_of s)
   \<and> key_session polltest_turn ts kv s
     = key_session (box_turn post_irq {Run, Five_seconds} Key
         (\<lambda>t kv. if t = Five_seconds then [Time_out] else [])) ts kv (box_of s)
   \<and> key_session fasynctest_turn ts kv (s, ev_press s)
     = key_session (box_turn post_irq {Run} Key (\<lambda>t kv. [])) ts kv (box_of s)
   \<and> key_session mutextest_turn ts kv s
     = key_session (box_turn post_irq {Five_seconds} (\<lambda>k. Key_ret k 1) (\<lambda>t kv. [Key_ret kv (-1)])) ts kv (box_of s)
   \<and> key_session shaketest_turn us kv s
     = key_session (box_turn post_timer {Run} (\<lambda>k. Key_ret k 1) (\<lambda>t kv. [])) us kv (box_of s)
   \<and> key_session buttons_test_turn us kv (s, ev_press s)
     = key_session (box_turn post_timer {Run} Key (\<lambda>t kv. [])) us kv (box_of s)"
proof (intro conjI)
  show "key_session interrupttest_turn ts kv s
      = key_session (box_turn post_irq {Run} Key (\<lambda>t kv. [])) ts kv (box_of s)"
    by (rule third_reader.reader_session [where ln = "\<lambda>k r. Key k"]) (auto simp: interrupttest_turn_def)
  show "key_session mutextest_turn ts kv s
      = key_session (box_turn post_irq {Five_seconds} (\<lambda>k. Key_ret k 1) (\<lambda>t kv. [Key_ret kv (-1)])) ts kv (box_of s)"
    by (rule sixth_reader.reader_session [where ln = Key_ret]) (auto simp: mutextest_turn_def)
  show "key_session shaketest_turn us kv s
      = key_session (box_turn post_timer {Run} (\<lambda>k. Key_ret k 1) (\<lambda>t kv. [])) us kv (box_of s)"
    by (rule shake_reader.reader_session [where ln = Key_ret])
      (auto simp: shaketest_turn_def timer_event_shake_def split: timer_event.splits)
  show "key_session polltest_turn ts kv s
     = key_session (box_turn post_irq {Run, Five_seconds} Key
         (\<lambda>t kv. if t = Five_seconds then [Time_out] else [])) ts kv (box_of s)"
  proof (rule key_session_simulated [where R = "\<lambda>s b. b = box_of s"])
    fix t kv s b assume "b = box_of s"
    then show "\<exists>out kv' s' b'. polltest_turn t kv s = (out, kv', s')
        \<and> box_turn post_irq {Run, Five_seconds} Key
            (\<lambda>t kv. if t = Five_seconds then [Time_out] else []) t kv b = (out, kv', b') \<and> b' = box_of s'"
      using polltest_step [of t kv s] by blast
  qed simp
  show "key_session fasynctest_turn ts kv (s, ev_press s)
     = key_session (box_turn post_irq {Run} Key (\<lambda>t kv. [])) ts kv (box_of s)"
    by (rule fifth_reader.signal_session)
      (auto simp: fasynctest_turn_def signalled_def read_and_print_def fifth_reader.takes Let_def buttons_irq_fifth_def latch_key_def emit_def
        simp del: One_nat_def)
  show "key_session buttons_test_turn us kv (s, ev_press s)
     = key_session (box_turn post_timer {Run} Key (\<lambda>t kv. [])) us kv (box_of s)"
    by (rule buttons_reader.signal_session)
      (auto simp: buttons_test_turn_def signalled_def timer_event_buttons_def
        read_and_print_def buttons_reader.takes Let_def s3c24xx_buttons_irq_def
        s3c24xx_buttons_timer_function_def emit_def simp del: One_nat_def split: timer_event.splits option.splits)
qed

end
