(* ===== verification/EepromTest.thy ===== *)
theory EepromTest
  imports At24 ReadWrite FbTest
begin

text \<open>
  i2c/at24cxx_driver_test.c, the program that reads and writes the EEPROM, run on the driver through the
  system calls of fs/read_write.c: the argument strings go in at one end and the messages on the bus come out
  at the other.
\<close>

subsection \<open>The device file\<close>

text \<open>
  The methods that the driver registers, on the memory of the process and the state of the adapter. The
  driver copies between its own variables and the buffer of the caller.
\<close>

type_synonym 'm eeprom_world = "(u32 \<Rightarrow> u8) \<times> 'm"

definition at24cxx_fops :: "'m adapter \<Rightarrow> u16 \<Rightarrow> u8 \<Rightarrow> 'm eeprom_world fops" where
  "at24cxx_fops xfer caddr junk =
     \<lparr>llseek = None,
      io_op = (\<lambda>d. Some (\<lambda>b n pos (mem, m).
        case d of
          Rd \<Rightarrow> (case at24cxx_read xfer caddr junk [mem b] (unat n) m of
                  (ret, ubuf, m) \<Rightarrow> (ret, pos, mem(b := ubuf ! 0), m))
        | Wr \<Rightarrow> (case at24cxx_write xfer caddr [mem b, mem (b + 1)] (unat n) m of
                  (ret, m) \<Rightarrow> (ret, pos, mem, m)))),
      aio = (\<lambda>d. None), sendfile = None, has_sendpage = False\<rparr>"

text \<open>
  The state of a process that has just opened the device file for reading and writing: it has the
  descriptor 3, the position is 0, and neither locks nor the security module object.
\<close>

definition opened_at24 :: "'m adapter \<Rightarrow> u16 \<Rightarrow> u8 \<Rightarrow> (u32 \<Rightarrow> u8) \<Rightarrow> 'm \<Rightarrow> 'm eeprom_world vfs" where
  "opened_at24 xfer caddr junk mem m =
     \<lparr>kt = [], fdt = [3 \<mapsto> 0],
      filp = (\<lambda>_. \<lparr>may = (\<lambda>d. True), may_seek = True, may_at = (\<lambda>d. True),
                   f_at = \<lparr>f_pos = 0, f_version = 0\<rparr>, f_inode = \<lparr>i_size = 0, s_maxbytes = 0\<rparr>,
                   f_op = Some (at24cxx_fops xfer caddr junk), lock_area = None, security = (\<lambda>d w. 0)\<rparr>),
      world = (mem, m)\<rparr>"

subsection \<open>The program\<close>

text \<open>
  \<^verbatim>\<open>b\<close> is the address of \<^verbatim>\<open>buf\<close>, \<^verbatim>\<open>fd\<close> what \<^verbatim>\<open>open\<close> returned (\<^verbatim>\<open>None\<close>: an error). The result is the exit
  status and the output. \<^verbatim>\<open>w\<close> without a value hands a null pointer to \<^verbatim>\<open>strtoul\<close>: \<^verbatim>\<open>None\<close>.
\<close>

datatype i2c_out = Usage | Cannot_open | Data u8

definition poke :: "u32 \<Rightarrow> u8 \<Rightarrow> 'm eeprom_world vfs \<Rightarrow> 'm eeprom_world vfs" where
  "poke a v s = s\<lparr>world := ((fst (world s))(a := v), snd (world s))\<rparr>"

definition i2c_test_main ::
  "'m eeprom_world kernel_env \<Rightarrow> u32 \<Rightarrow> u32 option \<Rightarrow> string list \<Rightarrow> 'm eeprom_world vfs
     \<Rightarrow> (int \<times> i2c_out list \<times> 'm eeprom_world vfs) option" where
  "i2c_test_main env b fd argv s =
     (if length argv \<noteq> 3 \<and> length argv \<noteq> 4 then Some (-1, [Usage], s)
      else case fd of None \<Rightarrow> Some (-1, [Cannot_open], s)
      | Some fd \<Rightarrow>
          if argv ! 1 = ''r''
          then let s = poke b (ucast (strtoul (argv ! 2))) s
               in map_option (\<lambda>(_, s). (0, [Data (fst (world s) b)], s)) (sys_read env fd b 1 s)
          else if argv ! 1 = ''w''
          then if length argv \<le> 3 then None
               else let s = poke (b + 1) (ucast (strtoul (argv ! 3))) (poke b (ucast (strtoul (argv ! 2))) s)
                    in map_option (\<lambda>(_, s). (0, [], s)) (sys_write env fd b 2 s)
          else Some (-1, [Usage], s))"

text \<open>Commands of a shell, one process after the other. Only the chip lives on.\<close>

datatype i2c_cmd = Put string string | Get string

primrec argv_of :: "i2c_cmd \<Rightarrow> string list" where
  "argv_of (Put a v) = [''i2c_test'', ''w'', a, v]"
| "argv_of (Get a) = [''i2c_test'', ''r'', a]"

fun i2c_shell ::
  "'m eeprom_world kernel_env \<Rightarrow> 'm adapter \<Rightarrow> u16 \<Rightarrow> u8 \<Rightarrow> u32 \<Rightarrow> (u32 \<Rightarrow> u8) \<Rightarrow> string list list \<Rightarrow> 'm
     \<Rightarrow> (i2c_out list \<times> 'm) option" where
  "i2c_shell env xfer caddr junk b stack [] m = Some ([], m)"
| "i2c_shell env xfer caddr junk b stack (argv # argvs) m =
     Option.bind (i2c_test_main env b (Some 3) argv (opened_at24 xfer caddr junk stack m))
       (\<lambda>(_, out, s). map_option (\<lambda>(outs, m). (out @ outs, m))
          (i2c_shell env xfer caddr junk b stack argvs (snd (world s))))"

subsection \<open>What the user sees\<close>

text \<open>The user has a memory of 256 bytes before him; addresses and values count by their low byte.\<close>

fun i2c_spec :: "i2c_cmd list \<Rightarrow> (u8 \<Rightarrow> u8) \<Rightarrow> i2c_out list \<times> (u8 \<Rightarrow> u8)" where
  "i2c_spec [] f = ([], f)"
| "i2c_spec (Put a v # cmds) f = i2c_spec cmds (f(ucast (strtoul a) := ucast (strtoul v)))"
| "i2c_spec (Get a # cmds) f =
     (case i2c_spec cmds f of (outs, f') \<Rightarrow> (Data (f (ucast (strtoul a))) # outs, f'))"

text \<open>A system call on a fresh device file reaches the method with what it was given.\<close>

lemma rw_area_dev:
  assumes "n = 1 \<or> n = 2"
  shows "rw_verify_area d (filp (opened_at24 xfer caddr junk mem m) i) 0 n w = int (unat n)"
  using assms by (auto simp: rw_verify_area_def opened_at24_def MAX_RW_COUNT_def)

lemma sys_rw_dev:
  assumes "n = 1 \<or> n = 2" "access_ok env b n" "s = opened_at24 xfer caddr junk mem0 m0\<lparr>world := (mem, m)\<rparr>"
    "the (io_op (at24cxx_fops xfer caddr junk) d) b n 0 (mem, m) = (ret, pos, w)"
  shows "\<exists>s'. sys_rw d env 3 b n s = Some (ret, s') \<and> world s' = w"
proof -
  define fl where "fl = filp s 0"
  have w: "fdt s 3 = Some 0" "world s = (mem, m)" and fl': "fl = filp (opened_at24 xfer caddr junk mem m) 0"
    by (simp_all add: assms(3) opened_at24_def fl_def)
  have f: "f_pos (f_at fl) = 0" "f_op fl = Some (at24cxx_fops xfer caddr junk)" "may fl d"
    "security fl d (mem, m) = 0" "rw_verify_area d fl 0 n (mem, m) = int (unat n)"
    using rw_area_dev [OF assms(1)] by (simp_all add: fl') (simp_all add: opened_at24_def)
  obtain fn where fn: "io_op (at24cxx_fops xfer caddr junk) d = Some fn" "fn b n 0 (mem, m) = (ret, pos, w)"
    using assms(4) by (simp add: at24cxx_fops_def)
  have "vfs_rw d env fl b n 0 (emit [Fget 0] s)
    = Some (ret, pos, emit ((if ret > 0 then [notify d] else []) @ add_char d ret @ [inc_sysc d])
        ((emit [Fget 0] s)\<lparr>world := w\<rparr>))"
    unfolding vfs_rw_def by (simp add: f w fn assms(2) Let_def of_nat_unat)
  then show ?thesis
    by (simp add: sys_rw_def w f(1) file_pos_write_def set_at_def flip: fl_def)
qed

lemma at24_methods:
  "the (io_op (at24cxx_fops xfer caddr junk) Rd) b n pos (mem, m)
     = (case at24cxx_read xfer caddr junk [mem b] (unat n) m of
          (ret, ubuf, m) \<Rightarrow> (ret, pos, mem(b := ubuf ! 0), m))"
  "the (io_op (at24cxx_fops xfer caddr junk) Wr) b n pos (mem, m)
     = (case at24cxx_write xfer caddr [mem b, mem (b + 1)] (unat n) m of (ret, m) \<Rightarrow> (ret, pos, mem, m))"
  by (simp_all add: at24cxx_fops_def)

text \<open>One run of the program, over a bus that works.\<close>

lemma i2c_test_put:
  assumes "chip_ok xfer caddr mem" "access_ok env b 2"
  shows "\<exists>s. i2c_test_main env b (Some 3) (argv_of (Put a v)) (opened_at24 xfer caddr junk stack m) = Some (0, [], s)
    \<and> mem (snd (world s)) = (mem m)(ucast (strtoul a) := ucast (strtoul v))"
proof -
  define x y :: u8 where "x = ucast (strtoul a)" and "y = ucast (strtoul v)"
  obtain m' where x: "xfer [\<lparr>addr = caddr, is_rd = False, buf = [x, y]\<rparr>] m
      = (1, [\<lparr>addr = caddr, is_rd = False, buf = [x, y]\<rparr>], m')" "mem m' = (mem m)(x := y)"
    using assms(1) unfolding chip_ok_def by blast
  define st where "st = stack(b := x, b + 1 := y)"
  have st: "st b = x" "st (b + 1) = y" by (simp_all add: st_def)
  have "\<exists>s'. sys_rw Wr env 3 b 2 (opened_at24 xfer caddr junk stack m\<lparr>world := (st, m)\<rparr>) = Some (2, s')
      \<and> world s' = (st, m')"
    by (rule sys_rw_dev [OF _ assms(2) refl, where pos = 0])
      (simp_all add: at24_methods at24cxx_write_def x(1) st)
  then show ?thesis using x(2)
    by (auto simp: i2c_test_main_def sys_write_def poke_def opened_at24_def x_def y_def st_def)
qed

lemma i2c_test_get:
  assumes "chip_ok xfer caddr mem" "access_ok env b 1"
  shows "\<exists>s. i2c_test_main env b (Some 3) (argv_of (Get a)) (opened_at24 xfer caddr junk stack m)
      = Some (0, [Data (mem m (ucast (strtoul a)))], s) \<and> mem (snd (world s)) = mem m"
proof -
  define x :: u8 where "x = ucast (strtoul a)"
  obtain m' where x: "xfer [\<lparr>addr = caddr, is_rd = False, buf = [x]\<rparr>, \<lparr>addr = caddr, is_rd = True, buf = [junk]\<rparr>] m
      = (2, [\<lparr>addr = caddr, is_rd = False, buf = [x]\<rparr>, \<lparr>addr = caddr, is_rd = True, buf = [mem m x]\<rparr>], m')"
    "mem m' = mem m"
    using assms(1) unfolding chip_ok_def by blast
  have "\<exists>s'. sys_rw Rd env 3 b 1 (opened_at24 xfer caddr junk stack m\<lparr>world := (stack(b := x), m)\<rparr>) = Some (1, s')
      \<and> world s' = (stack(b := mem m x), m')"
    by (rule sys_rw_dev [OF _ assms(2) refl, where pos = 0])
      (simp_all add: at24_methods at24cxx_read_def Let_def x(1) del: One_nat_def)
  then show ?thesis using x(2)
    by (auto simp: i2c_test_main_def sys_read_def poke_def opened_at24_def x_def)
qed

text \<open>A bus that fails: the program does not notice and shows the address as if it were the data.\<close>

lemma i2c_test_bus_error:
  assumes "\<forall>ms. fst (xfer ms m) < 0" "access_ok env b 1"
  shows "\<exists>s. i2c_test_main env b (Some 3) (argv_of (Get a)) (opened_at24 xfer caddr junk stack m)
      = Some (0, [Data (ucast (strtoul a))], s)"
proof -
  define x :: u8 where "x = ucast (strtoul a)"
  obtain r ub m' where r: "at24cxx_read xfer caddr junk [x] 1 m = (r, ub, m')" by (metis prod_cases3)
  then have "ub = [x]" using bus_error(1) [where xfer = xfer and m = m and caddr = caddr and junk = junk and ubuf = "[x]", OF assms(1)] by simp
  with r have "\<exists>s'. sys_rw Rd env 3 b 1 (opened_at24 xfer caddr junk stack m\<lparr>world := (stack(b := x), m)\<rparr>) = Some (r, s')
      \<and> world s' = (stack(b := x), m')"
    by (intro sys_rw_dev [OF _ assms(2) refl, where pos = 0])
      (simp_all add: at24_methods del: One_nat_def)
  then show ?thesis
    by (auto simp: i2c_test_main_def sys_read_def poke_def opened_at24_def x_def)
qed

subsection \<open>Properties\<close>

text \<open>
  C19. From the shell the EEPROM is a memory. Over a bus that works, for every sequence of runs of the
  program \<^verbatim>\<open>w\<close> stores and \<^verbatim>\<open>r\<close> shows the byte that the last \<^verbatim>\<open>w\<close> to this address stored, or what the chip
  held at first; what the stack holds and what is on the bus at the end of a run does not matter. It needs
  only that the buffer of the program can be accessed. The strings go through \<^verbatim>\<open>strtoul\<close> and a
  cut to a byte, the bytes through the system calls, the driver and the messages to the chip.
\<close>

theorem eeprom_program_is_memory:
  assumes "chip_ok xfer caddr mem" "access_ok env b 1" "access_ok env b 2"
  shows "\<exists>m'. i2c_shell env xfer caddr junk b stack (map argv_of cmds) m = Some (fst (i2c_spec cmds (mem m)), m')
    \<and> mem m' = snd (i2c_spec cmds (mem m))"
proof (induction cmds arbitrary: m)
  case (Cons cmd cmds)
  show ?case
  proof (cases cmd)
    case (Put a v)
    from i2c_test_put [OF assms(1,3)] obtain s where
      s: "i2c_test_main env b (Some 3) (argv_of cmd) (opened_at24 xfer caddr junk stack m) = Some (0, [], s)"
      "mem (snd (world s)) = (mem m)(ucast (strtoul a) := ucast (strtoul v))"
      unfolding Put by blast
    show ?thesis
      using Cons.IH [of "snd (world s)"] s(1) unfolding s(2) by (auto simp: Put simp del: argv_of.simps fun_upd_apply)
  next
    case (Get a)
    from i2c_test_get [OF assms(1,2)] obtain s where
      s: "i2c_test_main env b (Some 3) (argv_of cmd) (opened_at24 xfer caddr junk stack m)
        = Some (0, [Data (mem m (ucast (strtoul a)))], s)" "mem (snd (world s)) = mem m"
      unfolding Get by blast
    show ?thesis
      using Cons.IH [of "snd (world s)"] s(1) unfolding s(2)
      by (auto simp: Get split: prod.split simp del: argv_of.simps)
  qed
qed simp

theorem eeprom_program_is_memory_witness:
  "\<exists>m'. i2c_shell plain_env plain_chip 0x50 0 0x1000 (\<lambda>_. 0)
      [[''i2c_test'', ''w'', ''0x103'', ''9''], [''i2c_test'', ''r'', ''3''], [''i2c_test'', ''r'', ''4'']] (\<lambda>_. 0xff)
    = Some ([Data 9, Data 0xff], m') \<and> m' = (\<lambda>_. 0xff)(3 := 9)"
proof -
  have n: "strtoul ''0x103'' = 0x103" "strtoul ''9'' = 9" "strtoul ''3'' = 3" "strtoul ''4'' = 4"
    "(259 :: u8) = 3"
    by (simp_all add: strtoul_def unsigned_value_def digit_value_def Let_def)
  show ?thesis
    using eeprom_program_is_memory [OF chip_ok_plain, where caddr = "0x50" and junk = 0 and b = "0x1000"
        and stack = "\<lambda>_. 0" and m = "\<lambda>_. 0xff"
        and env = plain_env
        and cmds = "[Put ''0x103'' ''9'', Get ''3'', Get ''4'']"]
    by (simp add: n plain_env_def)
qed

end
