(* ===== verification/SmallTests.thy ===== *)
theory SmallTests
  imports Dma RegEditor SysHello
begin

text \<open>
  Three programs that only make one kind of system call: hello_test.c opens a device, dma_driver_test.c
  calls the same ioctl for ever, test_system_call.c makes the system call that was added to the kernel.
\<close>

subsection \<open>hello_test\<close>

text \<open>
  \<^verbatim>\<open>node\<close> gives the minor number behind a file name. A node can be opened when a region of device numbers
  with its number is registered, as hello.c registers two; the open functions return 0.
\<close>

datatype hello_said = Hello_usage | Can_open string | Can_not_open string

definition device_there :: "kcall list \<Rightarrow> nat \<Rightarrow> nat \<Rightarrow> bool" where
  "device_there cs major minor =
     list_ex (\<lambda>r. case r of Chrdev_region m a n \<Rightarrow> m = major \<and> a \<le> minor \<and> minor < a + n | _ \<Rightarrow> False) (held cs)"

definition hello_test_main :: "kcall list \<Rightarrow> nat \<Rightarrow> (string \<Rightarrow> nat option) \<Rightarrow> string list \<Rightarrow> hello_said list" where
  "hello_test_main cs major node argv =
     (if length argv \<noteq> 2 then [Hello_usage]
      else case node (argv ! 1) of
        Some minor \<Rightarrow>
          if device_there cs major minor \<and> (if minor < HELLO_CNT then hello_open else hello2_open) = 0
          then [Can_open (argv ! 1)] else [Can_not_open (argv ! 1)]
      | None \<Rightarrow> [Can_not_open (argv ! 1)])"

text \<open>
  With the module loaded the program opens hello0, hello1 and hello2. The fourth node, which the module makes
  as well, leads nowhere; without the module all four do.
\<close>

lemma hello_test_opens_three:
  assumes "node f = Some k" "k < 4"
  shows "hello_test_main (snd (hello_init e)) (hello_major e) node [prog, f]
      = (if k < 3 then [Can_open f] else [Can_not_open f])"
    and "hello_test_main (snd (hello_init e) @ hello_exit e) (hello_major e) node [prog, f] = [Can_not_open f]"
proof -
  have "k = 0 \<or> k = 1 \<or> k = 2 \<or> k = 3" using assms(2) by auto
  then show "hello_test_main (snd (hello_init e)) (hello_major e) node [prog, f]
      = (if k < 3 then [Can_open f] else [Can_not_open f])"
    using assms(1) by (auto simp: hello_test_main_def device_there_def hello_init_def HELLO_CNT_def
        hello_open_def hello2_open_def)
  show "hello_test_main (snd (hello_init e) @ hello_exit e) (hello_major e) node [prog, f] = [Can_not_open f]"
    using assms(1) by (simp add: hello_test_main_def device_there_def hello_init_def hello_exit_def HELLO_CNT_def)
qed

subsection \<open>dma_test\<close>

text \<open>
  One round of the loop of the program. A call that waits is continued by the interrupt at the end of the
  transfer, when the destination holds \<^verbatim>\<open>bytes\<close>.
\<close>

definition dma_round :: "nat \<Rightarrow> u8 list \<Rightarrow> dma \<Rightarrow> dma option" where
  "dma_round cmd bytes s =
     (case s3c_dma_ioctl cmd s of
        (Ret r, s) \<Rightarrow> Some s
      | (Sleep, s) \<Rightarrow> map_option snd (s3c_dma_resume False (s3c_dma_irq (s\<lparr>dst := bytes\<rparr>))))"

fun dma_rounds :: "nat \<Rightarrow> u8 list list \<Rightarrow> dma \<Rightarrow> dma option" where
  "dma_rounds cmd [] s = Some s"
| "dma_rounds cmd (bytes # later) s = Option.bind (dma_round cmd bytes s) (dma_rounds cmd later)"

datatype dma_said = Dma_usage | Dma_cant_open

definition dma_test_main ::
  "bool \<Rightarrow> string list \<Rightarrow> u8 list list \<Rightarrow> dma \<Rightarrow> (dma_said list \<times> dma) option" where
  "dma_test_main opened argv rounds s =
     (if length argv \<noteq> 2 then Some ([Dma_usage], s)
      else if \<not> opened then Some ([Dma_cant_open], s)
      else if argv ! 1 = ''nodma'' then map_option (Pair []) (dma_rounds MEM_CPY_NO_DMA rounds s)
      else if argv ! 1 = ''dma'' then map_option (Pair []) (dma_rounds MEM_CPY_DMA rounds s)
      else Some ([Dma_usage], s))"

text \<open>The rounds of the processor all succeed; those of the controller report OK exactly when it copied the source.\<close>

lemma copy_loop_buf: "copy_loop 0 BUF_SIZE (replicate BUF_SIZE 0xAA) (replicate BUF_SIZE 0x55) = replicate BUF_SIZE (0xAA :: u8)"
  using copy_loop_all [of "replicate BUF_SIZE 0xAA" "replicate BUF_SIZE (0x55 :: u8)"] by simp

lemma dma_round_processor:
  "\<exists>s'. dma_round MEM_CPY_NO_DMA bytes s = Some s' \<and> kt s' = kt s @ [Other ''MEM_CPY_NO_DMA OK'' 0]"
  by (simp add: dma_round_def s3c_dma_ioctl_def compare_def copy_loop_buf)

lemma dma_round_controller:
  "\<exists>s'. dma_round MEM_CPY_DMA bytes s = Some s' \<and> kt s' = kt s @ [Wake_up ''dma_waitq'',
      Other (if bytes = replicate BUF_SIZE 0xAA then ''MEM_CPY_DMA OK'' else ''MEM_CPY_DMA ERROR'') 0]"
  by (auto simp: dma_round_def s3c_dma_ioctl_def s3c_dma_resume_def s3c_dma_irq_def compare_def program_dma_def
      MEM_CPY_NO_DMA_def MEM_CPY_DMA_def emit_def)

lemma dma_test_reports:
  "\<exists>s'. dma_test_main True [prog, ''nodma''] rounds s = Some ([], s')
     \<and> kt s' = kt s @ concat (map (\<lambda>_. [Other ''MEM_CPY_NO_DMA OK'' 0]) rounds)"
  "\<exists>s'. dma_test_main True [prog, ''dma''] rounds s = Some ([], s')
     \<and> kt s' = kt s @ concat (map (\<lambda>bytes. [Wake_up ''dma_waitq'',
         Other (if bytes = replicate BUF_SIZE 0xAA then ''MEM_CPY_DMA OK'' else ''MEM_CPY_DMA ERROR'') 0]) rounds)"
proof -
  have runs: "\<exists>s'. dma_rounds cmd rounds s = Some s' \<and> kt s' = kt s @ concat (map out rounds)"
    if each: "\<And>bytes s. \<exists>s'. dma_round cmd bytes s = Some s' \<and> kt s' = kt s @ out bytes" for cmd out
  proof (induction rounds arbitrary: s)
    case (Cons bytes rounds)
    obtain s1 where "dma_round cmd bytes s = Some s1" "kt s1 = kt s @ out bytes" using each by blast
    with Cons [of s1] show ?case by auto
  qed simp
  show "\<exists>s'. dma_test_main True [prog, ''nodma''] rounds s = Some ([], s')
     \<and> kt s' = kt s @ concat (map (\<lambda>_. [Other ''MEM_CPY_NO_DMA OK'' 0]) rounds)"
    using runs [OF dma_round_processor] by (auto simp: dma_test_main_def)
  show "\<exists>s'. dma_test_main True [prog, ''dma''] rounds s = Some ([], s')
     \<and> kt s' = kt s @ concat (map (\<lambda>bytes. [Wake_up ''dma_waitq'',
         Other (if bytes = replicate BUF_SIZE 0xAA then ''MEM_CPY_DMA OK'' else ''MEM_CPY_DMA ERROR'') 0]) rounds)"
    using runs [OF dma_round_controller] by (auto simp: dma_test_main_def)
qed

subsection \<open>test_system_call\<close>

text \<open>The program passes its string and 15, the length of the string with its end. The result is what the kernel prints.\<close>

definition ask_net :: "u8 list" where
  "ask_net = map of_char ''www.100ask.net''"

definition test_system_call_main :: "u8 list \<Rightarrow> u8 list option option" where
  "test_system_call_main stack = sys_hello stack (Some (ask_net @ [0])) 15"

lemma test_system_call_prints:
  assumes "length stack = 100"
  shows "test_system_call_main stack = Some (Some ask_net)"
proof -
  have "0 \<notin> set ask_net" "length ask_net = 14" by code_simp+
  then show ?thesis
    using sys_hello_prints [OF assms, of ask_net 15 "[]"] by (simp add: test_system_call_main_def)
qed

end
