(* ===== verification/Spec2Isabelle.thy ===== *)
theory Spec2Isabelle
  imports TouchScreen ButtonsInput RegEditor34 RamBlock UsbMouse Lcd VirtNet Dma At24 Mtd Dm9000Reset Dm9000Send ReplayCalls SoundFile SysHello Recording FbTest LedTests KeyTests EepromTest SmallTests
begin

text \<open>
  A verification library for the peripheral drivers of this repository: Linux kernel modules for an
  ARM board with an S3C2440, one set under Base_on_linux-2.6.22.6_S3C2440 and one under
  Base_on_linux-3.4.2_S3C2440 (src/ in front of both).

  \<^bold>\<open>The program.\<close> Every directory is one module. A module has file-scope state, a load function that
  registers it with the kernel, an unload function that takes that back, and operations the kernel
  calls: system call entries (open, read, write, ioctl, poll, fasync, release), interrupt handlers,
  timer functions, and callbacks of a subsystem (input, block, network, frame buffer, MTD, I2C, USB).
  Most modules come with a program that uses them through system calls. Modules interact in four places:
  the recording touch screen driver prints its events into the kernel log mymsg and is also the player that
  reads such lines back; the platform bus joins the device and the driver half of the layered LED
  driver; the same driver exists in a version for each kernel; and the repository carries the kernel's
  fs/read_write.c, through which every read and write of a program reaches its driver.

  \<^bold>\<open>How code becomes a model.\<close> Each module's file-scope variables are a \<^verbatim>\<open>record\<close> that extends
  \<^verbatim>\<open>kstate\<close> (Kernel), each C function is a \<^verbatim>\<open>definition\<close> of the same name from the state before to the
  result and the state after. The 3.4.2 version of a function that exists in both trees has the suffix
  \<^verbatim>\<open>_34\<close>. Calls into the kernel are never given a meaning: those with an effect are appended to
  the trace \<^verbatim>\<open>kt\<close> in the order the code issues them, and what the kernel answers (an allocation that
  fails, bytes copied from a user, the value of a register or of a pin) is an argument. A system
  call that waits is \<^verbatim>\<open>Sleep\<close> or \<^verbatim>\<open>Ret\<close> (Kernel). Errors are the negative numbers the C code returns.
  An access outside an array, a use of an uninitialised variable and a loop that does not end are
  \<^verbatim>\<open>None\<close>: where a theorem says a result is \<^verbatim>\<open>Some\<close>, the code is safe and returns. C integers are
  words of their width where the code can reach a wrap-around, and natural numbers where its
  bounds are proved or obvious. No model of the code has fuel: loops with a bound in the code recurse
  on that bound, and the busy-waits on hardware, the receive loop and loops over what a file or a
  channel gives, which have none, are partial functions in the option monad. An operation that waits
  for interrupts is given the list of what happens meanwhile. Where a run of several handlers is
  counted (expiries of the replay timer, instructions of a debugged process) the theorem holds for every
  count, or for every one above the bound it states.

  \<^bold>\<open>Theories.\<close>
  \<^item> Prelude: word types, error numbers, bit lemmas, ring buffers, the locale \<^verbatim>\<open>bounded_log\<close>.
  \<^item> Kernel: traces of kernel calls, what a trace still holds, the locale \<^verbatim>\<open>lifecycle\<close> (a failed load
    leaves nothing, an unload undoes a load), which the drivers that keep that contract interpret.
  \<^item> MyMsg: the kernel log behind /proc/mymsg, a ring of N characters, as a log that keeps the
    last N - 1; it interprets \<^verbatim>\<open>bounded_log\<close> and its lemmas give the refinement and history properties.
  \<^item> Replay: the input recorder and player (debug_input_emulate), its parser and timer: bounds of the
    uploaded buffer, and the round trip from recorded lines to reported events. InputReplay: the program
    input_replay in front of it, and the whole way from a file of recorded lines to the events. Recording:
    driver, log, program and player composed: what was touched is what is replayed. ReplayCalls: the
    player's device behind the file layer (locale \<^verbatim>\<open>plain_driver\<close>), which keeps away the sizes for which
    the guard of the driver wraps.
  \<^item> TouchScreen: the touch screen drivers of both trees and the recording one: the pen/ADC state
    machine with its reachable states, the average of four samples, and that recording changes nothing.
  \<^item> Buttons, KeyDrivers, ButtonsInput: the character-device button drivers from polling to
    semaphore, signal and debouncing timer, and the input-subsystem ones: mutual exclusion (locale
    \<^verbatim>\<open>exclusive\<close>), the debounced value, poll against read, and the error paths of their open.
    KeyTests: the seven programs that read the keys, on their drivers (locale \<^verbatim>\<open>key_reader\<close>), as a letter
    box of one place. A turn of a program is what it does until it waits again.
  \<^item> Leds: the LED drivers, plain, with status, and layered on the platform bus. LedTests: their programs
    and the driver that logs its calls in mymsg.
  \<^item> RamBlock: the RAM disks of both trees as a refinement of an array of bytes.
  \<^item> UsbMouse: the USB mouse as three keys: the keys held down are the buttons pressed.
  \<^item> RegEditor: the register editor, its driver ker_rw and the driver hello with two device regions.
    RegEditor34: the version of the 3.4.2 tree, equal to the older one up to the command numbers.
  \<^item> Lcd: the frame buffer drivers of both trees: palette entries and the programmed geometry.
    FbTest: the program fb_test, whose picture ends up in the frame buffer pixel by pixel.
  \<^item> VirtNet: the virtual network card that answers pings, with the checksum of the IP header.
  \<^item> Dma: the memory copy with and without DMA. SmallTests: the programs dma_driver_test, hello_test and
    test_system_call.
  \<^item> At24: the I2C EEPROM driver as a memory of 256 bytes. EepromTest: its program run on it through
    the system calls of ReadWrite, as a memory for the user of the shell.
  \<^item> Mtd: the NAND and NOR flash glue: the bus cycles each command makes.
  \<^item> Dm9000, Dm9000Net, Dm9000Load: the DM9000 Ethernet driver of dm9000_first. The chip is a
    parameter (\<^verbatim>\<open>port\<close>); \<^verbatim>\<open>phy_chip_ok\<close>, \<^verbatim>\<open>rx_chip_ok\<close>, \<^verbatim>\<open>tx_chip_ok\<close> and \<^verbatim>\<open>filter_chip_ok\<close> state what its
    data sheet documents and are each met by a concrete chip. Dm9000: register access, PHY, EEPROM and
    set-up; Dm9000Net: transmission, reception, interrupt, watchdog, timer and the invariant over all runs, through
    the locales \<^verbatim>\<open>chip_obs\<close>, \<^verbatim>\<open>rx_obs\<close> and \<^verbatim>\<open>dmfe_inv\<close>: what chip accesses and handlers leave alone, and
    which conditions they keep; Dm9000Load: probing, loading, unloading and what they leave behind;
    Dm9000Old: the address filter of the chip, that the functions of both trees program it alike,
    and loading in the 2.6.22.6 tree. The text of the handlers is the same in both trees but for
    the multicast function they call, so their definitions take the tree (\<^verbatim>\<open>linux\<close>) as an argument.
    Dm9000Reset: what a reset does to the filter and, inside the interrupt, to the lock. Dm9000Send: what
    a transmission puts on the wire, in each width of the bus.
  \<^item> Codec, Sound, SoundPlay, SoundFile: the sound driver sound/s3c-wm8976.c. Codec: the serial writes to
    the codec, which a receiver decodes again, the mixer and the clock divider. Sound: the two streams of
    fragments, the device file, loading. SoundPlay: the invariant of the ring of fragments between
    writer, DMA channel and completions. SoundFile: what the device file promises, as a queue of bytes.
  \<^item> ReadWrite: the kernel's fs/read_write.c: seeking, single, positioned and vectored transfers, sendfile.
    The methods of a file are parameters; the theorems say that descriptors, positions and references stay
    in order, when and how a driver's method is reached, and how the calls relate to one another.
  \<^item> SysHello: the system call added to the kernel's fs/read_write.c, as a printer of strings and as a
    breakpoint in a running program, whose loop is modelled instruction by instruction (locale \<^verbatim>\<open>breakpoint\<close>).

  \<^bold>\<open>What is proved.\<close> Properties carry the ids C1 to C40, each right before its theorem. Beside the
  functional behaviour of the operations they show refinements of an abstract object (a bounded
  log, a disk, a memory, a tape of input lines), invariants over all sequences of events, mutual
  exclusion, bounds, and, where the code falls short of its intent, exactly how: the theorem states
  what the code does, and PROJECT.json lists it as a finding.

  \<^bold>\<open>Not modelled.\<close> The system call tables; copies of a file whose text is that of a modelled one, among
  them the DM9000 driver under the block devices, which is dm9000_first line for line; the read function
  of the LED driver with status, which does not compile; build files. Concurrency inside one handler is not modelled: a run is a sequence
  of whole handlers, and where a handler can be interrupted in its middle the model splits it
  into the steps that matter (the open and close of the button drivers).
\<close>

end
